(* ===== verification/Prelude.thy ===== *)
theory Prelude
  imports Main "HOL-Library.List_Lexorder" "HOL-Library.Char_ord" "HOL-Library.Product_Lexorder"
begin

text \<open>
  The vocabulary the components share.

  Text. A Rust \<open>String\<close> is its sequence of UTF-8 bytes, a HOL \<open>string\<close>: equality, \<open>Ord\<close>
  (bytewise lexicographic), \<open>len\<close> and the ASCII operations of the standard library work on
  bytes. Where the code walks characters, \<open>rchars\<close> cuts the bytes into UTF-8 characters.

  Ordered maps. A \<open>BTreeMap\<close> (and the object of \<open>serde_json\<close>, which is one: the build does
  not enable \<open>preserve_order\<close>) is an association list in strictly ascending key order; the
  locale \<open>ordered_map\<close> states what its clients rely on and the interpretation \<open>bt\<close> shows
  that the sorted lists provide it.

  JSON. \<open>serde_json::Value\<close> is the datatype \<open>json\<close> with the accessors the code calls.
\<close>

named_theorems text_simps "unfolding the text operations of the standard library"
named_theorems bt_simps "lookup laws of ordered maps"

subsection \<open>Text\<close>

definition utf8_len :: "char \<Rightarrow> nat" where
  "utf8_len c =
     (let n = of_char c :: nat in
      if n < 0xC0 then 1 else if n < 0xE0 then 2 else if n < 0xF0 then 3 else 4)"

function rchars :: "string \<Rightarrow> string list" where
  "rchars [] = []"
| "rchars (c # cs) = (c # take (utf8_len c - 1) cs) # rchars (drop (utf8_len c - 1) cs)"
  by pat_completeness auto
termination
  by (relation "measure length") auto

definition unicode_ws :: "string list" where
  "unicode_ws =
     [[CHR 0x09], [CHR 0x0A], [CHR 0x0B], [CHR 0x0C], [CHR 0x0D], [CHR 0x20],
      [CHR 0xC2, CHR 0x85], [CHR 0xC2, CHR 0xA0], [CHR 0xE1, CHR 0x9A, CHR 0x80]] @
     map (\<lambda>n. [CHR 0xE2, CHR 0x80, char_of n]) [0x80::nat ..< 0x8B] @
     [[CHR 0xE2, CHR 0x80, CHR 0xA8], [CHR 0xE2, CHR 0x80, CHR 0xA9],
      [CHR 0xE2, CHR 0x80, CHR 0xAF], [CHR 0xE2, CHR 0x81, CHR 0x9F],
      [CHR 0xE3, CHR 0x80, CHR 0x80]]"

definition is_whitespace :: "string \<Rightarrow> bool" where
  "is_whitespace ch \<longleftrightarrow> ch \<in> set unicode_ws"

definition str_trim :: "string \<Rightarrow> string" where
  "str_trim s = concat (rev (dropWhile is_whitespace (rev (dropWhile is_whitespace (rchars s)))))"

fun words_of :: "string list \<Rightarrow> string \<Rightarrow> string list" where
  "words_of [] cur = (if cur = [] then [] else [cur])"
| "words_of (ch # chs) cur =
     (if is_whitespace ch then (if cur = [] then words_of chs [] else cur # words_of chs [])
      else words_of chs (cur @ ch))"

definition split_whitespace :: "string \<Rightarrow> string list" where
  "split_whitespace s = words_of (rchars s) []"

text \<open>\<open>str::split\<close> at every occurrence of one ASCII byte: never the empty list.\<close>

fun str_split :: "char \<Rightarrow> string \<Rightarrow> string list" where
  "str_split d [] = [[]]"
| "str_split d (c # cs) =
     (if c = d then [] # str_split d cs
      else (case str_split d cs of [] \<Rightarrow> [[c]] | w # ws \<Rightarrow> (c # w) # ws))"

fun strip_prefix :: "string \<Rightarrow> string \<Rightarrow> string option" where
  "strip_prefix [] s = Some s"
| "strip_prefix (p # ps) [] = None"
| "strip_prefix (p # ps) (c # cs) = (if p = c then strip_prefix ps cs else None)"

definition starts_with :: "string \<Rightarrow> string \<Rightarrow> bool" where
  "starts_with p s \<longleftrightarrow> strip_prefix p s \<noteq> None"

definition strip_suffix :: "string \<Rightarrow> string \<Rightarrow> string option" where
  "strip_suffix p s = map_option rev (strip_prefix (rev p) (rev s))"

definition ends_with :: "string \<Rightarrow> string \<Rightarrow> bool" where
  "ends_with p s \<longleftrightarrow> strip_suffix p s \<noteq> None"

text \<open>\<open>str::split_once\<close>: around the first occurrence of the pattern.\<close>

fun split_once :: "string \<Rightarrow> string \<Rightarrow> (string \<times> string) option" where
  "split_once p [] = (if p = [] then Some ([], []) else None)"
| "split_once p (c # cs) =
     (case strip_prefix p (c # cs) of
        Some rest \<Rightarrow> Some ([], rest)
      | None \<Rightarrow> map_option (\<lambda>(a, b). (c # a, b)) (split_once p cs))"

text \<open>\<open>str::split\<close> at every occurrence of a pattern; the fuel is the length of the text.\<close>

fun split_pat_fuel :: "nat \<Rightarrow> string \<Rightarrow> string \<Rightarrow> string list" where
  "split_pat_fuel 0 p s = [s]"
| "split_pat_fuel (Suc n) p s =
     (case split_once p s of None \<Rightarrow> [s] | Some (a, b) \<Rightarrow> a # split_pat_fuel n p b)"

definition str_split_pat :: "string \<Rightarrow> string \<Rightarrow> string list" where
  "str_split_pat p s = split_pat_fuel (length s) p s"

definition ascii_lower :: "char \<Rightarrow> char" where
  "ascii_lower c =
     (let n = of_char c :: nat in if 65 \<le> n \<and> n \<le> 90 then char_of (n + 32) else c)"

definition to_ascii_lowercase :: "string \<Rightarrow> string" where
  "to_ascii_lowercase s = map ascii_lower s"

definition eq_ignore_ascii_case :: "string \<Rightarrow> string \<Rightarrow> bool" where
  "eq_ignore_ascii_case a b \<longleftrightarrow> to_ascii_lowercase a = to_ascii_lowercase b"

definition is_ascii_digit :: "char \<Rightarrow> bool" where
  "is_ascii_digit c \<longleftrightarrow> (let n = of_char c :: nat in 48 \<le> n \<and> n \<le> 57)"

definition is_ascii_alpha :: "char \<Rightarrow> bool" where
  "is_ascii_alpha c \<longleftrightarrow>
     (let n = of_char c :: nat in (65 \<le> n \<and> n \<le> 90) \<or> (97 \<le> n \<and> n \<le> 122))"

definition is_ascii_alphanumeric :: "char \<Rightarrow> bool" where
  "is_ascii_alphanumeric c \<longleftrightarrow> is_ascii_digit c \<or> is_ascii_alpha c"

fun str_join :: "string \<Rightarrow> string list \<Rightarrow> string" where
  "str_join sep [] = []"
| "str_join sep [x] = x"
| "str_join sep (x # y # xs) = x @ sep @ str_join sep (y # xs)"

definition digit_char :: "nat \<Rightarrow> char" where
  "digit_char d = char_of (if d < 10 then 48 + d else 87 + d)"

text \<open>\<open>Display\<close> of an unsigned integer, and \<open>{:x}\<close>, in base \<open>b\<close>.\<close>

function show_base :: "nat \<Rightarrow> nat \<Rightarrow> string" where
  "show_base b n =
     (if b < 2 \<or> n < b then [digit_char n] else show_base b (n div b) @ [digit_char (n mod b)])"
  by pat_completeness auto
termination
  by (relation "measure (\<lambda>(b, n). n)") (auto simp: div_less_dividend)

declare show_base.simps [simp del]

definition show_nat :: "nat \<Rightarrow> string" where
  "show_nat n = show_base 10 n"

text \<open>\<open>{:08x}\<close>: lower-case hexadecimal, padded with zeros to eight digits.\<close>

definition hex8 :: "nat \<Rightarrow> string" where
  "hex8 n = (let s = show_base 16 n in replicate (8 - length s) (CHR ''0'') @ s)"

text \<open>\<open>str::lines\<close>: a line ends at a line feed, with one carriage return before it; what follows
  the last line feed is a line when it is not empty, and keeps its carriage return.\<close>

definition strip_cr :: "string \<Rightarrow> string" where
  "strip_cr l = (case strip_suffix [CHR 0x0D] l of None \<Rightarrow> l | Some r \<Rightarrow> r)"

definition str_lines :: "string \<Rightarrow> string list" where
  "str_lines s =
     (let parts = str_split (CHR 0x0A) s
      in map strip_cr (butlast parts) @ (if last parts = [] then [] else [last parts]))"

text \<open>An apostrophe, which a HOL string literal cannot hold.\<close>

definition apostrophe :: string where
  "apostrophe = [CHR 0x27]"

definition newline :: string where
  "newline = [CHR 0x0A]"

text \<open>Arithmetic on \<open>u64\<close> and \<open>usize\<close>, checked: \<open>None\<close> where the result does not fit.\<close>

definition checked_add :: "nat \<Rightarrow> nat \<Rightarrow> nat option" where
  "checked_add a b = (if a + b < 2 ^ 64 then Some (a + b) else None)"

definition checked_sub :: "nat \<Rightarrow> nat \<Rightarrow> nat option" where
  "checked_sub a b = (if b \<le> a then Some (a - b) else None)"

subsection \<open>Ordered maps and sets\<close>

type_synonym ('k, 'v) btree = "('k \<times> 'v) list"

definition bt_wf :: "('k::linorder, 'v) btree \<Rightarrow> bool" where
  "bt_wf m \<longleftrightarrow> sorted_wrt (<) (map fst m)"

definition bt_empty :: "('k, 'v) btree" where
  "bt_empty = []"

definition bt_get :: "('k, 'v) btree \<Rightarrow> 'k \<Rightarrow> 'v option" where
  "bt_get m k = map_of m k"

fun bt_insert :: "'k::linorder \<Rightarrow> 'v \<Rightarrow> ('k, 'v) btree \<Rightarrow> ('k, 'v) btree" where
  "bt_insert k v [] = [(k, v)]"
| "bt_insert k v ((a, b) # m) =
     (if k < a then (k, v) # (a, b) # m
      else if k = a then (k, v) # m
      else (a, b) # bt_insert k v m)"

definition bt_remove :: "'k \<Rightarrow> ('k, 'v) btree \<Rightarrow> ('k, 'v) btree" where
  "bt_remove k m = filter (\<lambda>e. fst e \<noteq> k) m"

definition bt_collect :: "('k::linorder \<times> 'v) list \<Rightarrow> ('k, 'v) btree" where
  "bt_collect kvs = fold (\<lambda>(k, v). bt_insert k v) kvs []"

text \<open>A \<open>BTreeSet\<close> collected from a sequence: ascending, each element once.\<close>

definition bt_set :: "'a::linorder list \<Rightarrow> 'a list" where
  "bt_set xs = sort (remdups xs)"

subsection \<open>JSON values\<close>

text \<open>
  A number carries the text \<open>Number::to_string\<close> prints for it. The accessors are those of
  \<open>serde_json::Value\<close> the code calls: \<open>get\<close> by member name, \<open>as_str\<close>, \<open>as_bool\<close>,
  \<open>as_array\<close> and \<open>pointer\<close>, here over the pointer's reference tokens.
\<close>

datatype json =
    JNull
  | JBool bool
  | JNumber string
  | JString string
  | JArray "json list"
  | JObject "(string \<times> json) list"

fun jget :: "string \<Rightarrow> json \<Rightarrow> json option" where
  "jget k (JObject m) = bt_get m k"
| "jget k _ = None"

fun as_str :: "json \<Rightarrow> string option" where
  "as_str (JString s) = Some s"
| "as_str _ = None"

fun as_bool :: "json \<Rightarrow> bool option" where
  "as_bool (JBool b) = Some b"
| "as_bool _ = None"

fun as_array :: "json \<Rightarrow> json list option" where
  "as_array (JArray xs) = Some xs"
| "as_array _ = None"

definition digits_value :: "string \<Rightarrow> nat" where
  "digits_value s = foldl (\<lambda>n c. 10 * n + (of_char c - 48)) 0 s"

definition array_index :: "string \<Rightarrow> nat option" where
  "array_index t =
     (if t \<noteq> [] \<and> list_all is_ascii_digit t \<and> (hd t \<noteq> CHR ''0'' \<or> length t = 1)
      then Some (digits_value t) else None)"

fun pointer :: "string list \<Rightarrow> json \<Rightarrow> json option" where
  "pointer [] v = Some v"
| "pointer (t # ts) (JObject m) =
     (case bt_get m t of None \<Rightarrow> None | Some v \<Rightarrow> pointer ts v)"
| "pointer (t # ts) (JArray xs) =
     (case array_index t of
        None \<Rightarrow> None
      | Some i \<Rightarrow> if i < length xs then pointer ts (xs ! i) else None)"
| "pointer (t # ts) v = None"

definition ptr_str :: "string list \<Rightarrow> json \<Rightarrow> string option" where
  "ptr_str ts v = Option.bind (pointer ts v) as_str"

definition get_str :: "string \<Rightarrow> json \<Rightarrow> string option" where
  "get_str k v = Option.bind (jget k v) as_str"

definition get_array :: "string \<Rightarrow> json \<Rightarrow> json list option" where
  "get_array k v = Option.bind (jget k v) as_array"

text \<open>\<open>Option::unwrap_or\<close>, \<open>is_some_and\<close>, \<open>is_none_or\<close>.\<close>

definition unwrap_or :: "'a \<Rightarrow> 'a option \<Rightarrow> 'a" where
  "unwrap_or d x = (case x of None \<Rightarrow> d | Some y \<Rightarrow> y)"

definition is_some_and :: "('a \<Rightarrow> bool) \<Rightarrow> 'a option \<Rightarrow> bool" where
  "is_some_and P x = (case x of None \<Rightarrow> False | Some y \<Rightarrow> P y)"

definition is_none_or :: "('a \<Rightarrow> bool) \<Rightarrow> 'a option \<Rightarrow> bool" where
  "is_none_or P x = (case x of None \<Rightarrow> True | Some y \<Rightarrow> P y)"

definition or_else :: "'a option \<Rightarrow> 'a option \<Rightarrow> 'a option" where
  "or_else a b = (case a of None \<Rightarrow> b | Some x \<Rightarrow> Some x)"

text \<open>\<open>Result\<close> with its error on the left: the question mark operator.\<close>

primrec and_then :: "'e + 'a \<Rightarrow> ('a \<Rightarrow> 'e + 'b) \<Rightarrow> 'e + 'b" where
  "and_then (Inl e) f = Inl e"
| "and_then (Inr x) f = f x"

subsection \<open>Lemmas on options and lists\<close>

lemma and_then_Inr_iff: "and_then r f = Inr y \<longleftrightarrow> (\<exists>x. r = Inr x \<and> f x = Inr y)"
  by (cases r) simp_all

lemma is_some_and_iff: "is_some_and P x \<longleftrightarrow> (\<exists>y. x = Some y \<and> P y)"
  by (cases x) (simp_all add: is_some_and_def)

lemma is_none_or_iff: "is_none_or P x \<longleftrightarrow> (\<forall>y. x = Some y \<longrightarrow> P y)"
  by (cases x) (simp_all add: is_none_or_def)

lemma or_else_eq_Some:
  "or_else a b = Some x \<longleftrightarrow> a = Some x \<or> (a = None \<and> b = Some x)"
  by (cases a) (auto simp: or_else_def)

lemma map_filter_Some_iff:
  "y \<in> set (List.map_filter f xs) \<longleftrightarrow> (\<exists>x \<in> set xs. f x = Some y)"
  by (induction xs) (auto simp: List.map_filter_simps split: option.splits)

lemma find_Some_in: "List.find P xs = Some x \<Longrightarrow> x \<in> set xs \<and> P x"
  by (induction xs) (auto split: if_splits)

lemma takeWhile_filter_all:
  "(\<And>x. x \<in> set xs \<Longrightarrow> P x) \<Longrightarrow> takeWhile P xs = xs"
  by (induction xs) auto

subsection \<open>Lemmas on text\<close>

lemma concat_rchars [simp]: "concat (rchars s) = s"
  by (induction s rule: rchars.induct) simp_all

lemma rchars_ascii:
  "list_all (\<lambda>c. of_char c < (0xC0::nat)) s \<Longrightarrow> rchars s = map (\<lambda>c. [c]) s"
  by (induction s) (simp_all add: utf8_len_def)

lemma strip_prefix_Some_iff: "strip_prefix p s = Some r \<longleftrightarrow> s = p @ r"
  by (induction p s rule: strip_prefix.induct) auto

lemma strip_prefix_append [simp]: "strip_prefix p (p @ r) = Some r"
  by (simp add: strip_prefix_Some_iff)

lemma starts_with_iff: "starts_with p s \<longleftrightarrow> (\<exists>r. s = p @ r)"
  by (cases "strip_prefix p s") (auto simp: starts_with_def strip_prefix_Some_iff)

lemma strip_suffix_Some_iff: "strip_suffix p s = Some r \<longleftrightarrow> s = r @ p"
  by (auto simp: strip_suffix_def strip_prefix_Some_iff rev_swap)

lemma split_once_Some:
  "split_once p s = Some (a, b) \<Longrightarrow> s = a @ p @ b"
  by (induction p s arbitrary: a b rule: split_once.induct)
     (auto split: if_splits option.splits simp: strip_prefix_Some_iff)

lemma split_once_None_char:
  "split_once [d] s = None \<longleftrightarrow> d \<notin> set s"
  by (induction s) (auto split: option.splits simp: strip_prefix_Some_iff)

lemma split_once_char:
  "d \<notin> set a \<Longrightarrow> split_once [d] (a @ d # b) = Some (a, b)"
  by (induction a) auto

text \<open>Patterns whose first byte does not occur before them.\<close>

lemma split_once_pattern:
  "d \<notin> set a \<Longrightarrow> split_once (d # p) (a @ (d # p) @ b) = Some (a, b)"
  by (induction a) (auto simp: strip_prefix_Some_iff split: option.splits)

lemma split_once_no_pattern: "d \<notin> set s \<Longrightarrow> split_once (d # p) s = None"
  by (induction s) auto

lemma split_pat_fuel_join:
  "xs \<noteq> [] \<Longrightarrow> \<forall>x \<in> set xs. d \<notin> set x \<Longrightarrow> length xs \<le> Suc n \<Longrightarrow>
   split_pat_fuel n (d # p) (str_join (d # p) xs) = xs"
proof (induction "d # p" xs arbitrary: n rule: str_join.induct)
  case (2 x)
  then show ?case by (cases n) (simp_all add: split_once_no_pattern)
next
  case (3 x y xs)
  then obtain n' where n: "n = Suc n'" by (cases n) auto
  have "split_once (d # p) (x @ (d # p) @ str_join (d # p) (y # xs)) = Some (x, str_join (d # p) (y # xs))"
    using "3.prems" by (intro split_once_pattern) simp
  with 3 n show ?case by simp
qed simp

lemma length_str_join: "xs \<noteq> [] \<Longrightarrow> length xs \<le> Suc (length (str_join (d # p) xs))"
  by (induction "d # p" xs rule: str_join.induct) auto

lemma str_split_pat_join:
  "xs \<noteq> [] \<Longrightarrow> \<forall>x \<in> set xs. d \<notin> set x \<Longrightarrow> str_split_pat (d # p) (str_join (d # p) xs) = xs"
  unfolding str_split_pat_def by (rule split_pat_fuel_join) (simp_all add: length_str_join)

lemma str_split_not_Nil [simp]: "str_split d s \<noteq> []"
  by (induction s) (auto split: list.splits)

lemma str_split_no_delim: "d \<notin> set s \<Longrightarrow> str_split d s = [s]"
  by (induction s) auto

lemma str_split_parts: "x \<in> set (str_split d s) \<Longrightarrow> d \<notin> set x"
proof (induction s arbitrary: x)
  case (Cons c s)
  then show ?case by (cases "str_split d s") (auto split: if_splits)
qed simp

lemma str_split_append:
  "d \<notin> set a \<Longrightarrow> str_split d (a @ d # b) = a # str_split d b"
  by (induction a) auto

text \<open>Splitting at a byte and joining with it again gives the text back.\<close>

lemma str_join_split: "str_join [d] (str_split d s) = s"
proof (induction s)
  case Nil
  then show ?case by simp
next
  case (Cons c cs)
  obtain w ws where ws: "str_split d cs = w # ws"
    by (cases "str_split d cs") auto
  with Cons show ?case
    by (cases ws) auto
qed

lemma str_split_at: "str_split d (a @ d # b) = str_split d a @ str_split d b"
proof (induction a)
  case (Cons c a)
  then show ?case by (cases "str_split d a") auto
qed simp

lemma str_lines_last:
  assumes "CHR 0x0A \<notin> set l" and "l \<noteq> []"
  shows "\<exists>ls. str_lines (a @ CHR 0x0A # l) = ls @ [l]"
  using assms by (simp add: str_lines_def Let_def str_split_at str_split_no_delim)

lemma eq_ignore_ascii_case_refl [simp]: "eq_ignore_ascii_case a a"
  by (simp add: eq_ignore_ascii_case_def)

subsection \<open>Ordered maps: the interface and its provider\<close>

locale ordered_map =
  fixes empty :: "'m"
    and get :: "'m \<Rightarrow> 'k::linorder \<Rightarrow> 'v option"
    and insert :: "'k \<Rightarrow> 'v \<Rightarrow> 'm \<Rightarrow> 'm"
    and remove :: "'k \<Rightarrow> 'm \<Rightarrow> 'm"
    and entries :: "'m \<Rightarrow> ('k \<times> 'v) list"
    and wf :: "'m \<Rightarrow> bool"
  assumes wf_empty: "wf empty"
    and wf_insert: "wf m \<Longrightarrow> wf (insert k v m)"
    and wf_remove: "wf m \<Longrightarrow> wf (remove k m)"
    and entries_sorted: "wf m \<Longrightarrow> sorted_wrt (<) (map fst (entries m))"
    and entries_get: "wf m \<Longrightarrow> (k, v) \<in> set (entries m) \<longleftrightarrow> get m k = Some v"
    and get_empty: "get empty k = None"
    and get_insert: "get (insert k v m) j = (if j = k then Some v else get m j)"
    and get_remove: "wf m \<Longrightarrow> get (remove k m) j = (if j = k then None else get m j)"
begin

lemma keys_distinct: "wf m \<Longrightarrow> distinct (map fst (entries m))"
  using entries_sorted strict_sorted_iff by blast

lemma map_of_entries: "wf m \<Longrightarrow> map_of (entries m) k = get m k"
  using keys_distinct entries_get
  by (metis map_of_SomeD map_of_is_SomeI not_Some_eq)

text \<open>Two maps that answer every lookup alike list the same entries in the same order.\<close>

lemma entries_extensional:
  assumes "wf m" "wf n" and "\<And>k. get m k = get n k"
  shows "entries m = entries n"
proof -
  have same: "set (entries m) = set (entries n)"
    using assms entries_get by auto
  have fsts: "map fst (entries m) = map fst (entries n)"
    using same entries_sorted [OF assms(1)] entries_sorted [OF assms(2)]
    by (metis list.set_map sorted_distinct_set_unique strict_sorted_iff)
  have "map_of (entries m) = map_of (entries n)"
    using assms by (simp add: fun_eq_iff map_of_entries)
  with fsts show ?thesis
    using keys_distinct assms(1,2) same
    by (metis inj_on_map_eq_map distinct_map list.set_map sup.idem)
qed

end

lemma bt_wf_Nil [simp]: "bt_wf []"
  by (simp add: bt_wf_def)

lemma bt_wf_Cons: "bt_wf ((k, v) # m) \<longleftrightarrow> (\<forall>e \<in> set m. k < fst e) \<and> bt_wf m"
  by (auto simp: bt_wf_def)

lemma bt_insert_keys: "set (map fst (bt_insert k v m)) = insert k (set (map fst m))"
  by (induction k v m rule: bt_insert.induct) (simp_all add: insert_commute)

lemma bt_wf_insert: "bt_wf m \<Longrightarrow> bt_wf (bt_insert k v m)"
proof (induction m)
  case (Cons e m)
  obtain a b where e: "e = (a, b)" by (cases e)
  have "\<forall>x \<in> set (bt_insert k v m). fst x = k \<or> x \<in> set m"
    by (induction m) (auto split: if_splits)
  with Cons e show ?case
    by (auto simp: bt_wf_Cons)
qed (simp add: bt_wf_def)

lemma bt_get_insert [bt_simps]:
  "bt_get (bt_insert k v m) j = (if j = k then Some v else bt_get m j)"
  by (induction m) (auto simp: bt_get_def)

lemma bt_get_remove [bt_simps]:
  "bt_get (bt_remove k m) j = (if j = k then None else bt_get m j)"
  by (induction m) (auto simp: bt_get_def bt_remove_def)

lemma bt_get_Nil [simp]: "bt_get [] k = None"
  by (simp add: bt_get_def)

lemma bt_get_Cons [simp]: "bt_get ((a, b) # m) k = (if k = a then Some b else bt_get m k)"
  by (simp add: bt_get_def)

lemma bt_wf_filter: "bt_wf m \<Longrightarrow> bt_wf (filter P m)"
  by (induction m) (auto simp: bt_wf_Cons split: prod.splits)

lemma bt_wf_remove: "bt_wf m \<Longrightarrow> bt_wf (bt_remove k m)"
  by (simp add: bt_remove_def bt_wf_filter)

lemma bt_wf_distinct: "bt_wf m \<Longrightarrow> distinct (map fst m)"
  by (simp add: bt_wf_def strict_sorted_iff)

lemma bt_mem_iff: "bt_wf m \<Longrightarrow> (k, v) \<in> set m \<longleftrightarrow> bt_get m k = Some v"
  by (simp add: bt_get_def bt_wf_distinct)

interpretation bt: ordered_map bt_empty bt_get bt_insert bt_remove "\<lambda>m. m" bt_wf
  by unfold_locales
     (auto simp: bt_empty_def bt_wf_insert bt_wf_remove bt_simps bt_mem_iff,
      auto simp: bt_wf_def bt_get_def)

lemma bt_collect_wf: "bt_wf (bt_collect kvs)"
proof -
  have "bt_wf m \<Longrightarrow> bt_wf (fold (\<lambda>(k, v). bt_insert k v) kvs m)" for m
    by (induction kvs arbitrary: m) (auto simp: bt_wf_insert)
  then show ?thesis by (simp add: bt_collect_def)
qed

lemma bt_collect_get: "bt_get (bt_collect kvs) k = map_of (rev kvs) k"
proof -
  have "bt_get (fold (\<lambda>(k, v). bt_insert k v) kvs m) k = map_of (rev kvs @ m) k" for m
    by (induction kvs arbitrary: m) (auto simp: bt_simps bt_get_def [symmetric] map_add_def
        split: option.splits)
  then show ?thesis by (simp add: bt_collect_def)
qed

text \<open>Entries that agree on their keys are what a collected map holds.\<close>

lemma bt_collect_get_mem:
  assumes "\<And>k v v'. (k, v) \<in> set kvs \<Longrightarrow> (k, v') \<in> set kvs \<Longrightarrow> v = v'"
  shows "bt_get (bt_collect kvs) k = Some v \<longleftrightarrow> (k, v) \<in> set kvs"
proof
  assume "bt_get (bt_collect kvs) k = Some v"
  then show "(k, v) \<in> set kvs" using map_of_SomeD by (fastforce simp: bt_collect_get)
next
  assume kv: "(k, v) \<in> set kvs"
  then obtain v' where "map_of (rev kvs) k = Some v'" using weak_map_of_SomeI [of k v "rev kvs"] by auto
  moreover from this have "(k, v') \<in> set kvs" using map_of_SomeD by fastforce
  ultimately show "bt_get (bt_collect kvs) k = Some v" using assms kv by (simp add: bt_collect_get)
qed

lemma filter_bt_insert_other:
  "(\<And>v. \<not> P (k, v)) \<Longrightarrow> filter P (bt_insert k v m) = filter P m"
  by (induction k v m rule: bt_insert.induct) auto

lemma filter_bt_remove_other:
  "(\<And>v. \<not> P (k, v)) \<Longrightarrow> filter P (bt_remove k m) = filter P m"
  by (induction m) (auto simp: bt_remove_def)

lemma bt_set_set [simp]: "set (bt_set xs) = set xs"
  by (simp add: bt_set_def)

lemma bt_set_sorted: "sorted_wrt (<) (bt_set xs)"
  by (simp add: bt_set_def strict_sorted_iff)

end
