(* ===== verification/Errors.thy ===== *)
theory Errors
  imports Prelude
begin

text \<open>
  The refusals of the API, \<open>src/error.rs\<close>: the enum \<open>ApiError\<close>, the violation lines of a
  problem document, the catalogue of problem types and the document every door answers with.

  jc-core's own catalogue (\<open>jc_core::error::problem_type\<close>) is the parameter \<open>catalogue\<close>, a
  function from a slug to the entry it lists. An HTTP status is its number. Log lines have no
  effect on the answer and are not modelled. Serialising a \<open>ProblemDetails\<close> never fails, so the
  fallback documents behind \<open>unwrap_or_else\<close> do not occur.
\<close>

subsection \<open>Definitions\<close>

datatype api_error =
    NotFound string
  | BadRequest string
  | Invalid string "string list"
  | Unprocessable string "string list"
  | SecretInArgument "string list"
  | Unauthorized
  | Forbidden
  | Denied string
  | SelfApproval string
  | SecondFactorRequired
  | Conflict string
  | PreconditionFailed string string
  | VerdictRequired json
  | UnsupportedMediaType string
  | TooLarge string
  | TooManyRequests string
  | Unavailable string
  | NotImplemented string
  | Internal string

record problem_type =
  pt_slug :: string
  pt_status :: nat
  pt_title :: string
  pt_hint :: string

definition pt :: "string \<Rightarrow> nat \<Rightarrow> string \<Rightarrow> string \<Rightarrow> problem_type" where
  "pt slug st title hint = \<lparr>pt_slug = slug, pt_status = st, pt_title = title, pt_hint = hint\<rparr>"

definition PORTAL_PROBLEM_TYPES :: "problem_type list" where
  "PORTAL_PROBLEM_TYPES =
    [pt ''invalid-request'' 400 ''Invalid Request''
       ''Correct the request as the detail says; errors lists every violation at once.'',
     pt ''second-factor-required'' 403 ''Second Factor Required''
       ''Sign in again with your one-time code (GET /api/v1/auth/login?step_up=true), then repeat the decision.'',
     pt ''self-approval'' 403 ''Self Approval Forbidden''
       ''Ask another person who may approve changes in this project to approve it.'',
     pt ''service-off'' 403 ''Service Off''
       ''Ask an administrator to switch the service on at the layer the answer names.'',
     pt ''recipient-refused'' 403 ''Recipient Refused''
       ''Send only to people of the organization with a verified address.'',
     pt ''draft-conflict'' 409 ''Draft Conflict''
       ''Someone saved the draft since you opened it: read current, then make your change on it.'',
     pt ''verdict-required'' 409 ''Verdict Required''
       ''Run the check the answer names and send the change again with its verdict.'',
     pt ''file-too-large'' 413 ''File Too Large''
       ''Store a smaller object; the answer names the limit in bytes.'',
     pt ''unprocessable'' 422 ''Unprocessable Content''
       ''Correct each member errors names; the dry run lists the same findings before you send.'',
     pt ''secret-in-argument'' 422 ''Secret In Argument''
       (''Enter the credential in the Portal'' @ apostrophe @
        ''s secret form, never in a chat or a manifest, and name it by secretRef.''),
     pt ''quota'' 429 ''Quota Used''
       ''Wait until resetAt, delete what the App no longer needs, or ask an administrator to raise the quota.'',
     pt ''not-implemented'' 501 ''Not Implemented''
       ''This Portal does not do this yet; the detail names what it does instead.'',
     pt ''no-json'' 502 ''No JSON''
       ''The model answered with something other than JSON of the schema; ask again.'',
     pt ''no-model-key'' 503 ''No Model Key''
       (''Ask an administrator to set or top up the organization'' @ apostrophe @ ''s model key.'')]"

text \<open>\<open>jc_core::error::problem_type(slug).or_else(...)\<close>, spelled in two places of the file.\<close>

definition known_problem :: "(string \<Rightarrow> problem_type option) \<Rightarrow> string \<Rightarrow> problem_type option" where
  "known_problem catalogue slug =
     or_else (catalogue slug) (List.find (\<lambda>k. pt_slug k = slug) PORTAL_PROBLEM_TYPES)"

definition hint_of :: "(string \<Rightarrow> problem_type option) \<Rightarrow> string \<Rightarrow> string option" where
  "hint_of catalogue slug = map_option pt_hint (known_problem catalogue slug)"

definition type_uri :: "string \<Rightarrow> string" where
  "type_uri slug = ''https://joinedcontext.com/errors/'' @ slug"

record field_error =
  fe_path :: string
  fe_message :: string

definition is_path :: "string \<Rightarrow> bool" where
  "is_path text \<longleftrightarrow>
     text \<noteq> [] \<and> list_all (\<lambda>c. is_ascii_alphanumeric c \<or> c \<in> set ''_.[]-/$@*'') text"

definition from_line :: "string \<Rightarrow> string option \<Rightarrow> field_error" where
  "from_line line detail =
     (case split_once '': '' line of
        Some (path, message) \<Rightarrow>
          if is_path path \<and> str_trim message \<noteq> [] then \<lparr>fe_path = path, fe_message = message\<rparr>
          else if is_path line
          then \<lparr>fe_path = line, fe_message = unwrap_or ''this member is not accepted'' detail\<rparr>
          else \<lparr>fe_path = [], fe_message = line\<rparr>
      | None \<Rightarrow>
          if is_path line
          then \<lparr>fe_path = line, fe_message = unwrap_or ''this member is not accepted'' detail\<rparr>
          else \<lparr>fe_path = [], fe_message = line\<rparr>)"

definition json_of_string_option :: "string option \<Rightarrow> json" where
  "json_of_string_option x = (case x of None \<Rightarrow> JNull | Some s \<Rightarrow> JString s)"

text \<open>\<open>Map::entry(member).or_insert(value)\<close>.\<close>

definition or_insert :: "string \<Rightarrow> json \<Rightarrow> (string, json) btree \<Rightarrow> (string, json) btree" where
  "or_insert k v m = (case bt_get m k of Some _ \<Rightarrow> m | None \<Rightarrow> bt_insert k v m)"

definition with_problem_members ::
    "(string \<Rightarrow> problem_type option) \<Rightarrow> json \<Rightarrow> nat \<Rightarrow> string \<Rightarrow> json" where
  "with_problem_members catalogue body status slug =
     (let document = (case body of JObject m \<Rightarrow> m | other \<Rightarrow> bt_insert ''error'' other []);
          known = known_problem catalogue slug;
          defaults =
            [(''type'', JString (type_uri slug)),
             (''title'', JString (case known of None \<Rightarrow> ''Error'' | Some k \<Rightarrow> pt_title k)),
             (''status'', JNumber (show_nat status)),
             (''hint'', json_of_string_option (map_option pt_hint known))]
      in JObject (fold (\<lambda>(member, value) doc.
           if value \<noteq> JNull then or_insert member value doc else doc) defaults document))"

record problem_details =
  pd_type :: string
  pd_title :: string
  pd_status :: nat
  pd_detail :: "string option"
  pd_instance :: "string option"
  pd_hint :: "string option"
  pd_errors :: "field_error list option"

text \<open>The derived \<open>Serialize\<close>: members whose value is \<open>None\<close> are left out.\<close>

definition json_of_problem :: "problem_details \<Rightarrow> json" where
  "json_of_problem p =
     (let text = (\<lambda>k x. case x of None \<Rightarrow> [] | Some s \<Rightarrow> [(k, JString s)]);
          errs = (case pd_errors p of None \<Rightarrow> []
                  | Some es \<Rightarrow> [(''errors'', JArray (map (\<lambda>e.
                       JObject [(''message'', JString (fe_message e)),
                                (''path'', JString (fe_path e))]) es))])
      in JObject (bt_collect
           ([(''type'', JString (pd_type p)), (''title'', JString (pd_title p)),
             (''status'', JNumber (show_nat (pd_status p)))] @
            text ''detail'' (pd_detail p) @ text ''instance'' (pd_instance p) @
            text ''hint'' (pd_hint p) @ errs)))"

text \<open>Status, slug, title, detail and violation lines of each variant.\<close>

definition problem_parts ::
    "api_error \<Rightarrow> nat \<times> string \<times> string \<times> string option \<times> string list option" where
  "problem_parts e =
     (case e of
        NotFound msg \<Rightarrow> (404, ''resource-not-found'', ''Resource Not Found'', Some msg, None)
      | BadRequest msg \<Rightarrow> (400, ''invalid-request'', ''Invalid Request'', Some msg, None)
      | Invalid detail violations \<Rightarrow>
          (400, ''invalid-request'', ''Invalid Request'', Some detail, Some violations)
      | Unprocessable detail violations \<Rightarrow>
          (422, ''unprocessable'', ''Unprocessable Content'', Some detail, Some violations)
      | SecretInArgument paths \<Rightarrow>
          (422, ''secret-in-argument'', ''Secret In Argument'',
           Some (''a value of this input reads like a credential, so nothing was kept or sent on; enter it in the Portal''
             @ apostrophe @
             ''s secret form (needsSecret of jc_change_plan names the link) and name it by secretRef''),
           Some (map (\<lambda>path. path @ '': reads like a credential'') paths))
      | Unauthorized \<Rightarrow> (401, ''unauthorized'', ''Unauthorized'', None, None)
      | Forbidden \<Rightarrow> (403, ''forbidden'', ''Forbidden'', None, None)
      | Denied msg \<Rightarrow> (403, ''forbidden'', ''Forbidden'', Some msg, None)
      | SecondFactorRequired \<Rightarrow>
          (403, ''second-factor-required'', ''Second Factor Required'',
           Some ''This decision needs a second factor in this session: sign in again with your one-time code, then repeat it.'',
           None)
      | SelfApproval msg \<Rightarrow>
          (403, ''self-approval'', ''Self Approval Forbidden'', Some msg, None)
      | Conflict msg \<Rightarrow> (409, ''conflict'', ''Conflict'', Some msg, None)
      | PreconditionFailed detail etag \<Rightarrow>
          (412, ''precondition-failed'', ''Precondition Failed'', Some detail, None)
      | VerdictRequired body \<Rightarrow> (409, ''verdict-required'', ''Verdict Required'', None, None)
      | UnsupportedMediaType msg \<Rightarrow>
          (415, ''unsupported-media-type'', ''Unsupported Media Type'', Some msg, None)
      | TooLarge msg \<Rightarrow> (413, ''payload-too-large'', ''Payload Too Large'', Some msg, None)
      | TooManyRequests msg \<Rightarrow>
          (429, ''too-many-requests'', ''Too Many Requests'', Some msg, None)
      | Unavailable msg \<Rightarrow>
          (503, ''service-unavailable'', ''Service Unavailable'', Some msg, None)
      | NotImplemented msg \<Rightarrow> (501, ''not-implemented'', ''Not Implemented'', Some msg, None)
      | Internal err \<Rightarrow>
          (500, ''internal-error'', ''Internal Server Error'', Some ''Unexpected internal error'',
           None))"

definition into_document :: "(string \<Rightarrow> problem_type option) \<Rightarrow> api_error \<Rightarrow> nat \<times> json" where
  "into_document catalogue e =
     (case e of
        VerdictRequired body \<Rightarrow>
          (409, with_problem_members catalogue body 409 ''verdict-required'')
      | _ \<Rightarrow>
          (case problem_parts e of (status, slug, title, detail, errors) \<Rightarrow>
             (status, json_of_problem
               \<lparr>pd_type = type_uri slug, pd_title = title, pd_status = status,
                pd_detail = detail, pd_instance = None, pd_hint = hint_of catalogue slug,
                pd_errors = map_option (map (\<lambda>line. from_line line detail)) errors\<rparr>)))"

subsection \<open>Lemmas\<close>

lemma or_insert_get [bt_simps]:
  "bt_get (or_insert k v m) j =
     (if j = k then Some (unwrap_or v (bt_get m k)) else bt_get m j)"
  by (auto simp: or_insert_def unwrap_or_def bt_simps split: option.splits)

lemma split_once_colon_space:
  "CHR '':'' \<notin> set a \<Longrightarrow> split_once '': '' (a @ '': '' @ b) = Some (a, b)"
  by (induction a) auto

lemma is_path_no_colon: "is_path p \<Longrightarrow> CHR '':'' \<notin> set p"
  by (auto simp: is_path_def list_all_iff is_ascii_alphanumeric_def is_ascii_digit_def
        is_ascii_alpha_def)

text \<open>Members the document has stay; the others come from the non-null defaults.\<close>

lemma fold_or_insert_get:
  "bt_get (fold (\<lambda>(member, value) doc.
      if value \<noteq> JNull then or_insert member value doc else doc) defaults document) j =
   or_else (bt_get document j) (map_of (filter (\<lambda>e. snd e \<noteq> JNull) defaults) j)"
  by (induction defaults arbitrary: document)
     (auto simp: bt_simps or_else_def unwrap_or_def split: option.splits)

lemma jget_with_problem_members:
  "jget j (with_problem_members catalogue body status slug) =
     or_else (bt_get (case body of JObject m \<Rightarrow> m | other \<Rightarrow> bt_insert ''error'' other []) j)
       (map_of (filter (\<lambda>e. snd e \<noteq> JNull)
         [(''type'', JString (type_uri slug)),
          (''title'', JString (case known_problem catalogue slug of
             None \<Rightarrow> ''Error'' | Some k \<Rightarrow> pt_title k)),
          (''status'', JNumber (show_nat status)),
          (''hint'', json_of_string_option
             (map_option pt_hint (known_problem catalogue slug)))]) j)"
  by (simp only: with_problem_members_def Let_def jget.simps fold_or_insert_get)

lemma jget_json_of_problem:
  "jget ''status'' (json_of_problem p) = Some (JNumber (show_nat (pd_status p)))"
  "jget ''type'' (json_of_problem p) = Some (JString (pd_type p))"
  "jget ''title'' (json_of_problem p) = Some (JString (pd_title p))"
  by (auto simp: json_of_problem_def Let_def bt_collect_get split: option.splits)

subsection \<open>Properties\<close>

text \<open>A violation line written as a path, a colon and a message is read back as
  exactly that path and that message.\<close>

theorem from_line_path_message:
  assumes "is_path path" and "str_trim message \<noteq> []"
  shows "from_line (path @ '': '' @ message) detail = \<lparr>fe_path = path, fe_message = message\<rparr>"
  using assms by (simp add: from_line_def split_once_colon_space is_path_no_colon del: append_Cons)

theorem from_line_path_message_witness:
  "from_line (''spec.history[1]'' @ '': '' @ ''is not a number'') None =
     \<lparr>fe_path = ''spec.history[1]'', fe_message = ''is not a number''\<rparr>"
  by (rule from_line_path_message; code_simp)

text \<open>Making a refusal a problem document never changes or drops a member the
  document already has, and the result always has a type, a title and a status.\<close>

theorem with_problem_members_extends:
  assumes "bt_get m k = Some v"
  shows "jget k (with_problem_members catalogue (JObject m) status slug) = Some v \<and>
    (\<forall>j \<in> {''type'', ''title'', ''status''}.
       jget j (with_problem_members catalogue (JObject m) status slug) \<noteq> None)"
  using assms by (auto simp: jget_with_problem_members or_else_def split: option.splits)

theorem with_problem_members_extends_witness:
  "jget ''title'' (with_problem_members (\<lambda>_. None)
     (JObject [(''title'', JString ''Run the check'')]) 409 ''verdict-required'') =
   Some (JString ''Run the check'')"
  using with_problem_members_extends [of "[(''title'', JString ''Run the check'')]" "''title''"
      "JString ''Run the check''" "\<lambda>_. None" 409 "''verdict-required''"]
  by (simp add: bt_get_def)

text \<open>The status of every answer is the number its document carries, whatever
  the refusal, except where a verdict document brought a status of its own.\<close>

theorem into_document_status:
  assumes "into_document catalogue e = (status, doc)"
    and "\<forall>body. e = VerdictRequired body \<longrightarrow> jget ''status'' body = None"
  shows "jget ''status'' doc = Some (JNumber (show_nat status))"
proof (cases "\<exists>body. e = VerdictRequired body")
  case True
  then obtain body where e: "e = VerdictRequired body" by blast
  with assms(2) have none: "jget ''status'' body = None" by simp
  have "jget ''status'' (with_problem_members catalogue body 409 ''verdict-required'') =
      Some (JNumber (show_nat 409))"
    using none
    by (cases body) (simp_all add: jget_with_problem_members or_else_def bt_simps)
  with assms(1) e show ?thesis by (auto simp: into_document_def)
next
  case False
  then show ?thesis
    using assms(1)
    by (cases e) (auto simp: into_document_def problem_parts_def jget_json_of_problem)
qed

theorem into_document_status_witness:
  "jget ''status'' (snd (into_document (\<lambda>_. None) (Denied ''no role grants it''))) =
     Some (JNumber ''403'')"
proof -
  have "show_nat 403 = ''403''" by code_simp
  then show ?thesis
    using into_document_status [of "\<lambda>_. None" "Denied ''no role grants it''" 403
        "snd (into_document (\<lambda>_. None) (Denied ''no role grants it''))"]
    by (simp add: into_document_def problem_parts_def)
qed

text \<open>An internal error's text never reaches the caller: the answer is the same
  document for every internal error.\<close>

theorem internal_error_not_echoed:
  "into_document catalogue (Internal err) = into_document catalogue (Internal err')"
  by (simp add: into_document_def problem_parts_def)

end
