(* ===== verification/Resource.thy ===== *)
theory Resource
  imports Errors
begin

text \<open>
  The kind-generic manifest of the resource API, \<open>src/resource/mod.rs\<close>.

  The manifest contract itself is jc-core's, a crate outside this repository. Of its data types the
  records below keep the members this code reads: \<open>Scope\<close>, \<open>Phase\<close> and \<open>KindInfo\<close> are
  complete (the code matches them exhaustively or builds them by a struct literal), \<open>ObjectMeta\<close>
  has its name, namespace, labels and annotations. Of its functions this file calls, the record
  \<open>jc_names\<close> is the parameter: the two name validators, the catalogue \<open>jc_core::KINDS\<close>, the
  metadata validator and the path renderer \<open>KindInfo::repo_path\<close>.

  \<open>etag\<close> (a SHA-256 over the serialised manifest) is not modelled.
\<close>

subsection \<open>Definitions\<close>

datatype phase = Draft | Pending | Deploying | Live | Error | Drifted

datatype kind_scope = ScopeOrganization | ScopeProject | ScopeOrganizationOrProject

record kind_info =
  ki_kind :: string
  ki_plural :: string
  ki_scope :: kind_scope
  ki_path_template :: string
  ki_project_path_template :: "string option"
  ki_spaceless_path_template :: "string option"

record condition =
  cond_type :: string
  cond_status :: string
  cond_reason :: "string option"
  cond_message :: "string option"
  cond_last_transition :: "int option"

record object_meta =
  meta_name :: string
  meta_namespace :: "string option"
  meta_labels :: "(string, string) btree"
  meta_annotations :: "(string, string) btree"

record job_run =
  jr_name :: string
  jr_last_run :: string
  jr_outcome :: string
  jr_message :: "string option"
  jr_duration_ms :: nat
  jr_failures_in_a_row :: nat

record status =
  st_phase :: phase
  st_observed_revision :: "string option"
  st_source_url :: "string option"
  st_conditions :: "condition list"
  st_build :: "json option"
  st_shard :: "nat option"
  st_domain_verification :: "json option"
  st_jobs :: "job_run list"
  st_notifications :: "json option"

record envelope =
  api_version :: string
  env_kind :: string
  metadata :: object_meta
  env_spec :: json
  env_status :: "status option"

datatype resource_key =
  ResourceKey (key_namespace: string) (key_kind: string) (key_name: string)

text \<open>The derived \<open>Ord\<close> of \<open>ResourceKey\<close> compares its fields in the order they are written.\<close>

instantiation resource_key :: linorder
begin

definition less_eq_resource_key :: "resource_key \<Rightarrow> resource_key \<Rightarrow> bool" where
  "less_eq_resource_key a b \<longleftrightarrow>
     (key_namespace a, key_kind a, key_name a) \<le> (key_namespace b, key_kind b, key_name b)"

definition less_resource_key :: "resource_key \<Rightarrow> resource_key \<Rightarrow> bool" where
  "less_resource_key a b \<longleftrightarrow>
     (key_namespace a, key_kind a, key_name a) < (key_namespace b, key_kind b, key_name b)"

instance
  by standard
     (auto simp: less_eq_resource_key_def less_resource_key_def intro: resource_key.expand)

end

record jc_names =
  valid_dns1123_label :: "string \<Rightarrow> bool"
  valid_space_name :: "string \<Rightarrow> bool"
  jc_kinds :: "kind_info list"
  meta_validate :: "object_meta \<Rightarrow> string + unit"
  repo_path :: "kind_info \<Rightarrow> string \<Rightarrow> string \<Rightarrow> string \<Rightarrow> string"

definition strip_status :: "envelope \<Rightarrow> envelope" where
  "strip_status env = env\<lparr>env_status := None\<rparr>"

definition envelope_key :: "envelope \<Rightarrow> resource_key" where
  "envelope_key env =
     ResourceKey (unwrap_or [] (meta_namespace (metadata env))) (env_kind env)
       (meta_name (metadata env))"

definition validate_meta :: "jc_names \<Rightarrow> object_meta \<Rightarrow> string + unit" where
  "validate_meta jc meta =
     (case meta_validate jc meta of
        Inl e \<Rightarrow> Inl e
      | Inr _ \<Rightarrow>
          (case meta_namespace meta of
             Some ns \<Rightarrow> if ns \<noteq> [] then Inr () else Inl ''namespace must be set and non-empty''
           | None \<Rightarrow> Inl ''namespace must be set and non-empty''))"

definition is_dns1123 :: "jc_names \<Rightarrow> string \<Rightarrow> bool" where
  "is_dns1123 jc name = valid_dns1123_label jc name"

definition is_manifest_name :: "jc_names \<Rightarrow> string \<Rightarrow> string \<Rightarrow> bool" where
  "is_manifest_name jc kind name =
     (if kind = ''ContextSpace'' then valid_space_name jc name else is_dns1123 jc name)"

definition phase_str :: "phase \<Rightarrow> string" where
  "phase_str p =
     (case p of
        Draft \<Rightarrow> ''Draft''
      | Pending \<Rightarrow> ''Pending''
      | Deploying \<Rightarrow> ''Deploying''
      | Live \<Rightarrow> ''Live''
      | Error \<Rightarrow> ''Error''
      | Drifted \<Rightarrow> ''Drifted'')"

definition default_phase :: phase where
  "default_phase = Pending"

definition PORTAL_ONLY_KINDS :: "kind_info list" where
  "PORTAL_ONLY_KINDS =
     [\<lparr>ki_kind = ''Entity'', ki_plural = ''entities'', ki_scope = ScopeProject,
       ki_path_template = ''projects/{project}/spaces/{space}/entities/seed/{name}.yaml'',
       ki_project_path_template = None, ki_spaceless_path_template = None\<rparr>]"

definition kinds :: "jc_names \<Rightarrow> kind_info list" where
  "kinds jc = jc_kinds jc @ PORTAL_ONLY_KINDS"

definition by_plural :: "jc_names \<Rightarrow> string \<Rightarrow> kind_info option" where
  "by_plural jc plural = List.find (\<lambda>info. ki_plural info = plural) (kinds jc)"

definition by_kind :: "jc_names \<Rightarrow> string \<Rightarrow> kind_info option" where
  "by_kind jc kind = List.find (\<lambda>info. ki_kind info = kind) (kinds jc)"

definition ORG_NAMESPACE :: string where
  "ORG_NAMESPACE = ''org''"

definition belongs_to_the_organization :: "jc_names \<Rightarrow> string \<Rightarrow> string option \<Rightarrow> bool" where
  "belongs_to_the_organization jc kind ns =
     is_some_and (\<lambda>info.
       (case ki_scope info of
          ScopeOrganization \<Rightarrow> True
        | ScopeProject \<Rightarrow> False
        | ScopeOrganizationOrProject \<Rightarrow> is_none_or (\<lambda>n. n = [] \<or> n = ORG_NAMESPACE) ns))
       (by_kind jc kind)"

definition homes :: "kind_info \<Rightarrow> string \<Rightarrow> string list" where
  "homes info project =
     (case ki_scope info of
        ScopeOrganization \<Rightarrow> [ORG_NAMESPACE]
      | ScopeProject \<Rightarrow> [project]
      | ScopeOrganizationOrProject \<Rightarrow>
          if project = ORG_NAMESPACE then [ORG_NAMESPACE] else [project, ORG_NAMESPACE])"

text \<open>\<open>Vec::remove(0)\<close>, which panics on an empty vector: \<open>home_defined\<close> below shows it never is.\<close>

definition home :: "kind_info \<Rightarrow> string \<Rightarrow> string option" where
  "home info project = (case homes info project of [] \<Rightarrow> None | h # _ \<Rightarrow> Some h)"

definition str_contains :: "string \<Rightarrow> string \<Rightarrow> bool" where
  "str_contains p s \<longleftrightarrow> split_once p s \<noteq> None"

definition repository_path ::
    "jc_names \<Rightarrow> kind_info \<Rightarrow> string \<Rightarrow> string option \<Rightarrow> string \<Rightarrow> string + string" where
  "repository_path jc info project space name =
     (if str_contains ''{space}'' (ki_path_template info) \<and> is_none_or (\<lambda>s. s = []) space
      then Inl (''space is required for kind '' @ apostrophe @ ki_kind info @ apostrophe @ '' ('' @
                ki_path_template info @ '')'')
      else Inr (repo_path jc info project (unwrap_or [] space) name))"

definition pipeline_targets :: "json \<Rightarrow> string list" where
  "pipeline_targets spec =
     (case get_str ''targetEndpoint'' spec of
        Some target \<Rightarrow> [target]
      | None \<Rightarrow> List.map_filter (get_str ''targetEndpoint'')
                  (unwrap_or [] (get_array ''outputs'' spec)))"

definition reference_name :: "json \<Rightarrow> string option" where
  "reference_name reference = or_else (as_str reference) (get_str ''name'' reference)"

definition model_reference :: "json \<Rightarrow> string \<Rightarrow> (string \<times> string) option" where
  "model_reference reference project =
     (let ns = unwrap_or project (get_str ''namespace'' reference)
      in map_option (\<lambda>name. (ns, name)) (reference_name reference))"

fun find_map :: "('a \<Rightarrow> 'b option) \<Rightarrow> 'a list \<Rightarrow> 'b option" where
  "find_map f [] = None"
| "find_map f (x # xs) = (case f x of Some y \<Rightarrow> Some y | None \<Rightarrow> find_map f xs)"

definition title_text :: "json \<Rightarrow> string option" where
  "title_text title =
     (let text = (case title of
                    JObject texts \<Rightarrow>
                      or_else (Option.bind (bt_get texts ''en'') as_str)
                        (find_map as_str (map snd texts))
                  | other \<Rightarrow> as_str other)
      in (case text of
            None \<Rightarrow> None
          | Some t \<Rightarrow> if str_trim t \<noteq> [] then Some t else None))"

text \<open>A concrete catalogue and a manifest, for the witnesses.\<close>

definition demo_label :: "string \<Rightarrow> bool" where
  "demo_label s \<longleftrightarrow>
     s \<noteq> [] \<and> list_all (\<lambda>c. (is_ascii_alphanumeric c \<and> ascii_lower c = c) \<or> c = CHR ''-'') s"

definition demo_kind :: "string \<Rightarrow> string \<Rightarrow> kind_scope \<Rightarrow> kind_info" where
  "demo_kind kind plural sc =
     \<lparr>ki_kind = kind, ki_plural = plural, ki_scope = sc, ki_path_template = ''{name}.yaml'',
      ki_project_path_template = None, ki_spaceless_path_template = None\<rparr>"

definition demo_names :: jc_names where
  "demo_names =
     \<lparr>valid_dns1123_label = demo_label, valid_space_name = demo_label,
      jc_kinds = [demo_kind ''Organization'' ''organizations'' ScopeOrganization,
                  demo_kind ''RoleBinding'' ''rolebindings'' ScopeOrganization,
                  demo_kind ''Role'' ''roles'' ScopeOrganizationOrProject,
                  demo_kind ''Pipeline'' ''pipelines'' ScopeProject],
      meta_validate = (\<lambda>_. Inr ()),
      repo_path = (\<lambda>info project space name. project @ ''/'' @ space @ ''/'' @ name)\<rparr>"

definition demo_env :: "string \<Rightarrow> string \<Rightarrow> string \<Rightarrow> json \<Rightarrow> envelope" where
  "demo_env ns kind name spec =
     \<lparr>api_version = ''v1'', env_kind = kind,
      metadata = \<lparr>meta_name = name, meta_namespace = Some ns, meta_labels = [],
        meta_annotations = []\<rparr>,
      env_spec = spec, env_status = None\<rparr>"

subsection \<open>Lemmas\<close>

lemma resource_key_less_iff:
  "ResourceKey ns k n < ResourceKey ns' k' n' \<longleftrightarrow>
     ns < ns' \<or> (ns = ns' \<and> (k < k' \<or> (k = k' \<and> n < n')))"
  by (auto simp: less_resource_key_def)

lemma resource_key_le_iff:
  "ResourceKey ns k n \<le> ResourceKey ns' k' n' \<longleftrightarrow>
     ns < ns' \<or> (ns = ns' \<and> (k < k' \<or> (k = k' \<and> n \<le> n')))"
  by (auto simp: less_eq_resource_key_def)

lemma find_map_Some: "find_map f xs = Some y \<Longrightarrow> \<exists>x \<in> set xs. f x = Some y"
  by (induction xs) (auto split: option.splits)

lemma by_kind_Some: "by_kind jc kind = Some info \<Longrightarrow> ki_kind info = kind \<and> info \<in> set (kinds jc)"
  by (auto simp: by_kind_def dest: find_Some_in)

lemma home_defined: "\<exists>h. home info project = Some h \<and> h \<in> set (homes info project)"
  by (cases "ki_scope info") (auto simp: home_def homes_def)

lemma phase_str_inj: "phase_str p = phase_str q \<Longrightarrow> p = q"
  by (cases p; cases q) (simp_all add: phase_str_def)

subsection \<open>Properties\<close>

text \<open>A kind's catalogue row decides where its manifests live: a manifest whose
  namespace is the home of its kind for a call inside a project belongs to the organization
  exactly when that home is the organization's namespace.\<close>

theorem home_belongs_to_the_organization:
  assumes "by_kind jc kind = Some info" and "home info project = Some h" and "project \<noteq> []"
    and "project \<noteq> ORG_NAMESPACE"
  shows "belongs_to_the_organization jc kind (Some h) \<longleftrightarrow> h = ORG_NAMESPACE"
  using assms
  by (cases "ki_scope info")
     (auto simp: belongs_to_the_organization_def home_def homes_def is_some_and_def is_none_or_def)

theorem home_belongs_to_the_organization_witness:
  "belongs_to_the_organization demo_names ''Role'' (Some ''transport'') \<longleftrightarrow>
     ''transport'' = ORG_NAMESPACE"
  by (rule home_belongs_to_the_organization
        [where info = "demo_kind ''Role'' ''roles'' ScopeOrganizationOrProject"
           and project = "''transport''"]; code_simp)

text \<open>No manifest is ever written to a path with its space left out: the path of a
  kind that lives in a space is refused without one, and given otherwise.\<close>

theorem repository_path_needs_space:
  "(\<exists>p. repository_path jc info project space name = Inr p) \<longleftrightarrow>
     (if str_contains ''{space}'' (ki_path_template info) then \<exists>s. space = Some s \<and> s \<noteq> [] else True)"
  by (cases space) (auto simp: repository_path_def is_none_or_def)

end
