(* ===== verification/Selector.thy ===== *)
theory Selector
  imports Resource
begin

text \<open>
  Label and field selectors of a list call, \<open>src/resource/selector.rs\<close>: the parsers with every
  refusal and its message, and the matchers.
\<close>

subsection \<open>Definitions\<close>

datatype selector_error = Malformed string | UnknownField string

datatype requirement =
    Equals string string
  | NotEquals string string
  | In string "string list"
  | NotIn string "string list"
  | Exists string
  | DoesNotExist string

definition is_valid_key :: "string \<Rightarrow> bool" where
  "is_valid_key k \<longleftrightarrow>
     k \<noteq> [] \<and>
     \<not> list_ex (\<lambda>ch. is_whitespace ch \<or> (\<exists>c \<in> set ''=!()[],''. ch = [c])) (rchars k)"

text \<open>The delimiters are ASCII, so the walk over characters is a walk over bytes.\<close>

fun split_from :: "string \<Rightarrow> string \<Rightarrow> nat \<Rightarrow> string \<Rightarrow> selector_error + string list" where
  "split_from input [] depth cur =
     (if depth \<noteq> 0 then Inl (Malformed (''unclosed set parenthesis: '' @ input)) else Inr [cur])"
| "split_from input (c # cs) depth cur =
     (if c = CHR ''('' then split_from input cs (depth + 1) (cur @ [c])
      else if c = CHR '')'' then
        (if depth = 0 then Inl (Malformed (''unbalanced parenthesis: '' @ input))
         else split_from input cs (depth - 1) (cur @ [c]))
      else if c = CHR '','' \<and> depth = 0 then
        (case split_from input cs 0 [] of Inl e \<Rightarrow> Inl e | Inr parts \<Rightarrow> Inr (cur # parts))
      else split_from input cs depth (cur @ [c]))"

definition split_requirements :: "string \<Rightarrow> selector_error + string list" where
  "split_requirements input = split_from input input 0 []"

text \<open>The body of the loop of \<open>LabelSelector::parse\<close>: one requirement.\<close>

definition parse_requirement :: "string \<Rightarrow> selector_error + requirement" where
  "parse_requirement raw =
     (let part = str_trim raw in
      if part = [] then Inl (Malformed ''empty requirement in selector'')
      else if CHR ''('' \<in> set part then
        (if \<not> ends_with '')'' part then Inl (Malformed (''unclosed set parenthesis: '' @ part))
         else case split_once ''('' (butlast part) of
             None \<Rightarrow> Inl (Malformed (''malformed set requirement: '' @ part))
           | Some (before0, inside) \<Rightarrow>
               (let before = str_trim before0;
                    values = map str_trim (str_split (CHR '','') inside) in
                if values = [] \<or> list_ex (\<lambda>v. v = []) values
                then Inl (Malformed (''set values must be non-empty in: '' @ part))
                else case strip_suffix ''notin'' before of
                    Some k \<Rightarrow>
                      (let key = str_trim k in
                       if \<not> is_valid_key key then Inl (Malformed (''invalid key: '' @ key))
                       else Inr (NotIn key values))
                  | None \<Rightarrow>
                      (case strip_suffix ''in'' before of
                         Some k \<Rightarrow>
                           (let key = str_trim k in
                            if \<not> is_valid_key key then Inl (Malformed (''invalid key: '' @ key))
                            else Inr (In key values))
                       | None \<Rightarrow>
                           Inl (Malformed (''expected '' @ apostrophe @ ''in'' @ apostrophe @ '' or ''
                             @ apostrophe @ ''notin'' @ apostrophe @ '' before parenthesis in: ''
                             @ part)))))
      else case strip_prefix ''!'' part of
          Some stripped \<Rightarrow>
            (let key = str_trim stripped in
             if \<not> is_valid_key key then Inl (Malformed (''invalid key in: '' @ part))
             else Inr (DoesNotExist key))
        | None \<Rightarrow>
      (case split_once ''=='' part of
          Some (k, v) \<Rightarrow>
            (if \<not> is_valid_key (str_trim k) then Inl (Malformed (''invalid key in: '' @ part))
             else Inr (Equals (str_trim k) (str_trim v)))
        | None \<Rightarrow>
      (case split_once ''!='' part of
          Some (k, v) \<Rightarrow>
            (if \<not> is_valid_key (str_trim k) then Inl (Malformed (''invalid key in: '' @ part))
             else Inr (NotEquals (str_trim k) (str_trim v)))
        | None \<Rightarrow>
      (case split_once ''='' part of
          Some (k, v) \<Rightarrow>
            (if \<not> is_valid_key (str_trim k) then Inl (Malformed (''invalid key in: '' @ part))
             else Inr (Equals (str_trim k) (str_trim v)))
        | None \<Rightarrow>
            (if \<not> is_valid_key (str_trim part) then Inl (Malformed (''invalid key in: '' @ part))
             else Inr (Exists (str_trim part)))))))"

fun collect_results :: "('e + 'a) list \<Rightarrow> 'e + 'a list" where
  "collect_results [] = Inr []"
| "collect_results (Inl e # rs) = Inl e"
| "collect_results (Inr x # rs) =
     (case collect_results rs of Inl e \<Rightarrow> Inl e | Inr xs \<Rightarrow> Inr (x # xs))"

type_synonym label_selector = "requirement list"

definition label_selector_parse :: "string \<Rightarrow> selector_error + label_selector" where
  "label_selector_parse raw =
     (let input = str_trim raw in
      if input = [] then Inr []
      else case split_requirements input of
          Inl e \<Rightarrow> Inl e
        | Inr parts \<Rightarrow> collect_results (map parse_requirement parts))"

definition requirement_holds :: "(string, string) btree \<Rightarrow> requirement \<Rightarrow> bool" where
  "requirement_holds labels req =
     (case req of
        Equals k v \<Rightarrow> unwrap_or False (map_option (\<lambda>val. val = v) (bt_get labels k))
      | NotEquals k v \<Rightarrow> unwrap_or True (map_option (\<lambda>val. val \<noteq> v) (bt_get labels k))
      | In k values \<Rightarrow> unwrap_or False (map_option (\<lambda>val. val \<in> set values) (bt_get labels k))
      | NotIn k values \<Rightarrow>
          unwrap_or True (map_option (\<lambda>val. val \<notin> set values) (bt_get labels k))
      | Exists k \<Rightarrow> bt_get labels k \<noteq> None
      | DoesNotExist k \<Rightarrow> bt_get labels k = None)"

definition label_matches :: "label_selector \<Rightarrow> (string, string) btree \<Rightarrow> bool" where
  "label_matches sel labels = list_all (requirement_holds labels) sel"

datatype sel_field = MetadataName | MetadataNamespace | StatusPhase

datatype field_requirement = FieldEquals sel_field string | FieldNotEquals sel_field string

type_synonym field_selector = "field_requirement list"

definition parse_field_requirement :: "string \<Rightarrow> selector_error + field_requirement" where
  "parse_field_requirement raw =
     (let part = str_trim raw in
      if part = [] then Inl (Malformed ''empty field requirement'')
      else
        let found =
          (case split_once ''=='' part of
             Some (k, v) \<Rightarrow> Some (str_trim k, False, str_trim v)
           | None \<Rightarrow>
               (case split_once ''!='' part of
                  Some (k, v) \<Rightarrow> Some (str_trim k, True, str_trim v)
                | None \<Rightarrow>
                    (case split_once ''='' part of
                       Some (k, v) \<Rightarrow> Some (str_trim k, False, str_trim v)
                     | None \<Rightarrow> None)))
        in case found of
             None \<Rightarrow> Inl (Malformed (''missing operator in field requirement: '' @ part))
           | Some (field_str, is_not_equal, value) \<Rightarrow>
               (let field =
                  (if field_str = ''metadata.name'' then Inr MetadataName
                   else if field_str = ''metadata.namespace'' then Inr MetadataNamespace
                   else if field_str = ''status.phase'' then Inr StatusPhase
                   else Inl (UnknownField field_str))
                in case field of
                     Inl e \<Rightarrow> Inl e
                   | Inr f \<Rightarrow>
                       Inr (if is_not_equal then FieldNotEquals f value
                            else FieldEquals f value)))"

definition field_selector_parse :: "string \<Rightarrow> selector_error + field_selector" where
  "field_selector_parse raw =
     (let input = str_trim raw in
      if input = [] then Inr []
      else case split_requirements input of
          Inl e \<Rightarrow> Inl e
        | Inr parts \<Rightarrow> collect_results (map parse_field_requirement parts))"

definition field_requirement_holds :: "envelope \<Rightarrow> field_requirement \<Rightarrow> bool" where
  "field_requirement_holds env req =
     (case req of
        FieldEquals f expected \<Rightarrow>
          (case f of
             MetadataName \<Rightarrow> meta_name (metadata env) = expected
           | MetadataNamespace \<Rightarrow> unwrap_or [] (meta_namespace (metadata env)) = expected
           | StatusPhase \<Rightarrow>
               unwrap_or False
                 (map_option (\<lambda>s. phase_str (st_phase s) = expected) (env_status env)))
      | FieldNotEquals f expected \<Rightarrow>
          (case f of
             MetadataName \<Rightarrow> meta_name (metadata env) \<noteq> expected
           | MetadataNamespace \<Rightarrow> unwrap_or [] (meta_namespace (metadata env)) \<noteq> expected
           | StatusPhase \<Rightarrow>
               unwrap_or True
                 (map_option (\<lambda>s. phase_str (st_phase s) \<noteq> expected) (env_status env))))"

definition field_matches :: "field_selector \<Rightarrow> envelope \<Rightarrow> bool" where
  "field_matches sel env = list_all (field_requirement_holds env) sel"

text \<open>How a selector is written: the inverse the parser is measured against.\<close>

definition print_requirement :: "requirement \<Rightarrow> string" where
  "print_requirement req =
     (case req of
        Equals k v \<Rightarrow> k @ ''='' @ v
      | NotEquals k v \<Rightarrow> k @ ''!='' @ v
      | In k vs \<Rightarrow> k @ '' in ('' @ str_join '','' vs @ '')''
      | NotIn k vs \<Rightarrow> k @ '' notin ('' @ str_join '','' vs @ '')''
      | Exists k \<Rightarrow> k
      | DoesNotExist k \<Rightarrow> ''!'' @ k)"

definition print_selector :: "label_selector \<Rightarrow> string" where
  "print_selector sel = str_join '','' (map print_requirement sel)"

text \<open>A label word: printable ASCII without a blank or a character the grammar uses.\<close>

definition word_char :: "char \<Rightarrow> bool" where
  "word_char c \<longleftrightarrow>
     (let n = of_char c :: nat in 33 \<le> n \<and> n < 127 \<and> c \<notin> set ''=!()[],'')"

definition word :: "string \<Rightarrow> bool" where
  "word s \<longleftrightarrow> s \<noteq> [] \<and> list_all word_char s"

definition printable :: "requirement \<Rightarrow> bool" where
  "printable req =
     (case req of
        Equals k v \<Rightarrow> word k \<and> (v = [] \<or> word v)
      | NotEquals k v \<Rightarrow> word k \<and> (v = [] \<or> word v)
      | In k vs \<Rightarrow> word k \<and> vs \<noteq> [] \<and> list_all word vs
      | NotIn k vs \<Rightarrow> word k \<and> vs \<noteq> [] \<and> list_all word vs
      | Exists k \<Rightarrow> word k
      | DoesNotExist k \<Rightarrow> word k)"

subsection \<open>Lemmas on ASCII text\<close>

definition ascii :: "string \<Rightarrow> bool" where
  "ascii s \<longleftrightarrow> list_all (\<lambda>c. of_char c < (128::nat)) s"

text \<open>Text that trimming leaves alone.\<close>

definition tight :: "string \<Rightarrow> bool" where
  "tight s \<longleftrightarrow>
     ascii s \<and> s \<noteq> [] \<and> \<not> is_whitespace [hd s] \<and> \<not> is_whitespace [last s]"

lemma ascii_append [simp]: "ascii (a @ b) \<longleftrightarrow> ascii a \<and> ascii b"
  by (simp add: ascii_def)

lemma is_whitespace_byte: "is_whitespace [c] \<longleftrightarrow> c \<in> {CHR 0x09, CHR 0x0A, CHR 0x0B, CHR 0x0C, CHR 0x0D, CHR 0x20}"
  by (auto simp: is_whitespace_def unicode_ws_def)

lemma not_word_char [simp]:
  "\<not> word_char CHR ''=''" "\<not> word_char CHR ''!''" "\<not> word_char CHR ''(''" "\<not> word_char CHR '')''"
  "\<not> word_char CHR ''[''" "\<not> word_char CHR '']''" "\<not> word_char CHR '',''" "\<not> word_char CHR 0x09"
  "\<not> word_char CHR 0x0A" "\<not> word_char CHR 0x0B" "\<not> word_char CHR 0x0C" "\<not> word_char CHR 0x0D"
  "\<not> word_char CHR 0x20"
  by (simp_all add: word_char_def)

lemma word_char_not_ws: "word_char c \<Longrightarrow> \<not> is_whitespace [c]"
  by (auto simp: is_whitespace_byte)

lemma word_char_not: "word_char c \<Longrightarrow> c \<notin> set ''=!()[],''"
  by (simp add: word_char_def Let_def)

lemma word_not_in:
  "word s \<Longrightarrow> d \<in> set ''=!()[],'' \<Longrightarrow> d \<notin> set s"
  using word_char_not by (auto simp: word_def list_all_iff)

lemma word_char_ascii: "word_char c \<Longrightarrow> of_char c < (128::nat)"
  by (simp add: word_char_def Let_def)

lemma word_ascii: "word s \<Longrightarrow> ascii s"
  by (auto simp: word_def ascii_def list_all_iff intro: word_char_ascii)

lemma word_tight: "word s \<Longrightarrow> tight s"
  by (simp add: tight_def word_ascii) (auto simp: word_def list_all_iff dest: word_char_not_ws)

lemma rchars_of_ascii: "ascii s \<Longrightarrow> rchars s = map (\<lambda>c. [c]) s"
  by (rule rchars_ascii) (auto simp: ascii_def list_all_iff)

lemma concat_singletons: "concat (map (\<lambda>c. [c]) s) = s"
  by (induction s) auto

lemma str_trim_ascii:
  assumes "ascii s"
  shows "str_trim s =
    rev (dropWhile (\<lambda>c. is_whitespace [c]) (rev (dropWhile (\<lambda>c. is_whitespace [c]) s)))"
  using assms
  by (simp add: str_trim_def rchars_of_ascii dropWhile_map rev_map o_def concat_singletons)

lemma dropWhile_hd: "s \<noteq> [] \<Longrightarrow> \<not> P (hd s) \<Longrightarrow> dropWhile P s = s"
  by (cases s) auto

lemma str_trim_padded:
  assumes "tight s" and "ascii t" and "\<forall>c \<in> set t. is_whitespace [c]"
  shows "str_trim (s @ t) = s"
proof -
  have hd: "dropWhile (\<lambda>c. is_whitespace [c]) (s @ t) = s @ t"
    using assms(1) by (intro dropWhile_hd) (auto simp: tight_def hd_append)
  have "dropWhile (\<lambda>c. is_whitespace [c]) (rev t @ rev s) = rev s"
    using assms by (subst dropWhile_append2) (auto simp: tight_def hd_rev intro: dropWhile_hd)
  with hd assms show ?thesis
    by (simp add: str_trim_ascii tight_def)
qed

lemma str_trim_tight [simp]: "tight s \<Longrightarrow> str_trim s = s"
  using str_trim_padded [of s "[]"] by (simp add: ascii_def)

lemma word_str_trim: "word s \<Longrightarrow> str_trim s = s"
  by (simp add: word_tight)

lemma str_trim_Nil [simp]: "str_trim [] = []"
  by (simp add: str_trim_def)

lemma tight_append:
  "tight a \<Longrightarrow> tight b \<Longrightarrow> ascii m \<Longrightarrow> tight (a @ m @ b)"
  by (auto simp: tight_def)

lemma is_valid_key_word: "word k \<Longrightarrow> is_valid_key k"
  by (simp add: is_valid_key_def rchars_of_ascii word_ascii)
     (auto simp: list_ex_iff word_def list_all_iff dest: word_char_not_ws)

subsection \<open>Lemmas on splitting\<close>

lemma split_once_None_if_missing:
  assumes "d \<in> set p" and "d \<notin> set s"
  shows "split_once p s = None"
proof (cases "split_once p s")
  case (Some ab)
  then have "s = fst ab @ p @ snd ab" by (cases ab) (auto dest: split_once_Some)
  with assms show ?thesis by auto
qed

lemma split_once_None_if_rare:
  assumes "count_list s d < count_list p d"
  shows "split_once p s = None"
proof (cases "split_once p s")
  case (Some ab)
  then have "s = fst ab @ p @ snd ab" by (cases ab) (auto dest: split_once_Some)
  then have "count_list p d \<le> count_list s d" by simp
  with assms show ?thesis by simp
qed

lemma split_once_two:
  "d \<notin> set a \<Longrightarrow> split_once [d, e] (a @ d # e # b) = Some (a, b)"
  by (induction a) auto

lemma str_split_join:
  "vs \<noteq> [] \<Longrightarrow> list_all (\<lambda>v. d \<notin> set v) vs \<Longrightarrow> str_split d (str_join [d] vs) = vs"
proof (induction "[d]" vs rule: str_join.induct)
  case (3 x y xs)
  then show ?case by (simp add: str_split_append)
qed (auto simp: str_split_no_delim)

lemma split_from_plain:
  "CHR ''('' \<notin> set s \<Longrightarrow> CHR '')'' \<notin> set s \<Longrightarrow> CHR '','' \<notin> set s \<or> depth \<noteq> 0 \<Longrightarrow>
   split_from input (s @ rest) depth cur = split_from input rest depth (cur @ s)"
  by (induction s arbitrary: cur) auto

lemma word_plain:
  "word s \<Longrightarrow> CHR ''('' \<notin> set s \<and> CHR '')'' \<notin> set s \<and> CHR '','' \<notin> set s"
  by (auto simp: word_def list_all_iff)

lemma set_str_join: "c \<in> set (str_join sep vs) \<Longrightarrow> c \<in> set sep \<or> (\<exists>v \<in> set vs. c \<in> set v)"
  by (induction sep vs rule: str_join.induct) auto

lemma words_plain:
  "list_all word vs \<Longrightarrow> CHR ''('' \<notin> set (str_join '','' vs) \<and> CHR '')'' \<notin> set (str_join '','' vs)"
  using word_plain by (auto dest!: set_str_join simp: list_all_iff)

lemma split_from_set:
  assumes "word k" and "list_all word vs"
    and "CHR ''('' \<notin> set m \<and> CHR '')'' \<notin> set m \<and> CHR '','' \<notin> set m"
  shows "split_from input (k @ m @ ''('' @ str_join '','' vs @ '')'' @ rest) 0 cur =
    split_from input rest 0 (cur @ k @ m @ ''('' @ str_join '','' vs @ '')'')"
proof -
  have "split_from input ((k @ m) @ ''('' @ str_join '','' vs @ '')'' @ rest) 0 cur =
      split_from input (''('' @ str_join '','' vs @ '')'' @ rest) 0 (cur @ k @ m)"
    using assms word_plain [OF assms(1)] by (subst split_from_plain) auto
  moreover have "split_from input (str_join '','' vs @ '')'' @ rest) 1 (cur @ k @ m @ ''('') =
      split_from input ('')'' @ rest) 1 ((cur @ k @ m @ ''('') @ str_join '','' vs)"
    using words_plain [OF assms(2)] by (intro split_from_plain) auto
  ultimately show ?thesis by simp
qed

lemma split_from_print:
  assumes "printable r"
  shows "split_from input (print_requirement r @ rest) 0 cur =
    split_from input rest 0 (cur @ print_requirement r)"
proof (cases "\<exists>k vs. r = In k vs \<or> r = NotIn k vs")
  case True
  then show ?thesis
    using assms split_from_set [where m = "'' in ''"] split_from_set [where m = "'' notin ''"]
    by (auto simp: print_requirement_def printable_def)
next
  case False
  show ?thesis
    using assms False
    by (intro split_from_plain; cases r)
       (auto simp: print_requirement_def printable_def dest: word_plain)
qed

lemma split_from_selector:
  "sel \<noteq> [] \<Longrightarrow> list_all printable sel \<Longrightarrow>
   split_from input (print_selector sel) 0 [] = Inr (map print_requirement sel)"
proof (induction sel rule: induct_list012)
  case (2 r)
  then show ?case
    using split_from_print [of r input "[]" "[]"] by (simp add: print_selector_def)
next
  case (3 r r' sel)
  then have "split_from input (print_selector (r' # sel)) 0 [] =
      Inr (map print_requirement (r' # sel))" by simp
  with 3 show ?case
    using split_from_print [of r input "'','' @ print_selector (r' # sel)" "[]"]
    by (simp add: print_selector_def)
qed simp

lemma count_word: "word s \<Longrightarrow> d \<in> set ''=!()[],'' \<Longrightarrow> count_list s d = 0"
  by (simp only: count_list_0_iff word_not_in not_False_eq_True)

lemma tight_single: "word_char c \<or> c \<in> set ''=!()'' \<Longrightarrow> tight [c]"
  by (auto simp: tight_def ascii_def is_whitespace_byte dest: word_char_ascii)

lemma ascii_join: "list_all word vs \<Longrightarrow> ascii (str_join '','' vs)"
  by (induction "'',''" vs rule: str_join.induct)
     (auto simp: ascii_def[of "[]"] word_ascii, simp add: ascii_def)

lemma tight_word_then:
  "word k \<Longrightarrow> ascii m \<Longrightarrow> tight [c] \<Longrightarrow> tight (k @ m @ [c])"
  by (simp add: tight_append word_tight)

lemma strip_bang_word: "word k \<Longrightarrow> strip_prefix ''!'' (k @ rest) = None"
  by (cases k) (auto simp: word_def)

lemma parse_set_requirement:
  assumes k: "word k" and vs: "vs \<noteq> []" "list_all word vs"
    and m: "m = '' in '' \<or> m = '' notin ''"
  shows "parse_requirement (k @ m @ ''('' @ str_join '','' vs @ '')'') =
    Inr (if m = '' in '' then In k vs else NotIn k vs)"
proof -
  let ?part = "k @ m @ ''('' @ str_join '','' vs @ '')''"
  have trim: "str_trim ?part = ?part"
    using tight_word_then [OF k, of "m @ ''('' @ str_join '','' vs" "CHR '')''"] m
      ascii_join [OF vs(2)] tight_single [of "CHR '')''"]
    by (auto simp: ascii_def)
  have ends: "ends_with '')'' ?part"
    by (auto simp: ends_with_def strip_suffix_def)
  have last: "butlast ?part = (k @ m) @ CHR ''('' # str_join '','' vs"
    by (simp add: butlast_append)
  have "CHR ''('' \<notin> set (k @ m)"
    using m word_plain [OF k] by auto
  then have once: "split_once ''('' (butlast ?part) = Some (k @ m, str_join '','' vs)"
    unfolding last by (rule split_once_char)
  have before: "str_trim (k @ m) = k @ butlast m"
    using str_trim_padded [of "k @ butlast m" "'' ''"] m
      tight_word_then [OF k, of "'' i'' " "CHR ''n''"] tight_word_then [OF k, of "'' noti''" "CHR ''n''"]
    by (auto simp: ascii_def tight_def is_whitespace_byte)
  have "list_all (\<lambda>v. CHR '','' \<notin> set v) vs"
    using vs(2) word_plain by (auto simp: list_all_iff)
  then have split: "str_split (CHR '','') (str_join '','' vs) = vs"
    using vs(1) str_split_join by blast
  have vals: "map str_trim vs = vs"
    using vs(2) by (simp add: list_all_iff word_str_trim map_idI)
  have nonempty: "\<not> list_ex (\<lambda>v. v = []) vs"
    using vs(2) by (auto simp: list_all_iff list_ex_iff word_def)
  have key: "str_trim (k @ '' '') = k"
    using str_trim_padded [of k "'' ''"] k by (simp add: word_tight ascii_def is_whitespace_byte)
  have open_in: "CHR ''('' \<in> set ?part" by simp
  have part: "?part \<noteq> []" by simp
  have suf_in: "strip_suffix ''notin'' (k @ '' in'') = None"
      "strip_suffix ''in'' (k @ '' in'') = Some (k @ '' '')"
      "strip_suffix ''notin'' (k @ '' notin'') = Some (k @ '' '')"
    by (simp_all add: strip_suffix_def)
  have parsed: "parse_requirement ?part =
      (case strip_suffix ''notin'' (k @ butlast m) of
         Some k' \<Rightarrow> (let key = str_trim k' in
           if \<not> is_valid_key key then Inl (Malformed (''invalid key: '' @ key)) else Inr (NotIn key vs))
       | None \<Rightarrow> (case strip_suffix ''in'' (k @ butlast m) of
           Some k' \<Rightarrow> (let key = str_trim k' in
             if \<not> is_valid_key key then Inl (Malformed (''invalid key: '' @ key)) else Inr (In key vs))
         | None \<Rightarrow> Inl (Malformed (''expected '' @ apostrophe @ ''in'' @ apostrophe @ '' or ''
             @ apostrophe @ ''notin'' @ apostrophe @ '' before parenthesis in: '' @ ?part))))"
    using part open_in ends vs(1) nonempty
    by (simp only: parse_requirement_def Let_def trim once before split vals if_False if_True
        not_True_eq_False not_False_eq_True option.case prod.case simp_thms)
  show ?thesis
    unfolding parsed using m
    by (elim disjE) (simp_all add: suf_in key is_valid_key_word [OF k])
qed

lemma tight_value: "word k \<Longrightarrow> ascii m \<Longrightarrow> tight [c] \<Longrightarrow> v = [] \<or> word v \<Longrightarrow> tight (k @ m @ c # v)"
  using tight_word_then [of k m c] tight_append [of k v "m @ [c]"]
  by (auto simp: word_tight) (simp add: tight_def)

lemma trim_value: "v = [] \<or> word v \<Longrightarrow> str_trim v = v"
  by (auto simp: word_str_trim)

lemma count_value: "v = [] \<or> word v \<Longrightarrow> d \<in> set ''=!()[],'' \<Longrightarrow> count_list v d = 0"
  by (elim disjE) (simp_all only: count_word count_list.simps)

lemma value_plain:
  "v = [] \<or> word v \<Longrightarrow> CHR ''('' \<notin> set v \<and> CHR ''='' \<notin> set v \<and> CHR ''!'' \<notin> set v"
  by (auto simp: word_def list_all_iff)

lemma parse_equals:
  assumes k: "word k" and v: "v = [] \<or> word v"
  shows "parse_requirement (k @ ''='' @ v) = Inr (Equals k v)"
proof -
  have trim: "str_trim (k @ ''='' @ v) = k @ ''='' @ v"
    using tight_value [OF k, of "[]" "CHR ''=''" v] v tight_single by (simp add: ascii_def)
  have no: "CHR ''('' \<notin> set (k @ ''='' @ v)" "CHR ''!'' \<notin> set (k @ ''='' @ v)"
    using value_plain [OF v] value_plain [of k] k by simp_all
  have "count_list (k @ ''='' @ v) (CHR ''='') = 1"
    using count_word [OF k, of "CHR ''=''"] count_value [OF v, of "CHR ''=''"] by simp
  then have two: "split_once ''=='' (k @ ''='' @ v) = None"
    by (intro split_once_None_if_rare [where d = "CHR ''=''"]) simp
  have ne: "split_once ''!='' (k @ ''='' @ v) = None"
    using no(2) by (intro split_once_None_if_missing [where d = "CHR ''!''"]) simp_all
  have one: "split_once ''='' (k @ ''='' @ v) = Some (k, v)"
    using split_once_char [of "CHR ''=''" k v] value_plain [of k] k by simp
  show ?thesis
    using no k
    by (simp add: parse_requirement_def Let_def trim [simplified] two [simplified] ne [simplified]
        one [simplified] strip_bang_word trim_value [OF v] word_str_trim is_valid_key_word)
qed

lemma parse_not_equals:
  assumes k: "word k" and v: "v = [] \<or> word v"
  shows "parse_requirement (k @ ''!='' @ v) = Inr (NotEquals k v)"
proof -
  have trim: "str_trim (k @ ''!='' @ v) = k @ ''!='' @ v"
    using tight_value [OF k, of "''!''" "CHR ''=''" v] v tight_single by (simp add: ascii_def)
  have no: "CHR ''('' \<notin> set (k @ ''!='' @ v)"
    using value_plain [OF v] value_plain [of k] k by simp
  have "count_list (k @ ''!='' @ v) (CHR ''='') = 1"
    using count_word [OF k, of "CHR ''=''"] count_value [OF v, of "CHR ''=''"] by simp
  then have two: "split_once ''=='' (k @ ''!='' @ v) = None"
    by (intro split_once_None_if_rare [where d = "CHR ''=''"]) simp
  have ne: "split_once ''!='' (k @ ''!='' @ v) = Some (k, v)"
    using split_once_two [of "CHR ''!''" k "CHR ''=''" v] value_plain [of k] k by simp
  show ?thesis
    using no k
    by (simp add: parse_requirement_def Let_def trim [simplified] two [simplified] ne [simplified]
        strip_bang_word trim_value [OF v] word_str_trim is_valid_key_word)
qed

lemma parse_presence:
  assumes k: "word k"
  shows "parse_requirement k = Inr (Exists k)"
    and "parse_requirement (''!'' @ k) = Inr (DoesNotExist k)"
proof -
  have no: "CHR ''('' \<notin> set k" "CHR ''='' \<notin> set k"
    using value_plain [of k] k by simp_all
  have none: "split_once ''=='' k = None" "split_once ''!='' k = None" "split_once ''='' k = None"
    using no(2) by (auto intro: split_once_None_if_missing [where d = "CHR ''=''"])
  show "parse_requirement k = Inr (Exists k)"
    using no none k strip_bang_word [OF k, of "[]"]
    by (simp add: parse_requirement_def Let_def word_str_trim is_valid_key_word word_def)
  have "str_trim (''!'' @ k) = ''!'' @ k"
    using tight_append [of "''!''" k "[]"] tight_single k by (simp add: word_tight ascii_def)
  then show "parse_requirement (''!'' @ k) = Inr (DoesNotExist k)"
    using no k by (simp add: parse_requirement_def Let_def word_str_trim is_valid_key_word)
qed

lemma parse_print_requirement:
  assumes "printable r"
  shows "parse_requirement (print_requirement r) = Inr r"
  using assms parse_set_requirement [where m = "'' in ''"]
    parse_set_requirement [where m = "'' notin ''"] parse_equals parse_not_equals parse_presence
  by (cases r) (simp_all add: print_requirement_def printable_def)

lemma collect_results_Inr: "collect_results (map Inr xs) = Inr xs"
  by (induction xs) simp_all

lemma tight_print_set:
  "word k \<Longrightarrow> ascii m \<Longrightarrow> list_all word vs \<Longrightarrow> tight (k @ m @ ''('' @ str_join '','' vs @ '')'')"
  using tight_word_then [of k "m @ ''('' @ str_join '','' vs" "CHR '')''"] tight_single [of "CHR '')''"]
    ascii_join [of vs]
  by (simp add: ascii_def)

lemma tight_print:
  assumes "printable r"
  shows "tight (print_requirement r)"
  using assms tight_value [where m = "[]" and c = "CHR ''=''"]
    tight_value [where m = "''!''" and c = "CHR ''=''"] tight_single [of "CHR ''=''"]
    tight_print_set [where m = "'' in ''"] tight_print_set [where m = "'' notin ''"]
    tight_append [where a = "''!''" and m = "[]"] tight_single [of "CHR ''!''"]
  by (cases r) (simp_all add: print_requirement_def printable_def word_tight ascii_def)

lemma tight_print_selector:
  "sel \<noteq> [] \<Longrightarrow> list_all printable sel \<Longrightarrow> tight (print_selector sel)"
proof (induction sel rule: induct_list012)
  case (3 r r' sel)
  then show ?case
    using tight_append [of "print_requirement r" "print_selector (r' # sel)" "'',''"]
    by (simp add: print_selector_def tight_print ascii_def)
qed (simp_all add: print_selector_def tight_print)

subsection \<open>Properties\<close>

text \<open>Property C31. A label selector written out is read back unchanged: whatever the
  requirements, as long as keys and values are ASCII words free of the grammar's own characters,
  parsing the printed selector gives the same requirements in the same order.\<close>

theorem label_selector_roundtrip:
  assumes "list_all printable sel"
  shows "label_selector_parse (print_selector sel) = Inr sel"
proof (cases "sel = []")
  case True
  then show ?thesis by (simp add: label_selector_parse_def print_selector_def)
next
  case False
  have parsed: "map (parse_requirement \<circ> print_requirement) sel = map Inr sel"
    using assms by (simp add: list_all_iff parse_print_requirement)
  have "print_selector sel \<noteq> []" "str_trim (print_selector sel) = print_selector sel"
    using tight_print_selector [OF False assms] by (auto simp: tight_def)
  with False assms show ?thesis
    by (simp add: label_selector_parse_def split_requirements_def split_from_selector
        parsed collect_results_Inr)
qed

theorem label_selector_roundtrip_witness:
  "label_selector_parse ''tier in (gold,silver),env!=prod,!legacy'' =
     Inr [In ''tier'' [''gold'', ''silver''], NotEquals ''env'' ''prod'', DoesNotExist ''legacy'']"
proof -
  have "list_all printable
      [In ''tier'' [''gold'', ''silver''], NotEquals ''env'' ''prod'', DoesNotExist ''legacy'']"
    by code_simp
  from label_selector_roundtrip [OF this] show ?thesis
    by (simp add: print_selector_def print_requirement_def)
qed

text \<open>The negated operators of a label selector are exact complements, and a
  selector of several requirements is their conjunction.\<close>

theorem label_matches_complement:
  "label_matches [NotEquals k v] labels = (\<not> label_matches [Equals k v] labels) \<and>
   label_matches [NotIn k vs] labels = (\<not> label_matches [In k vs] labels) \<and>
   label_matches [DoesNotExist k] labels = (\<not> label_matches [Exists k] labels) \<and>
   label_matches (sel @ sel') labels = (label_matches sel labels \<and> label_matches sel' labels)"
  by (cases "bt_get labels k") (auto simp: label_matches_def requirement_holds_def unwrap_or_def)

end
