(* ===== verification/Store.thy ===== *)
theory Store
  imports Selector
begin

text \<open>
  The read-optimised mirror of the configuration repository, \<open>src/store.rs\<close>.

  A \<open>Mirror\<close> is the record of its resources, in the order of their keys, the repository of each
  project and the layout. A method that takes the write lock returns the new mirror; a method that
  takes the read lock is a function of it. A poisoned lock is entered all the same in the source
  (\<open>into_inner\<close>), so locking has no further effect. \<open>envelope_of\<close>, which reads YAML, is not
  modelled.
\<close>

subsection \<open>Definitions\<close>

record list_options =
  label_selector :: "label_selector option"
  field_selector :: "field_selector option"
  limit :: "nat option"
  continue_token :: "string option"

definition default_options :: list_options where
  "default_options =
     \<lparr>label_selector = None, field_selector = None, limit = None, continue_token = None\<rparr>"

record list_page =
  items :: "envelope list"
  next_token :: "string option"
  remaining :: nat

record mirror =
  resources :: "(resource_key, envelope) btree"
  repositories :: "(string, string) btree"
  raw_layout :: nat

definition new_mirror :: mirror where
  "new_mirror = \<lparr>resources = [], repositories = [], raw_layout = 0\<rparr>"

definition repository_of :: "mirror \<Rightarrow> string \<Rightarrow> string option" where
  "repository_of m project = bt_get (repositories m) project"

definition layout :: "mirror \<Rightarrow> nat" where
  "layout m = max (raw_layout m) 1"

definition set_layout :: "nat \<Rightarrow> mirror \<Rightarrow> mirror" where
  "set_layout l m = m\<lparr>raw_layout := l\<rparr>"

definition set_repositories :: "(string, string) btree \<Rightarrow> mirror \<Rightarrow> mirror" where
  "set_repositories r m = m\<lparr>repositories := r\<rparr>"

definition upsert :: "jc_names \<Rightarrow> envelope \<Rightarrow> mirror \<Rightarrow> mirror" where
  "upsert jc env m =
     (let key = envelope_key env in
      if \<not> is_dns1123 jc (key_namespace key) \<or> \<not> is_manifest_name jc (key_kind key) (key_name key)
      then m
      else m\<lparr>resources := bt_insert key env (resources m)\<rparr>)"

definition remove :: "resource_key \<Rightarrow> mirror \<Rightarrow> envelope option \<times> mirror" where
  "remove key m = (bt_get (resources m) key, m\<lparr>resources := bt_remove key (resources m)\<rparr>)"

definition mirror_len :: "mirror \<Rightarrow> nat" where
  "mirror_len m = length (resources m)"

text \<open>\<open>Vec::dedup\<close>: equal neighbours once.\<close>

fun dedup :: "'a list \<Rightarrow> 'a list" where
  "dedup [] = []"
| "dedup [x] = [x]"
| "dedup (x # y # xs) = (if x = y then dedup (y # xs) else x # dedup (y # xs))"

definition namespaces :: "mirror \<Rightarrow> string list" where
  "namespaces m =
     dedup (filter (\<lambda>ns. ns \<noteq> [] \<and> ns \<noteq> ORG_NAMESPACE)
       (map (\<lambda>e. key_namespace (fst e)) (resources m)))"

definition replace_all :: "mirror \<Rightarrow> mirror \<Rightarrow> mirror" where
  "replace_all other m =
     set_layout (layout other)
       (set_repositories (repositories other) (m\<lparr>resources := resources other\<rparr>))"

definition matching :: "mirror \<Rightarrow> (envelope \<Rightarrow> bool) \<Rightarrow> envelope list" where
  "matching m predicate = filter predicate (map snd (resources m))"

definition mirror_find :: "mirror \<Rightarrow> (envelope \<Rightarrow> bool) \<Rightarrow> envelope option" where
  "mirror_find m predicate = List.find predicate (map snd (resources m))"

definition get :: "mirror \<Rightarrow> string \<Rightarrow> string \<Rightarrow> string \<Rightarrow> envelope option" where
  "get m ns kind name = bt_get (resources m) (ResourceKey ns kind name)"

definition kind_where ::
    "mirror \<Rightarrow> string \<Rightarrow> string \<Rightarrow> (envelope \<Rightarrow> bool) \<Rightarrow> envelope list" where
  "kind_where m ns kind keep =
     (let from = ResourceKey ns kind [];
          range = dropWhile (\<lambda>e. fst e < from) (resources m)
      in map snd (filter (\<lambda>e. keep (snd e))
           (takeWhile (\<lambda>e. key_namespace (fst e) = ns \<and> key_kind (fst e) = kind) range)))"

definition list_page_of :: "mirror \<Rightarrow> string \<Rightarrow> string \<Rightarrow> list_options \<Rightarrow> list_page" where
  "list_page_of m ns kind opts =
     (let filtered = kind_where m ns kind (\<lambda>env.
            is_none_or (\<lambda>ls. label_matches ls (meta_labels (metadata env))) (label_selector opts) \<and>
            is_none_or (\<lambda>fs. field_matches fs env) (field_selector opts));
          its = (case continue_token opts of
                   None \<Rightarrow> filtered
                 | Some token \<Rightarrow> filter (\<lambda>i. token < meta_name (metadata i)) filtered);
          total = length its
      in (case limit opts of
            Some lim \<Rightarrow>
              if lim < total then
                (let page_items = take lim its
                 in \<lparr>items = page_items,
                     next_token = (if page_items = [] then None
                                   else Some (meta_name (metadata (last page_items)))),
                     remaining = total - lim\<rparr>)
              else \<lparr>items = its, next_token = None, remaining = 0\<rparr>
          | None \<Rightarrow> \<lparr>items = its, next_token = None, remaining = 0\<rparr>))"

definition behind :: "mirror \<Rightarrow> mirror \<Rightarrow> string list \<Rightarrow> envelope list" where
  "behind held fresh kds =
     map snd (filter (\<lambda>e. key_kind (fst e) \<in> set kds \<and>
         is_none_or (\<lambda>old. env_spec old \<noteq> env_spec (snd e)) (bt_get (resources held) (fst e)))
       (resources fresh))"

definition snapshot :: "mirror \<Rightarrow> mirror" where
  "snapshot m = replace_all m new_mirror"

text \<open>The list with the default options, as most callers ask it.\<close>

definition list_kind :: "mirror \<Rightarrow> string \<Rightarrow> string \<Rightarrow> envelope list" where
  "list_kind m ns kind = items (list_page_of m ns kind default_options)"

subsection \<open>The invariant of a mirror\<close>

text \<open>Keys ascend, every resource stands under its own key, and every namespace and name is one
  the platform accepts.\<close>

definition mirror_wf :: "jc_names \<Rightarrow> mirror \<Rightarrow> bool" where
  "mirror_wf jc m \<longleftrightarrow>
     bt_wf (resources m) \<and>
     (\<forall>(key, env) \<in> set (resources m).
        key = envelope_key env \<and> is_dns1123 jc (key_namespace key) \<and>
        is_manifest_name jc (key_kind key) (key_name key))"

text \<open>The mirrors the process can hold: what the sync and the writes make of an empty one.\<close>

inductive mirror_reachable :: "jc_names \<Rightarrow> mirror \<Rightarrow> bool" for jc where
  start: "mirror_reachable jc new_mirror"
| upsert_step: "mirror_reachable jc m \<Longrightarrow> mirror_reachable jc (upsert jc env m)"
| remove_step: "mirror_reachable jc m \<Longrightarrow> mirror_reachable jc (snd (remove key m))"
| replace_step: "mirror_reachable jc m \<Longrightarrow> mirror_reachable jc n \<Longrightarrow> mirror_reachable jc (replace_all n m)"
| layout_step: "mirror_reachable jc m \<Longrightarrow> mirror_reachable jc (set_layout l m)"
| repos_step: "mirror_reachable jc m \<Longrightarrow> mirror_reachable jc (set_repositories r m)"

text \<open>Following the continue tokens to the end, with fuel for the number of pages.\<close>

fun drain :: "nat \<Rightarrow> mirror \<Rightarrow> string \<Rightarrow> string \<Rightarrow> list_options \<Rightarrow> envelope list" where
  "drain 0 m ns kind opts = []"
| "drain (Suc fuel) m ns kind opts =
     (let page = list_page_of m ns kind opts
      in items page @
         (case next_token page of
            None \<Rightarrow> []
          | Some t \<Rightarrow> drain fuel m ns kind (opts\<lparr>continue_token := Some t\<rparr>)))"

definition demo_mirror :: mirror where
  "demo_mirror =
     fold (upsert demo_names)
       [demo_env ''transport'' ''Pipeline'' ''buses'' JNull,
        demo_env ''air'' ''Pipeline'' ''sensors'' JNull,
        demo_env ''transport'' ''Pipeline'' ''bikes'' JNull,
        demo_env ''transport'' ''Pipeline'' ''ferries'' JNull,
        demo_env ''a@evil.example'' ''Pipeline'' ''x'' JNull] new_mirror"

subsection \<open>Lemmas\<close>

lemma resources_upsert:
  "resources (upsert jc env m) =
     (if is_dns1123 jc (key_namespace (envelope_key env)) \<and>
         is_manifest_name jc (key_kind (envelope_key env)) (key_name (envelope_key env))
      then bt_insert (envelope_key env) env (resources m) else resources m)"
  by (simp add: upsert_def Let_def)

lemma bt_insert_mem: "e \<in> set (bt_insert k v m) \<Longrightarrow> e = (k, v) \<or> e \<in> set m"
  by (induction k v m rule: bt_insert.induct) (auto split: if_splits)

lemma mirror_wf_new: "mirror_wf jc new_mirror"
  by (simp add: mirror_wf_def new_mirror_def)

lemma mirror_wf_upsert: "mirror_wf jc m \<Longrightarrow> mirror_wf jc (upsert jc env m)"
  by (auto simp: mirror_wf_def resources_upsert bt_wf_insert dest: bt_insert_mem)

lemma mirror_wf_remove: "mirror_wf jc m \<Longrightarrow> mirror_wf jc (snd (remove key m))"
  by (auto simp: mirror_wf_def remove_def bt_wf_remove) (auto simp: bt_remove_def)

lemma resources_replace_all [simp]: "resources (replace_all n m) = resources n"
  by (simp add: replace_all_def set_layout_def set_repositories_def)

lemma mirror_wf_replace_all: "mirror_wf jc n \<Longrightarrow> mirror_wf jc (replace_all n m)"
  by (simp add: mirror_wf_def)

lemma mirror_wf_frame [simp]:
  "mirror_wf jc (set_layout l m) = mirror_wf jc m"
  "mirror_wf jc (set_repositories r m) = mirror_wf jc m"
  by (simp_all add: mirror_wf_def set_layout_def set_repositories_def)

lemma mirror_reachable_wf: "mirror_reachable jc m \<Longrightarrow> mirror_wf jc m"
  by (induction rule: mirror_reachable.induct)
     (simp_all add: mirror_wf_new mirror_wf_upsert mirror_wf_remove mirror_wf_replace_all)

lemma mirror_get_mem:
  "mirror_wf jc m \<Longrightarrow> get m ns kind name = Some env \<longleftrightarrow> (ResourceKey ns kind name, env) \<in> set (resources m)"
  by (simp add: get_def mirror_wf_def bt_mem_iff)

text \<open>In a map ordered by namespace, kind and name, the entries of one namespace and kind are the
  run that starts at the empty name: reading the range is filtering everything.\<close>

lemma range_run:
  assumes "bt_wf xs"
  shows "takeWhile (\<lambda>e. key_namespace (fst e) = ns \<and> key_kind (fst e) = kind)
      (dropWhile (\<lambda>e. fst e < ResourceKey ns kind []) xs) =
    filter (\<lambda>e. key_namespace (fst e) = ns \<and> key_kind (fst e) = kind) xs"
  using assms
proof (induction xs)
  case (Cons x xs)
  obtain n k nm env where x: "x = (ResourceKey n k nm, env)"
    by (metis resource_key.exhaust surj_pair)
  have later: "\<forall>e \<in> set xs. ResourceKey n k nm < fst e" and wf: "bt_wf xs"
    using Cons.prems x by (auto simp: bt_wf_Cons)
  show ?case
  proof (cases "ResourceKey n k nm < ResourceKey ns kind []")
    case True
    then show ?thesis
      using Cons.IH [OF wf] x by (auto simp: resource_key_less_iff)
  next
    case False
    then have stop: "dropWhile (\<lambda>e. fst e < ResourceKey ns kind []) (x # xs) = x # xs"
      using x by simp
    have below: "dropWhile (\<lambda>e. fst e < ResourceKey ns kind []) xs = xs"
      using later False by (cases xs) (auto dest: less_trans)
    show ?thesis
    proof (cases "n = ns \<and> k = kind")
      case True
      then show ?thesis
        using stop below Cons.IH [OF wf] x by simp
    next
      case other: False
      have "\<not> (key_namespace (fst e) = ns \<and> key_kind (fst e) = kind)" if "e \<in> set xs" for e
      proof -
        have "ResourceKey n k nm < fst e" using later that by blast
        with False other show ?thesis
          by (cases "fst e") (auto simp: resource_key_less_iff)
      qed
      then have "filter (\<lambda>e. key_namespace (fst e) = ns \<and> key_kind (fst e) = kind) xs = []"
        by (simp add: filter_empty_conv)
      with other stop x show ?thesis by auto
    qed
  qed
qed simp

lemma kind_where_eq:
  assumes "bt_wf (resources m)"
  shows "kind_where m ns kind keep =
    map snd (filter (\<lambda>e. key_namespace (fst e) = ns \<and> key_kind (fst e) = kind \<and> keep (snd e))
      (resources m))"
  using range_run [OF assms, of ns kind]
  by (simp add: kind_where_def Let_def)

lemma mirror_wf_key: "mirror_wf jc m \<Longrightarrow> e \<in> set (resources m) \<Longrightarrow> fst e = envelope_key (snd e)"
  by (cases e) (auto simp: mirror_wf_def)

lemma mirror_wf_entry:
  "mirror_wf jc m \<Longrightarrow> (ResourceKey ns kind name, env) \<in> set (resources m) \<Longrightarrow>
   envelope_key env = ResourceKey ns kind name \<and> is_dns1123 jc ns \<and> is_manifest_name jc kind name"
  unfolding mirror_wf_def by (metis (mono_tags, lifting) case_prodD resource_key.sel)

lemma key_less_name:
  "a < b \<Longrightarrow> key_namespace a = key_namespace b \<Longrightarrow> key_kind a = key_kind b \<Longrightarrow> key_name a < key_name b"
  by (cases a; cases b) (auto simp: resource_key_less_iff)

lemma key_name_envelope [simp]: "key_name (envelope_key env) = meta_name (metadata env)"
  by (simp add: envelope_key_def)

lemma mirror_wf_kind_where:
  assumes "mirror_wf jc m"
  shows "env \<in> set (kind_where m ns kind keep) \<longleftrightarrow>
    keep env \<and> (\<exists>name. get m ns kind name = Some env)"
proof -
  have "env \<in> set (kind_where m ns kind keep) \<longleftrightarrow>
      keep env \<and> (\<exists>key. (key, env) \<in> set (resources m) \<and> key_namespace key = ns \<and> key_kind key = kind)"
    using assms by (auto simp: kind_where_eq mirror_wf_def image_iff)
  also have "\<dots> \<longleftrightarrow> keep env \<and> (\<exists>name. (ResourceKey ns kind name, env) \<in> set (resources m))"
    by (metis resource_key.collapse resource_key.sel)
  finally show ?thesis by (simp add: mirror_get_mem [OF assms])
qed

text \<open>Resources of one namespace and kind come out by name, each name once.\<close>

lemma kind_where_names_sorted:
  assumes "mirror_wf jc m"
  shows "sorted_wrt (<) (map (\<lambda>env. meta_name (metadata env)) (kind_where m ns kind keep))"
proof -
  let ?es = "filter (\<lambda>e. key_namespace (fst e) = ns \<and> key_kind (fst e) = kind \<and> keep (snd e))
      (resources m)"
  have "sorted_wrt (<) (map fst ?es)"
    using assms bt_wf_filter by (auto simp: mirror_wf_def bt_wf_def)
  then have "sorted_wrt (\<lambda>a b. fst a < fst b) ?es"
    by (simp add: sorted_wrt_map)
  moreover have "meta_name (metadata (snd a)) < meta_name (metadata (snd b))"
    if "a \<in> set ?es" "b \<in> set ?es" "fst a < fst b" for a b
    using that key_less_name [of "fst a" "fst b"] mirror_wf_key [OF assms, of a]
      mirror_wf_key [OF assms, of b] by auto
  ultimately have "sorted_wrt (\<lambda>a b. meta_name (metadata (snd a)) < meta_name (metadata (snd b))) ?es"
    by (rule sorted_wrt_mono_rel [rotated])
  then show ?thesis
    using assms by (simp add: kind_where_eq mirror_wf_def sorted_wrt_map)
qed

lemma get_upsert:
  assumes "is_dns1123 jc (unwrap_or [] (meta_namespace (metadata env)))"
    and "is_manifest_name jc (env_kind env) (meta_name (metadata env))"
  shows "get (upsert jc env m) ns kind name =
    (if ResourceKey ns kind name = envelope_key env then Some env else get m ns kind name)"
  using assms by (simp add: get_def resources_upsert envelope_key_def bt_simps)

lemma list_kind_eq: "list_kind m ns kind = kind_where m ns kind (\<lambda>_. True)"
  by (simp add: list_kind_def list_page_of_def default_options_def Let_def is_none_or_def)

lemma list_kind_mem:
  "mirror_wf jc m \<Longrightarrow> env \<in> set (list_kind m ns kind) \<longleftrightarrow> (\<exists>name. get m ns kind name = Some env)"
  using mirror_wf_kind_where [of jc m env ns kind "\<lambda>_. True"] by (simp add: list_kind_eq)

lemma get_remove:
  "get (snd (remove (ResourceKey ns kind name) m)) ns' kind' name' =
     (if ns' = ns \<and> kind' = kind \<and> name' = name then None else get m ns' kind' name')"
  by (simp add: get_def remove_def bt_simps)

text \<open>A write or a removal of one kind leaves every other kind's list as it is.\<close>

lemma list_kind_upsert_other:
  assumes "mirror_wf jc m" and "kind \<noteq> env_kind env"
  shows "list_kind (upsert jc env m) ns kind = list_kind m ns kind"
proof -
  have "bt_wf (resources (upsert jc env m))" "bt_wf (resources m)"
    using mirror_wf_upsert [OF assms(1)] assms(1) by (auto simp: mirror_wf_def)
  with assms(2) show ?thesis
    by (simp add: list_kind_eq kind_where_eq resources_upsert filter_bt_insert_other envelope_key_def)
qed

lemma list_kind_remove_other:
  assumes "mirror_wf jc m" and "kind \<noteq> key_kind key"
  shows "list_kind (snd (remove key m)) ns kind = list_kind m ns kind"
proof -
  have "bt_wf (resources (snd (remove key m)))" "bt_wf (resources m)"
    using mirror_wf_remove [OF assms(1)] assms(1) by (auto simp: mirror_wf_def)
  with assms(2) show ?thesis
    by (simp add: list_kind_eq kind_where_eq remove_def filter_bt_remove_other)
qed

text \<open>The rows a list call ranges over before it cuts a page.\<close>

definition rows :: "mirror \<Rightarrow> string \<Rightarrow> string \<Rightarrow> list_options \<Rightarrow> envelope list" where
  "rows m ns kind opts = items (list_page_of m ns kind (opts\<lparr>limit := None\<rparr>))"

lemma page_cut:
  "items (list_page_of m ns kind opts) =
     (case limit opts of None \<Rightarrow> rows m ns kind opts | Some lim \<Rightarrow> take lim (rows m ns kind opts))"
  "next_token (list_page_of m ns kind opts) =
     (case limit opts of
        None \<Rightarrow> None
      | Some lim \<Rightarrow> if lim < length (rows m ns kind opts) \<and> lim > 0
          then Some (meta_name (metadata (last (take lim (rows m ns kind opts))))) else None)"
  "remaining (list_page_of m ns kind opts) =
     (case limit opts of None \<Rightarrow> 0 | Some lim \<Rightarrow> length (rows m ns kind opts) - lim)"
  by (auto simp: list_page_of_def rows_def Let_def split: option.splits)

text \<open>In a strictly ascending list, what is above the last element of a prefix is the rest.\<close>

lemma filter_above_last:
  fixes f :: "'a \<Rightarrow> 'b::linorder"
  assumes "sorted_wrt (<) (map f xs)" and "n < length xs" and "n > 0"
  shows "filter (\<lambda>x. f (last (take n xs)) < f x) xs = drop n xs"
proof -
  have len: "length (take n xs) = n" using assms by simp
  then have last: "last (take n xs) = xs ! (n - 1)"
    using assms by (subst last_conv_nth) auto
  have lower: "\<not> f (xs ! (n - 1)) < f x" if mem: "x \<in> set (take n xs)" for x
  proof -
    obtain i where "i < length (take n xs)" "x = take n xs ! i"
      using mem unfolding in_set_conv_nth by blast
    then have "i < n" "x = xs ! i" by simp_all
    then show ?thesis
      using assms(2) sorted_wrt_nth_less [OF assms(1), of i "n - 1"]
      by (cases "i = n - 1") (auto simp: not_less intro: less_imp_le)
  qed
  have upper: "f (xs ! (n - 1)) < f x" if mem: "x \<in> set (drop n xs)" for x
  proof -
    obtain i where "i < length xs - n" "x = xs ! (n + i)"
      using mem by (auto simp: in_set_conv_nth)
    then show ?thesis
      using assms sorted_wrt_nth_less [OF assms(1), of "n - 1" "n + i"] by auto
  qed
  have "filter (\<lambda>x. f (xs ! (n - 1)) < f x) (take n xs @ drop n xs) = drop n xs"
    using lower upper by (simp add: filter_empty_conv filter_id_conv del: append_take_drop_id)
  then show ?thesis by (simp add: last)
qed

lemma rows_sorted:
  assumes "mirror_wf jc m"
  shows "sorted_wrt (<) (map (\<lambda>env. meta_name (metadata env)) (rows m ns kind opts))"
  using kind_where_names_sorted [OF assms]
  by (auto simp: rows_def list_page_of_def Let_def sorted_wrt_map sorted_wrt_filter
        split: option.splits)

lemma rows_above_token:
  "x \<in> set (rows m ns kind opts) \<Longrightarrow> continue_token opts = Some t \<Longrightarrow> t < meta_name (metadata x)"
  by (simp add: rows_def list_page_of_def Let_def)

lemma rows_after:
  assumes "y \<in> set (rows m ns kind opts)"
  shows "rows m ns kind (opts\<lparr>continue_token := Some (meta_name (metadata y))\<rparr>) =
    filter (\<lambda>x. meta_name (metadata y) < meta_name (metadata x)) (rows m ns kind opts)"
proof (cases "continue_token opts")
  case None
  then show ?thesis by (simp add: rows_def list_page_of_def Let_def)
next
  case (Some t)
  then have "t < meta_name (metadata y)"
    using assms rows_above_token by blast
  then have "filter (\<lambda>x. t < meta_name (metadata x) \<and> meta_name (metadata y) < meta_name (metadata x)) xs =
      filter (\<lambda>x. meta_name (metadata y) < meta_name (metadata x)) xs" for xs :: "envelope list"
    by (intro filter_cong) (auto dest: less_trans)
  then show ?thesis
    using Some by (simp add: rows_def list_page_of_def Let_def)
qed

lemma drain_rows:
  assumes "mirror_wf jc m" and "limit opts = Some lim" and "0 < lim"
    and "length (rows m ns kind opts) < fuel"
  shows "drain fuel m ns kind opts = rows m ns kind opts"
  using assms(2,4)
proof (induction fuel arbitrary: opts)
  case (Suc fuel)
  let ?R = "rows m ns kind opts"
  show ?case
  proof (cases "lim < length ?R")
    case True
    let ?y = "last (take lim ?R)"
    let ?opts = "opts\<lparr>continue_token := Some (meta_name (metadata ?y))\<rparr>"
    have "?y \<in> set ?R"
      using True assms(3) by (metis in_set_takeD last_in_set length_greater_0_conv length_take
          min.absorb4 take_eq_Nil)
    then have next_rows: "rows m ns kind ?opts = drop lim ?R"
      using filter_above_last [OF rows_sorted [OF assms(1)] True assms(3)] by (simp add: rows_after)
    have "drain fuel m ns kind ?opts = drop lim ?R"
      using Suc True next_rows assms(3) by (subst Suc.IH) auto
    with True Suc.prems(1) assms(3) show ?thesis
      by (simp add: page_cut Let_def)
  next
    case False
    with Suc.prems(1) show ?thesis by (simp add: page_cut Let_def)
  qed
qed simp

lemma set_dedup [simp]: "set (dedup xs) = set xs"
  by (induction xs rule: dedup.induct) auto

lemma dedup_hd: "xs \<noteq> [] \<Longrightarrow> dedup xs \<noteq> [] \<and> hd (dedup xs) = hd xs"
  by (induction xs rule: dedup.induct) auto

lemma dedup_sorted: "sorted (xs :: 'a::linorder list) \<Longrightarrow> sorted_wrt (<) (dedup xs)"
proof (induction xs rule: dedup.induct)
  case (3 x y xs)
  then show ?case by (auto simp: order.strict_iff_order)
qed auto

lemma namespaces_sorted:
  assumes "bt_wf (resources m)"
  shows "sorted (map (\<lambda>e. key_namespace (fst e)) (resources m))"
proof -
  have "sorted_wrt (\<lambda>a b. fst a < fst b) (resources m)"
    using assms by (simp add: bt_wf_def sorted_wrt_map)
  then have "sorted_wrt (\<lambda>a b. key_namespace (fst a) \<le> key_namespace (fst b)) (resources m)"
    by (rule sorted_wrt_mono_rel [rotated])
       (metis less_imp_le order_refl resource_key.collapse resource_key_less_iff)
  then show ?thesis by (simp add: sorted_map)
qed

lemma demo_mirror_reachable: "mirror_reachable demo_names demo_mirror"
  unfolding demo_mirror_def fold.simps o_def id_def
  by (intro mirror_reachable.upsert_step mirror_reachable.start)

lemma demo_mirror_wf: "mirror_wf demo_names demo_mirror"
  by (rule mirror_reachable_wf [OF demo_mirror_reachable])

lemma demo_mirror_get:
  "get demo_mirror ''transport'' ''Pipeline'' ''bikes'' =
     Some (demo_env ''transport'' ''Pipeline'' ''bikes'' JNull)"
  by code_simp

subsection \<open>Properties\<close>

text \<open>Property C21. Whatever the sync and the writes do, the mirror never holds a resource under
  a namespace or a name the platform does not accept, and always under its own key.\<close>

theorem mirror_holds_only_valid_names:
  assumes "mirror_reachable jc m" and "get m ns kind name = Some env"
  shows "is_dns1123 jc ns \<and> is_manifest_name jc kind name \<and> envelope_key env = ResourceKey ns kind name"
proof -
  have "mirror_wf jc m" using assms(1) by (rule mirror_reachable_wf)
  moreover from this have "(ResourceKey ns kind name, env) \<in> set (resources m)"
    using assms(2) mirror_get_mem by blast
  ultimately show ?thesis by (auto dest: mirror_wf_entry)
qed

theorem mirror_holds_only_valid_names_witness:
  "is_dns1123 demo_names ''transport'' \<and> is_manifest_name demo_names ''Pipeline'' ''bikes'' \<and>
   envelope_key (demo_env ''transport'' ''Pipeline'' ''bikes'' JNull) =
     ResourceKey ''transport'' ''Pipeline'' ''bikes''"
  by (rule mirror_holds_only_valid_names [OF demo_mirror_reachable demo_mirror_get])

text \<open>Reading one key range is the same as filtering the whole mirror: the range
  scan finds exactly the resources of the namespace and kind that the predicate accepts, each
  once, ordered by name.\<close>

theorem kind_where_range_scan:
  assumes "mirror_wf jc m"
  shows "(env \<in> set (kind_where m ns kind keep) \<longleftrightarrow>
      keep env \<and> (\<exists>name. get m ns kind name = Some env)) \<and>
    sorted_wrt (<) (map (\<lambda>e. meta_name (metadata e)) (kind_where m ns kind keep))"
  using mirror_wf_kind_where [OF assms] kind_where_names_sorted [OF assms] by blast

theorem kind_where_range_scan_witness:
  "demo_env ''transport'' ''Pipeline'' ''bikes'' JNull
     \<in> set (kind_where demo_mirror ''transport'' ''Pipeline'' (\<lambda>_. True))"
  using kind_where_range_scan [OF demo_mirror_wf, of _ "''transport''" "''Pipeline''" "\<lambda>_. True"]
    demo_mirror_get by blast

text \<open>Property C22. Following the continue tokens page by page, with any positive limit, returns
  every row of the listing once, in order, and nothing else; as many page reads as there are
  rows plus one are enough.\<close>

theorem drain_lists_every_row:
  assumes "mirror_wf jc m" and "limit opts = Some lim" and "0 < lim"
  shows "drain (Suc (length (rows m ns kind opts))) m ns kind opts = rows m ns kind opts"
  using drain_rows [OF assms] by blast

theorem drain_lists_every_row_witness:
  "map (\<lambda>e. meta_name (metadata e))
     (drain 4 demo_mirror ''transport'' ''Pipeline'' (default_options\<lparr>limit := Some 2\<rparr>)) =
   [''bikes'', ''buses'', ''ferries'']"
proof -
  have rows: "map (\<lambda>e. meta_name (metadata e))
      (rows demo_mirror ''transport'' ''Pipeline'' (default_options\<lparr>limit := Some 2\<rparr>)) =
    [''bikes'', ''buses'', ''ferries'']" by code_simp
  from arg_cong [OF this, of length]
  have "length (rows demo_mirror ''transport'' ''Pipeline''
      (default_options\<lparr>limit := Some 2\<rparr>)) = 3" by simp
  with rows drain_lists_every_row [OF demo_mirror_wf,
      of "default_options\<lparr>limit := Some 2\<rparr>" 2 "''transport''" "''Pipeline''"]
  show ?thesis by simp
qed

text \<open>An accepted manifest is read back by its key and changes no other key; a
  refused one changes nothing.\<close>

theorem upsert_then_get:
  "get (upsert jc env m) ns kind name =
     (if is_dns1123 jc (unwrap_or [] (meta_namespace (metadata env))) \<and>
         is_manifest_name jc (env_kind env) (meta_name (metadata env)) \<and>
         ResourceKey ns kind name = envelope_key env
      then Some env else get m ns kind name)"
  by (simp add: get_def resources_upsert envelope_key_def bt_simps)

text \<open>The projects of a mirror are listed in order, each once, and are exactly the
  non-empty namespaces other than the organization's that hold a resource.\<close>

theorem namespaces_exact:
  assumes "mirror_wf jc m"
  shows "sorted_wrt (<) (namespaces m) \<and>
    (ns \<in> set (namespaces m) \<longleftrightarrow>
       ns \<noteq> [] \<and> ns \<noteq> ORG_NAMESPACE \<and> (\<exists>kind name env. get m ns kind name = Some env))"
proof -
  have wf: "bt_wf (resources m)" using assms by (simp add: mirror_wf_def)
  have "sorted_wrt (<) (namespaces m)"
    unfolding namespaces_def
    by (intro dedup_sorted sorted_wrt_filter namespaces_sorted [OF wf])
  moreover have "(\<exists>e \<in> set (resources m). key_namespace (fst e) = ns) \<longleftrightarrow>
      (\<exists>kind name env. get m ns kind name = Some env)"
    unfolding mirror_get_mem [OF assms] by (metis fst_conv resource_key.collapse resource_key.sel(1) surj_pair)
  ultimately show ?thesis
    by (auto simp: namespaces_def)
qed

theorem namespaces_exact_witness:
  "''transport'' \<in> set (namespaces demo_mirror)"
  using namespaces_exact [OF demo_mirror_wf, of "''transport''"] demo_mirror_get
  by (auto simp: ORG_NAMESPACE_def)

end
