(* ===== verification/Identity.thy ===== *)
theory Identity
  imports Store
begin

text \<open>
  Who a caller is and which subjects of a manifest name them: the \<open>Identity\<close> of
  \<open>src/auth/session.rs\<close> and the matchers of \<open>src/permissions.rs\<close>, with the jc-core access
  types the rest of the access model is written over.

  jc-core is outside this repository. Its structs are records of the members this code reads;
  \<open>Constraint\<close> and \<open>Rule\<close> are complete, since the code builds them by struct literals, and
  the members of a service account's grant the code only compares are kept in \<open>gr_other\<close>. Its
  functions are the record \<open>jc_core\<close>, a parameter of every definition that uses one: whether a
  rule grants a verb on a kind, whether a constraint holds for a text, windows, the typed reading
  of a JSON \<open>spec\<close>, the Keycloak client id of an account and \<open>regex::escape\<close>. Instants
  are integers.
\<close>

subsection \<open>Definitions\<close>

datatype verb = Read | Propose | Approve | Delete

record constraint =
  c_field :: string
  c_one_of :: "string list"
  c_not_in :: "string list"
  c_equals :: "string option"
  c_pattern :: "string option"

record rule =
  r_kinds :: "string list"
  r_verbs :: "verb list"
  r_constraints :: "constraint list"

record role_spec =
  rs_rules :: "rule list"

record subject =
  sb_user :: "string option"
  sb_group :: "string option"

record validity =
  not_before :: "int option"
  not_after :: "int option"

record role_scope =
  sc_organization :: "string option"
  sc_project :: "string option"
  sc_context_space :: "string option"

record binding_spec =
  b_subjects :: "subject list"
  b_role :: string
  b_scope :: role_scope
  b_validity :: "validity option"

record granted_role =
  gr_role :: string
  gr_scope :: role_scope
  gr_validity :: "validity option"
  gr_other :: json

record account_spec =
  a_roles :: "granted_role list"

record jc_core =
  jc_names :: jc_names
  rule_grants :: "rule \<Rightarrow> string \<Rightarrow> verb \<Rightarrow> bool"
  constraint_holds :: "constraint \<Rightarrow> string option \<Rightarrow> bool"
  validity_contains :: "validity \<Rightarrow> int \<Rightarrow> bool"
  granted_in_force :: "granted_role \<Rightarrow> int \<Rightarrow> bool"
  parse_role :: "json \<Rightarrow> string + role_spec"
  parse_binding :: "json \<Rightarrow> string + binding_spec"
  parse_account :: "json \<Rightarrow> string + account_spec"
  parse_group :: "json \<Rightarrow> string + string list"
  keycloak_client_id :: "string \<Rightarrow> string \<Rightarrow> string"
  verb_as_str :: "verb \<Rightarrow> string"
  regex_escape :: "string \<Rightarrow> string"

record identity =
  id_subject :: string
  id_username :: string
  id_email :: "string option"
  id_name :: "string option"
  id_roles :: "string list"
  id_groups :: "string list"
  id_client :: "string option"
  id_second_factor :: bool

definition in_group :: "identity \<Rightarrow> string \<Rightarrow> bool" where
  "in_group identity grp \<longleftrightarrow>
     list_ex (\<lambda>g. g = grp) (id_groups identity) \<or> list_ex (\<lambda>r. r = grp) (id_roles identity)"

definition is_hex_lower :: "char \<Rightarrow> bool" where
  "is_hex_lower b \<longleftrightarrow> is_ascii_digit b \<or> b \<in> set ''abcdef''"

definition is_person_id :: "string \<Rightarrow> bool" where
  "is_person_id value =
     (let groups = str_split (CHR ''-'') value in
      length groups = 5 \<and>
      list_all (\<lambda>(g, len). length g = len \<and> list_all is_hex_lower g)
        (zip groups [8, 4, 4, 4, 12]))"

definition names :: "identity \<Rightarrow> string option \<Rightarrow> string option \<Rightarrow> bool" where
  "names identity user grp =
     (case user of
        Some u \<Rightarrow>
          if is_person_id u then id_subject identity = u
          else is_some_and (\<lambda>e. eq_ignore_ascii_case e u) (id_email identity) \<or>
               eq_ignore_ascii_case (id_username identity) u \<or> id_subject identity = u
      | None \<Rightarrow> is_some_and (in_group identity) grp)"

definition is_subject :: "identity \<Rightarrow> subject \<Rightarrow> bool" where
  "is_subject identity s = names identity (sb_user s) (sb_group s)"

definition names_user :: "identity \<Rightarrow> string \<Rightarrow> bool" where
  "names_user identity user = names identity (Some user) None"

definition names_caller :: "identity \<Rightarrow> json \<Rightarrow> bool" where
  "names_caller identity spec =
     is_some_and (list_ex (\<lambda>s. names identity (get_str ''user'' s) (get_str ''group'' s)))
       (get_array ''subjects'' spec)"

definition spec_space :: "json \<Rightarrow> string option" where
  "spec_space spec =
     (case jget ''contextSpaceRef'' spec of
        None \<Rightarrow> None
      | Some value \<Rightarrow> or_else (as_str value) (get_str ''name'' value))"

definition space_ref :: "json \<Rightarrow> string option" where
  "space_ref target = Option.bind (jget ''spec'' target) spec_space"

definition lives_in_space :: "string \<Rightarrow> bool" where
  "lives_in_space kind \<longleftrightarrow>
     kind \<in> {''ContextSpace'', ''Endpoint'', ''Policy'', ''Subscription'',
       ''ContextSourceRegistration'', ''DataModel'', ''Mapping'', ''ModelProjection'', ''DataOffer''}"

fun walk :: "json \<Rightarrow> string list \<Rightarrow> json option" where
  "walk cursor [] = Some cursor"
| "walk cursor (segment # segments) =
     (case jget segment cursor of None \<Rightarrow> None | Some next \<Rightarrow> walk next segments)"

definition field_text :: "json option \<Rightarrow> string \<Rightarrow> string option" where
  "field_text target path =
     (case target of
        None \<Rightarrow> None
      | Some t \<Rightarrow>
          (case walk t (str_split (CHR ''.'') path) of
             Some (JString s) \<Rightarrow> Some s
           | Some (JNumber n) \<Rightarrow> Some n
           | Some (JBool b) \<Rightarrow> Some (if b then ''true'' else ''false'')
           | _ \<Rightarrow> None))"

definition satisfied :: "jc_core \<Rightarrow> constraint \<Rightarrow> json option \<Rightarrow> bool" where
  "satisfied jc c target = constraint_holds jc c (field_text target (c_field c))"

definition writes_status_only :: "rule \<Rightarrow> bool" where
  "writes_status_only r = list_ex (\<lambda>c. c_field c = ''status.build'') (r_constraints r)"

definition describe :: "constraint \<Rightarrow> string" where
  "describe c =
     (case c_equals c of
        Some expected \<Rightarrow> ''must equal '' @ expected
      | None \<Rightarrow>
          (case c_pattern c of
             Some pattern \<Rightarrow> ''must match '' @ pattern
           | None \<Rightarrow>
               if c_one_of c \<noteq> [] then ''must be one of '' @ str_join '', '' (c_one_of c)
               else ''must not be one of '' @ str_join '', '' (c_not_in c)))"

definition verb_name :: "jc_core \<Rightarrow> verb \<Rightarrow> string" where
  "verb_name jc v = verb_as_str jc v"

subsection \<open>Lemmas\<close>

lemma is_person_id_length: "is_person_id v \<Longrightarrow> v \<noteq> []"
  by (auto simp: is_person_id_def Let_def)

text \<open>What serde promises of a parsed binding: its subjects are the members of the array.\<close>

definition binding_reads_subjects :: "jc_core \<Rightarrow> bool" where
  "binding_reads_subjects jc \<longleftrightarrow>
     (\<forall>spec b. parse_binding jc spec = Inr b \<longrightarrow>
        (\<exists>js. get_array ''subjects'' spec = Some js \<and>
           map (\<lambda>j. (get_str ''user'' j, get_str ''group'' j)) js =
           map (\<lambda>s. (sb_user s, sb_group s)) (b_subjects b)))"

lemma names_caller_parsed:
  assumes "binding_reads_subjects jc" and "parse_binding jc spec = Inr b"
  shows "names_caller identity spec = list_ex (is_subject identity) (b_subjects b)"
proof -
  obtain js where js: "get_array ''subjects'' spec = Some js"
    "map (\<lambda>j. (get_str ''user'' j, get_str ''group'' j)) js =
       map (\<lambda>s. (sb_user s, sb_group s)) (b_subjects b)"
    using assms unfolding binding_reads_subjects_def by blast
  have "list_ex (\<lambda>s. names identity (get_str ''user'' s) (get_str ''group'' s)) js =
      list_ex (\<lambda>(u, g). names identity u g) (map (\<lambda>j. (get_str ''user'' j, get_str ''group'' j)) js)"
    by (simp add: list_ex_iff)
  also have "\<dots> = list_ex (is_subject identity) (b_subjects b)"
    unfolding js(2) by (simp add: list_ex_iff is_subject_def)
  finally show ?thesis
    by (simp add: names_caller_def js(1) is_some_and_def)
qed

subsection \<open>Properties\<close>

text \<open>A Keycloak person id matches the token's subject and nothing else: neither a
  username, an e-mail address nor a group that spells somebody's id is that person.\<close>

theorem person_id_names_only_its_subject:
  assumes "is_person_id user"
  shows "names identity (Some user) grp \<longleftrightarrow> id_subject identity = user"
  using assms by (simp add: names_def)

theorem person_id_names_only_its_subject_witness:
  "\<not> names \<lparr>id_subject = ''other'', id_username = ''2f1c6b1e-7a4d-4c55-9e0e-3b8f1a2d4c6e'',
       id_email = Some ''2f1c6b1e-7a4d-4c55-9e0e-3b8f1a2d4c6e'', id_name = None, id_roles = [],
       id_groups = [''2f1c6b1e-7a4d-4c55-9e0e-3b8f1a2d4c6e''], id_client = None,
       id_second_factor = False\<rparr>
     (Some ''2f1c6b1e-7a4d-4c55-9e0e-3b8f1a2d4c6e'') None"
proof -
  have "is_person_id ''2f1c6b1e-7a4d-4c55-9e0e-3b8f1a2d4c6e''" by code_simp
  from person_id_names_only_its_subject [OF this] show ?thesis by simp
qed

end
