(* ===== verification/Organizations.thy ===== *)
theory Organizations
  imports Identity
begin

text \<open>
  Organizations, projects, spaces and roles as the mirror holds them, and where a binding applies:
  the first half of \<open>src/permissions.rs\<close> (\<open>Reach\<close>, \<open>organizations\<close> to
  \<open>organization_reaches\<close>, \<open>roles\<close>, \<open>project_of_space\<close>, \<open>role_of\<close>).
\<close>

subsection \<open>Definitions\<close>

datatype reach = ReachOrganization string | ReachProject string | ReachSpace string

definition reach_name :: "reach \<Rightarrow> string" where
  "reach_name r =
     (case r of
        ReachOrganization _ \<Rightarrow> ''organization''
      | ReachProject project \<Rightarrow> ''project:'' @ project
      | ReachSpace space \<Rightarrow> ''contextSpace:'' @ space)"

definition reach_of :: "role_scope \<Rightarrow> reach option" where
  "reach_of scope =
     (case (sc_organization scope, sc_project scope, sc_context_space scope) of
        (Some org, _, _) \<Rightarrow> Some (ReachOrganization org)
      | (_, Some project, _) \<Rightarrow> Some (ReachProject project)
      | (_, _, Some space) \<Rightarrow> Some (ReachSpace space)
      | _ \<Rightarrow> None)"

definition organizations :: "mirror \<Rightarrow> (string \<times> json) list" where
  "organizations m =
     map (\<lambda>env. (meta_name (metadata env), env_spec env)) (list_kind m ORG_NAMESPACE ''Organization'')"

definition several_organizations :: "mirror \<Rightarrow> bool" where
  "several_organizations m \<longleftrightarrow> length (organizations m) > 1"

definition installation_organization :: "mirror \<Rightarrow> string option" where
  "installation_organization m =
     (case organizations m of
        [(only, _)] \<Rightarrow> Some only
      | everyone \<Rightarrow>
          (case filter (\<lambda>(_, spec). jget ''installation'' spec = Some (JBool True)) everyone of
             [(one, _)] \<Rightarrow> Some one
           | _ \<Rightarrow> None))"

definition organization_of :: "mirror \<Rightarrow> string \<Rightarrow> string option" where
  "organization_of m project =
     or_else
       (Option.bind (get m ORG_NAMESPACE ''Project'' project)
          (\<lambda>env. Option.bind (jget ''organizationRef'' (env_spec env)) reference_name))
       (installation_organization m)"

definition organization_manifest_of :: "mirror \<Rightarrow> string \<Rightarrow> envelope option" where
  "organization_manifest_of m project =
     Option.bind (organization_of m project) (get m ORG_NAMESPACE ''Organization'')"

definition installation_organization_manifest :: "mirror \<Rightarrow> envelope option" where
  "installation_organization_manifest m =
     Option.bind (installation_organization m) (get m ORG_NAMESPACE ''Organization'')"

definition organization_reaches :: "mirror \<Rightarrow> string \<Rightarrow> string \<Rightarrow> bool" where
  "organization_reaches m org project =
     (if length (organizations m) \<le> 1 then True
      else
        let owner = (if project = ORG_NAMESPACE \<or> project = [] then installation_organization m
                     else organization_of m project)
        in owner = Some org)"

definition project_of_space :: "mirror \<Rightarrow> string \<Rightarrow> string option" where
  "project_of_space m space =
     (let holders = List.map_filter (\<lambda>env. meta_namespace (metadata env))
            (matching m (\<lambda>env. env_kind env = ''ContextSpace'' \<and> meta_name (metadata env) = space))
      in (case dedup (sort holders) of
            [project] \<Rightarrow> Some project
          | _ \<Rightarrow> None))"

fun covers :: "mirror \<Rightarrow> reach \<Rightarrow> reach \<Rightarrow> bool" where
  "covers m (ReachOrganization held) (ReachOrganization wanted) =
     (held = wanted \<or> organization_reaches m held ORG_NAMESPACE)"
| "covers m (ReachOrganization held) (ReachProject project) = organization_reaches m held project"
| "covers m (ReachOrganization held) (ReachSpace space) =
     is_some_and (\<lambda>project. organization_reaches m held project) (project_of_space m space)"
| "covers m (ReachProject held) (ReachProject wanted) = (held = wanted)"
| "covers m (ReachProject held) (ReachSpace space) = (get m held ''ContextSpace'' space \<noteq> None)"
| "covers m (ReachSpace held) (ReachSpace wanted) = (held = wanted)"
| "covers m _ _ = False"

definition roles :: "jc_core \<Rightarrow> mirror \<Rightarrow> string \<Rightarrow> (string \<times> role_spec) list" where
  "roles jc m ns =
     List.map_filter (\<lambda>env.
       (case parse_role jc (env_spec env) of
          Inr spec \<Rightarrow> Some (meta_name (metadata env), spec)
        | Inl _ \<Rightarrow> None)) (list_kind m ns ''Role'')"

definition binding_project :: "jc_core \<Rightarrow> mirror \<Rightarrow> json \<Rightarrow> string option" where
  "binding_project jc m spec =
     (case parse_binding jc spec of
        Inl _ \<Rightarrow> None
      | Inr b \<Rightarrow>
          (case reach_of (b_scope b) of
             None \<Rightarrow> None
           | Some (ReachProject project) \<Rightarrow> Some project
           | Some (ReachSpace space) \<Rightarrow> project_of_space m space
           | Some (ReachOrganization _) \<Rightarrow> None))"

definition role_of ::
    "jc_core \<Rightarrow> mirror \<Rightarrow> (string \<times> role_spec) list \<Rightarrow> reach \<Rightarrow> string \<Rightarrow>
     (string \<times> role_spec) option" where
  "role_of jc m organization reach name =
     (case List.find (\<lambda>(role, _). role = name) organization of
        Some found \<Rightarrow> Some found
      | None \<Rightarrow>
          (let project = (case reach of
                            ReachOrganization _ \<Rightarrow> None
                          | ReachProject project \<Rightarrow> Some project
                          | ReachSpace space \<Rightarrow> project_of_space m space)
           in Option.bind project (\<lambda>p. List.find (\<lambda>(role, _). role = name) (roles jc m p))))"

text \<open>Two Organizations, a project of the second and its space, for the witnesses.\<close>

definition demo_two_orgs :: mirror where
  "demo_two_orgs =
     fold (upsert demo_names)
       [demo_env ''org'' ''Organization'' ''helsinki'' (JObject [(''installation'', JBool True)]),
        demo_env ''org'' ''Organization'' ''espoo'' (JObject []),
        demo_env ''org'' ''Project'' ''bikes'' (JObject [(''organizationRef'', JString ''espoo'')]),
        demo_env ''bikes'' ''ContextSpace'' ''stations'' (JObject [])] new_mirror"

subsection \<open>Lemmas\<close>

lemma organization_reaches_owner:
  assumes "several_organizations m" and "project \<noteq> ORG_NAMESPACE" and "project \<noteq> []"
  shows "organization_reaches m org project \<longleftrightarrow> organization_of m project = Some org"
  using assms by (simp add: organization_reaches_def several_organizations_def)

lemma organization_reaches_installation:
  "several_organizations m \<Longrightarrow>
   organization_reaches m org ORG_NAMESPACE \<longleftrightarrow> installation_organization m = Some org"
  by (simp add: organization_reaches_def several_organizations_def)

lemma organization_reaches_unique:
  assumes "several_organizations m" and "organization_reaches m a project"
    and "organization_reaches m b project"
  shows "a = b"
  using assms by (auto simp: organization_reaches_def several_organizations_def Let_def split: if_splits)

lemma project_of_space_holders:
  assumes "project_of_space m space = Some project" and "(key, env) \<in> set (resources m)"
    and "env_kind env = ''ContextSpace''" and "meta_name (metadata env) = space"
    and "meta_namespace (metadata env) = Some ns"
  shows "ns = project"
proof -
  let ?hs = "List.map_filter (\<lambda>env. meta_namespace (metadata env))
      (matching m (\<lambda>env. env_kind env = ''ContextSpace'' \<and> meta_name (metadata env) = space))"
  have "ns \<in> set ?hs"
    using assms(2-5) by (force simp: map_filter_Some_iff matching_def)
  then have "ns \<in> set (dedup (sort ?hs))" by simp
  moreover have "dedup (sort ?hs) = [project]"
    using assms(1) by (auto simp: project_of_space_def Let_def split: list.splits)
  ultimately show ?thesis by simp
qed

lemma role_of_name: "role_of jc m organization r name = Some (found, spec) \<Longrightarrow> found = name"
  by (auto simp: role_of_def Let_def bind_eq_Some_conv split: option.splits dest!: find_Some_in)

text \<open>A role an organization binding reaches is one of the organization's own.\<close>

lemma role_of_organization_reach:
  "role_of jc m organization (ReachOrganization org) name = Some r \<Longrightarrow> r \<in> set organization"
  by (auto simp: role_of_def split: option.splits dest: find_Some_in)

subsection \<open>Properties\<close>

text \<open>With several Organizations every place has at most one: no two Organizations
  reach the same project, nor the installation's own namespace, so a binding of one Organization
  never applies where another one's does.\<close>

theorem organizations_are_disjoint:
  assumes "several_organizations m" and "a \<noteq> b"
  shows "\<not> (organization_reaches m a project \<and> organization_reaches m b project)"
  using assms organization_reaches_unique by blast

text \<open>A space name held by two projects applies nowhere: when a binding to a space
  applies in some project, every manifest of that space name lives in that project.\<close>

theorem space_binding_has_one_project:
  assumes "project_of_space m space = Some project"
    and "env \<in> set (matching m (\<lambda>e. env_kind e = ''ContextSpace'' \<and> meta_name (metadata e) = space))"
  shows "meta_namespace (metadata env) \<in> {None, Some project}"
  using assms project_of_space_holders [OF assms(1)]
  by (cases "meta_namespace (metadata env)") (auto simp: matching_def)

lemma demo_two_orgs_several: "several_organizations demo_two_orgs"
  by code_simp

theorem organizations_are_disjoint_witness:
  "organization_reaches demo_two_orgs ''espoo'' ''bikes'' \<and>
   \<not> organization_reaches demo_two_orgs ''helsinki'' ''bikes''"
proof -
  have "organization_reaches demo_two_orgs ''espoo'' ''bikes''" by code_simp
  with organizations_are_disjoint [OF demo_two_orgs_several, of "''espoo''" "''helsinki''" "''bikes''"]
  show ?thesis by simp
qed

theorem space_binding_has_one_project_witness:
  "meta_namespace (metadata (demo_env ''bikes'' ''ContextSpace'' ''stations'' (JObject [])))
     \<in> {None, Some ''bikes''}"
proof (rule space_binding_has_one_project)
  show "project_of_space demo_two_orgs ''stations'' = Some ''bikes''" by code_simp
  show "demo_env ''bikes'' ''ContextSpace'' ''stations'' (JObject []) \<in>
      set (matching demo_two_orgs
        (\<lambda>e. env_kind e = ''ContextSpace'' \<and> meta_name (metadata e) = ''stations''))" by code_simp
qed

end
