(* ===== verification/Grants.thy ===== *)
theory Grants
  imports Organizations
begin

text \<open>
  The rules in force for a caller: \<open>in_force\<close>, \<open>account_grants\<close>, \<open>narrowed_to_own_settings\<close>
  and \<open>effective\<close> of \<open>src/permissions.rs\<close>.

  \<open>AppState\<close> contributes the mirror and the bootstrap group, passed on their own; \<open>Utc::now()\<close>
  is the argument \<open>now\<close>. The map \<open>home\<close> of \<open>effective\<close> only remembers
  \<open>project_of_space\<close> between rules and is left out. The field \<open>projects\<close> of \<open>Effective\<close> is
  filled by the route and is always \<open>None\<close> here.
\<close>

subsection \<open>Definitions\<close>

record grant =
  g_role :: string
  g_binding :: string
  g_scope :: string
  g_space :: "string option"
  g_organization :: "string option"
  g_rule :: rule

record effective =
  e_project :: string
  e_bootstrap :: bool
  e_grants :: "grant list"

definition one_of :: "string \<Rightarrow> string list \<Rightarrow> constraint" where
  "one_of field values =
     \<lparr>c_field = field, c_one_of = values, c_not_in = [], c_equals = None, c_pattern = None\<rparr>"

definition none_of :: "string \<Rightarrow> string list \<Rightarrow> constraint" where
  "none_of field values = (one_of field [])\<lparr>c_one_of := [], c_not_in := values\<rparr>"

definition policy_groups :: "json \<Rightarrow> string list" where
  "policy_groups spec =
     List.map_filter (get_str ''id'')
       (filter (\<lambda>assignee. get_str ''kind'' assignee = Some ''group'')
         (List.map_filter (jget ''assignee'') (spec # unwrap_or [] (get_array ''rules'' spec))))"

definition app_groups :: "json \<Rightarrow> string list" where
  "app_groups spec =
     List.map_filter (get_str ''group'')
       (concat (List.map_filter (get_array ''subjects'') (unwrap_or [] (get_array ''access'' spec))))"

definition APP_LABEL :: string where
  "APP_LABEL = ''joinedcontext.com/app''"

definition OWN_SETTINGS_KINDS :: "string list" where
  "OWN_SETTINGS_KINDS = [''Organization'', ''RoleBinding'', ''Group'']"

text \<open>The groups whose members decide access outside \<open>org\<close>: those a binding, a Policy or an App
  outside it names, and every App's default group.\<close>

definition outside :: "mirror \<Rightarrow> string \<Rightarrow> envelope \<Rightarrow> bool" where
  "outside m org env =
     (\<not> is_some_and (\<lambda>project. organization_reaches m org project) (meta_namespace (metadata env)))"

definition groups_elsewhere :: "jc_core \<Rightarrow> mirror \<Rightarrow> string \<Rightarrow> string list" where
  "groups_elsewhere jc m org =
     bt_set
       (concat (List.map_filter (\<lambda>env.
          (case parse_binding jc (env_spec env) of
             Inl _ \<Rightarrow> None
           | Inr b \<Rightarrow>
               if is_none_or (\<lambda>r. \<not> covers m (ReachOrganization org) r) (reach_of (b_scope b))
               then Some (List.map_filter sb_group (b_subjects b)) else None))
          (list_kind m ORG_NAMESPACE ''RoleBinding'')) @
        concat (map (\<lambda>env. policy_groups (env_spec env))
          (matching m (\<lambda>env. env_kind env = ''Policy'' \<and> outside m org env))) @
        concat (map (\<lambda>env. app_groups (env_spec env))
          (matching m (\<lambda>env. env_kind env = ''App'' \<and> outside m org env))) @
        map (\<lambda>env. meta_name (metadata env))
          (filter (\<lambda>env. bt_get (meta_annotations (metadata env)) APP_LABEL \<noteq> None)
            (list_kind m ORG_NAMESPACE ''Group'')))"

text \<open>The closure \<open>push\<close>: one narrowed grant, or none when no verb is left.\<close>

definition push_narrowed ::
    "string \<Rightarrow> grant \<Rightarrow> string \<Rightarrow> verb list \<Rightarrow> constraint list \<Rightarrow> grant list" where
  "push_narrowed org g kind verbs extra =
     (if verbs = [] then []
      else [g\<lparr>g_organization := Some org,
              g_rule := \<lparr>r_kinds = [kind], r_verbs = verbs,
                         r_constraints = r_constraints (g_rule g) @ extra\<rparr>\<rparr>])"

definition own_projects :: "mirror \<Rightarrow> string \<Rightarrow> string list" where
  "own_projects m org =
     filter (\<lambda>project. organization_reaches m org project)
       (map (\<lambda>env. meta_name (metadata env)) (list_kind m ORG_NAMESPACE ''Project''))"

definition own_spaces :: "mirror \<Rightarrow> string \<Rightarrow> string list" where
  "own_spaces m org =
     filter (\<lambda>space. covers m (ReachOrganization org) (ReachSpace space))
       (map (\<lambda>env. meta_name (metadata env))
         (matching m (\<lambda>env. env_kind env = ''ContextSpace'' \<and>
            is_some_and (\<lambda>ns. ns \<in> set (own_projects m org)) (meta_namespace (metadata env)))))"

definition narrowed_bindings :: "mirror \<Rightarrow> string \<Rightarrow> grant \<Rightarrow> grant list" where
  "narrowed_bindings m org g =
     (let projects = own_projects m org;
          others = filter (\<lambda>name. name \<noteq> org) (map fst (organizations m));
          foreign_projects = filter (\<lambda>project. project \<notin> set projects)
            (map (\<lambda>env. meta_name (metadata env)) (list_kind m ORG_NAMESPACE ''Project''));
          scopes = [(''spec.scope.organization'', [org]), (''spec.scope.project'', projects),
                    (''spec.scope.contextSpace'', own_spaces m org)]
      in concat (map (\<lambda>(field, values).
           if values \<noteq> [] then
             push_narrowed org g ''RoleBinding'' (r_verbs (g_rule g))
               [one_of field values, none_of ''spec.scope.organization'' others,
                none_of ''spec.scope.project'' foreign_projects]
           else []) scopes))"

definition narrowed_to_own_settings :: "jc_core \<Rightarrow> mirror \<Rightarrow> string \<Rightarrow> grant \<Rightarrow> grant list" where
  "narrowed_to_own_settings jc m org g =
     (if get m ORG_NAMESPACE ''Organization'' org = None then []
      else concat (map (\<lambda>kind.
        if kind \<notin> set (r_kinds (g_rule g)) then []
        else if kind = ''Organization'' then
          push_narrowed org g kind (filter (\<lambda>v. v \<noteq> Delete) (r_verbs (g_rule g)))
            [one_of ''metadata.name'' [org], none_of ''spec.installation'' [''true'']]
        else if kind = ''RoleBinding'' then narrowed_bindings m org g
        else
          push_narrowed org g kind (r_verbs (g_rule g))
            [(one_of ''metadata.name'' [])\<lparr>c_pattern := Some (regex_escape jc org @ ''-.+'')\<rparr>,
             none_of ''metadata.name'' (groups_elsewhere jc m org)])
        OWN_SETTINGS_KINDS))"

definition without_organization_kinds ::
    "jc_core \<Rightarrow> mirror \<Rightarrow> string \<Rightarrow> grant list \<Rightarrow> grant list" where
  "without_organization_kinds jc m project grants =
     (if project = ORG_NAMESPACE \<or> length (organizations m) \<le> 1 \<or>
         organization_of m project = installation_organization m
      then grants
      else List.map_filter (\<lambda>g.
        (let ks = filter (\<lambda>kind. \<not> belongs_to_the_organization (jc_names jc) kind (Some project))
                    (r_kinds (g_rule g))
         in if ks \<noteq> [] then Some (g\<lparr>g_rule := (g_rule g)\<lparr>r_kinds := ks\<rparr>\<rparr>) else None)) grants)"

definition account_of :: "jc_core \<Rightarrow> mirror \<Rightarrow> identity \<Rightarrow> (string \<times> account_spec) option" where
  "account_of jc m identity =
     (case id_client identity of
        None \<Rightarrow> None
      | Some client \<Rightarrow>
          if \<not> eq_ignore_ascii_case (id_username identity) (''service-account-'' @ client) then None
          else
            (case concat (map (\<lambda>ns.
                    filter (\<lambda>env. keycloak_client_id jc ns (meta_name (metadata env)) = client)
                      (list_kind m ns ''ServiceAccount'')) (namespaces m)) of
               [env] \<Rightarrow>
                 (case parse_account jc (env_spec env) of
                    Inr spec \<Rightarrow> Some (meta_name (metadata env), spec)
                  | Inl _ \<Rightarrow> None)
             | _ \<Rightarrow> None))"

definition is_service_account :: "jc_core \<Rightarrow> mirror \<Rightarrow> identity \<Rightarrow> bool" where
  "is_service_account jc m identity \<longleftrightarrow> account_of jc m identity \<noteq> None"

definition account_holds_portal_role :: "jc_core \<Rightarrow> mirror \<Rightarrow> account_spec \<Rightarrow> bool" where
  "account_holds_portal_role jc m spec =
     (let organization = roles jc m ORG_NAMESPACE
      in list_ex (\<lambda>granted.
           is_some_and (\<lambda>r. role_of jc m organization r (gr_role granted) \<noteq> None)
             (reach_of (gr_scope granted))) (a_roles spec))"

definition account_rule :: "rule \<Rightarrow> rule option" where
  "account_rule rule =
     (let verbs = filter (\<lambda>v. v \<noteq> Approve) (r_verbs rule)
      in if verbs = [] then None else Some (rule\<lparr>r_verbs := verbs\<rparr>))"

definition account_grants ::
    "jc_core \<Rightarrow> mirror \<Rightarrow> (string \<times> role_spec) list \<Rightarrow> identity \<Rightarrow> int \<Rightarrow> (reach \<times> grant) list" where
  "account_grants jc m organization identity now =
     (case account_of jc m identity of
        None \<Rightarrow> []
      | Some (account, spec) \<Rightarrow>
          concat (map (\<lambda>granted.
            (case reach_of (gr_scope granted) of
               None \<Rightarrow> []
             | Some r \<Rightarrow>
                 (case role_of jc m organization r (gr_role granted) of
                    None \<Rightarrow> []
                  | Some (role_name, role) \<Rightarrow>
                      map (\<lambda>rule. (r,
                        \<lparr>g_role = role_name, g_binding = ''serviceaccount/'' @ account,
                         g_scope = reach_name r, g_space = None, g_organization = None,
                         g_rule = rule\<rparr>))
                        (List.map_filter account_rule (rs_rules role)))))
            (filter (\<lambda>granted. granted_in_force jc granted now) (a_roles spec))))"

text \<open>What one \<open>RoleBinding\<close> gives the caller: the body of the loop of \<open>in_force\<close>.\<close>

definition binding_grants ::
    "jc_core \<Rightarrow> mirror \<Rightarrow> (string \<times> role_spec) list \<Rightarrow> identity \<Rightarrow> int \<Rightarrow> envelope \<Rightarrow>
     (reach \<times> grant) list" where
  "binding_grants jc m organization identity now env =
     (case parse_binding jc (env_spec env) of
        Inl _ \<Rightarrow> []
      | Inr b \<Rightarrow>
          if \<not> list_ex (is_subject identity) (b_subjects b) then []
          else if is_some_and (\<lambda>v. \<not> validity_contains jc v now) (b_validity b) then []
          else
            (case reach_of (b_scope b) of
               None \<Rightarrow> []
             | Some r \<Rightarrow>
                 (case role_of jc m organization r (b_role b) of
                    None \<Rightarrow> []
                  | Some (role_name, role) \<Rightarrow>
                      map (\<lambda>rule. (r,
                        \<lparr>g_role = role_name, g_binding = meta_name (metadata env),
                         g_scope = reach_name r, g_space = None, g_organization = None,
                         g_rule = rule\<rparr>)) (rs_rules role))))"

definition in_force :: "jc_core \<Rightarrow> mirror \<Rightarrow> identity \<Rightarrow> int \<Rightarrow> (reach \<times> grant) list" where
  "in_force jc m identity now =
     (let organization = roles jc m ORG_NAMESPACE
      in concat (map (binding_grants jc m organization identity now)
           (kind_where m ORG_NAMESPACE ''RoleBinding'' (\<lambda>env. names_caller identity (env_spec env)))) @
         account_grants jc m organization identity now)"

text \<open>Where one rule in force lands for \<open>project\<close>: a grant of its own there, or narrowed grants
  on the settings of its Organization.\<close>

definition place :: "jc_core \<Rightarrow> mirror \<Rightarrow> string \<Rightarrow> reach \<times> grant \<Rightarrow> grant option \<times> grant list" where
  "place jc m project rg =
     (case rg of (r, g) \<Rightarrow>
        (case r of
           ReachOrganization org \<Rightarrow>
             if organization_reaches m org project then (Some (g\<lparr>g_space := None\<rparr>), [])
             else if project = ORG_NAMESPACE then (None, narrowed_to_own_settings jc m org g)
             else (None, [])
         | ReachProject p \<Rightarrow> if p = project then (Some (g\<lparr>g_space := None\<rparr>), []) else (None, [])
         | ReachSpace space \<Rightarrow>
             if project_of_space m space \<noteq> Some project then (None, [])
             else (Some (g\<lparr>g_space := Some space\<rparr>), [])))"

definition effective_of ::
    "jc_core \<Rightarrow> mirror \<Rightarrow> string \<Rightarrow> identity \<Rightarrow> string \<Rightarrow> int \<Rightarrow> effective" where
  "effective_of jc m bootstrap_group identity project now =
     (if in_group identity bootstrap_group
      then \<lparr>e_project = project, e_bootstrap = True, e_grants = []\<rparr>
      else
        let placed = map (place jc m project) (in_force jc m identity now);
            grants = List.map_filter fst placed @ concat (map snd placed)
        in \<lparr>e_project = project, e_bootstrap = False,
            e_grants = without_organization_kinds jc m project grants\<rparr>)"

definition is_organization_member :: "jc_core \<Rightarrow> mirror \<Rightarrow> string \<Rightarrow> identity \<Rightarrow> int \<Rightarrow> bool" where
  "is_organization_member jc m bootstrap_group identity now \<longleftrightarrow>
     in_group identity bootstrap_group \<or> in_force jc m identity now \<noteq> []"

text \<open>A concrete jc-core for the witnesses: a rule grants its kinds and verbs, and reading
  comes with proposing; a constraint holds as its lists and its expected value say.\<close>

definition demo_verbs :: "json \<Rightarrow> verb list" where
  "demo_verbs rule =
     List.map_filter (\<lambda>v.
       if v = JString ''read'' then Some Read else if v = JString ''propose'' then Some Propose
       else if v = JString ''approve'' then Some Approve
       else if v = JString ''delete'' then Some Delete else None)
     (unwrap_or [] (get_array ''verbs'' rule))"

definition demo_scope :: "json \<Rightarrow> role_scope" where
  "demo_scope spec =
     (let sc = unwrap_or JNull (jget ''scope'' spec)
      in \<lparr>sc_organization = get_str ''organization'' sc, sc_project = get_str ''project'' sc,
          sc_context_space = get_str ''contextSpace'' sc\<rparr>)"

definition demo_rule_grants :: "rule \<Rightarrow> string \<Rightarrow> verb \<Rightarrow> bool" where
  "demo_rule_grants rule kind verb \<longleftrightarrow>
     kind \<in> set (r_kinds rule) \<and>
     (verb \<in> set (r_verbs rule) \<or> verb = Read \<and> Propose \<in> set (r_verbs rule))"

definition demo_constraint_holds :: "constraint \<Rightarrow> string option \<Rightarrow> bool" where
  "demo_constraint_holds c text \<longleftrightarrow>
     (if c_one_of c = [] then True else is_some_and (\<lambda>t. t \<in> set (c_one_of c)) text) \<and>
     is_none_or (\<lambda>t. t \<notin> set (c_not_in c)) text \<and>
     (case c_equals c of None \<Rightarrow> True | Some e \<Rightarrow> text = Some e)"

definition demo_core :: jc_core where
  "demo_core =
     \<lparr>jc_names = demo_names, rule_grants = demo_rule_grants,
      constraint_holds = demo_constraint_holds,
      validity_contains = (\<lambda>v now. is_none_or (\<lambda>t. t \<le> now) (not_before v) \<and>
        is_none_or (\<lambda>t. now < t) (not_after v)),
      granted_in_force = (\<lambda>_ _. True),
      parse_role = (\<lambda>spec. Inr \<lparr>rs_rules = map (\<lambda>rule.
        \<lparr>r_kinds = List.map_filter as_str (unwrap_or [] (get_array ''kinds'' rule)),
         r_verbs = demo_verbs rule, r_constraints = []\<rparr>)
        (unwrap_or [] (get_array ''rules'' spec))\<rparr>),
      parse_binding = (\<lambda>spec. case (get_array ''subjects'' spec, get_str ''role'' spec) of
        (Some js, Some role) \<Rightarrow>
          Inr \<lparr>b_subjects = map (\<lambda>j. \<lparr>sb_user = get_str ''user'' j, sb_group = get_str ''group'' j\<rparr>) js,
               b_role = role, b_scope = demo_scope spec, b_validity = None\<rparr>
      | _ \<Rightarrow> Inl ''missing field''),
      parse_account = (\<lambda>spec. Inr \<lparr>a_roles = map (\<lambda>j.
        \<lparr>gr_role = unwrap_or [] (get_str ''role'' j), gr_scope = demo_scope j, gr_validity = None,
         gr_other = JNull\<rparr>) (unwrap_or [] (get_array ''roles'' spec))\<rparr>),
      parse_group = (\<lambda>spec. Inr (List.map_filter as_str (unwrap_or [] (get_array ''members'' spec)))),
      keycloak_client_id = (\<lambda>ns name. ns @ ''-'' @ name),
      verb_as_str = (\<lambda>v. case v of Read \<Rightarrow> ''read'' | Propose \<Rightarrow> ''propose'' | Approve \<Rightarrow> ''approve''
        | Delete \<Rightarrow> ''delete''),
      regex_escape = (\<lambda>s. s)\<rparr>"

definition demo_strings :: "string list \<Rightarrow> json" where
  "demo_strings xs = JArray (map JString xs)"

definition demo_person :: "string \<Rightarrow> identity" where
  "demo_person name =
     \<lparr>id_subject = name, id_username = name, id_email = None, id_name = None, id_roles = [],
      id_groups = [], id_client = None, id_second_factor = False\<rparr>"

definition demo_account :: identity where
  "demo_account = (demo_person ''service-account-bikes-robot'')\<lparr>id_client := Some ''bikes-robot''\<rparr>"

definition demo_binding :: "string \<Rightarrow> string \<Rightarrow> string \<Rightarrow> (string \<times> json) list \<Rightarrow> envelope" where
  "demo_binding name user role sc =
     demo_env ''org'' ''RoleBinding'' name
       (JObject [(''role'', JString role), (''scope'', JObject sc),
                 (''subjects'', JArray [JObject [(''user'', JString user)]])])"

text \<open>Two Organizations; \<open>ada\<close> administers the second one, \<open>root\<close> the installation,
  \<open>eve\<close> the project \<open>bikes\<close>, \<open>sam\<close> its space; \<open>bikes-robot\<close> is an account there.\<close>

definition demo_row :: "string \<Rightarrow> string \<Rightarrow> string \<Rightarrow> json \<Rightarrow> resource_key \<times> envelope" where
  "demo_row ns kind name spec = (ResourceKey ns kind name, demo_env ns kind name spec)"

definition demo_binding_row ::
    "string \<Rightarrow> string \<Rightarrow> string \<Rightarrow> (string \<times> json) list \<Rightarrow> resource_key \<times> envelope" where
  "demo_binding_row name user role sc =
     (ResourceKey ''org'' ''RoleBinding'' name, demo_binding name user role sc)"

definition demo_access :: mirror where
  "demo_access =
     \<lparr>resources =
       [demo_row ''bikes'' ''ContextSpace'' ''stations'' (JObject []),
        demo_row ''bikes'' ''ServiceAccount'' ''robot'' (JObject [(''roles'', JArray [JObject
          [(''role'', JString ''admin''), (''scope'', JObject [(''project'', JString ''bikes'')])]])]),
        demo_row ''org'' ''Organization'' ''espoo'' (JObject []),
        demo_row ''org'' ''Organization'' ''helsinki'' (JObject [(''installation'', JBool True)]),
        demo_row ''org'' ''Project'' ''bikes'' (JObject [(''organizationRef'', JString ''espoo'')]),
        demo_row ''org'' ''Role'' ''admin'' (JObject [(''rules'', JArray [JObject
          [(''kinds'', demo_strings [''Organization'', ''RoleBinding'', ''Group'', ''Pipeline'', ''Endpoint'']),
           (''verbs'', demo_strings [''propose'', ''approve'', ''delete''])]])]),
        demo_binding_row ''bikes-admin'' ''eve'' ''admin'' [(''project'', JString ''bikes'')],
        demo_binding_row ''espoo-admin'' ''ada'' ''admin'' [(''organization'', JString ''espoo'')],
        demo_binding_row ''helsinki-admin'' ''root'' ''admin'' [(''organization'', JString ''helsinki'')],
        demo_binding_row ''stations-admin'' ''sam'' ''admin'' [(''contextSpace'', JString ''stations'')]],
      repositories = [], raw_layout = 0\<rparr>"

subsection \<open>Lemmas\<close>

text \<open>The rules in force, computed from every binding of the organization: the reference the
  reading in place is measured against.\<close>

definition in_force_reference :: "jc_core \<Rightarrow> mirror \<Rightarrow> identity \<Rightarrow> int \<Rightarrow> (reach \<times> grant) list" where
  "in_force_reference jc m identity now =
     (let organization = roles jc m ORG_NAMESPACE
      in concat (map (binding_grants jc m organization identity now)
           (list_kind m ORG_NAMESPACE ''RoleBinding'')) @
         account_grants jc m organization identity now)"

lemma kind_where_filter: "kind_where m ns kind keep = filter keep (list_kind m ns kind)"
  by (simp add: list_kind_eq kind_where_def Let_def filter_map o_def)

lemma concat_map_filter_Nil:
  "(\<And>x. x \<in> set xs \<Longrightarrow> \<not> P x \<Longrightarrow> f x = []) \<Longrightarrow> concat (map f (filter P xs)) = concat (map f xs)"
  by (induction xs) auto

lemma binding_grants_not_named:
  assumes "binding_reads_subjects jc" and "\<not> names_caller identity (env_spec env)"
  shows "binding_grants jc m organization identity now env = []"
  using assms names_caller_parsed [OF assms(1), of "env_spec env"]
  by (auto simp: binding_grants_def split: sum.splits)

text \<open>Where a rule must apply for a grant of it to hold in a project.\<close>

fun applies_in :: "mirror \<Rightarrow> string \<Rightarrow> reach \<Rightarrow> bool" where
  "applies_in m project (ReachOrganization org) = organization_reaches m org project"
| "applies_in m project (ReachProject p) = (p = project)"
| "applies_in m project (ReachSpace space) = (project_of_space m space = Some project)"

fun reach_space :: "reach \<Rightarrow> string option" where
  "reach_space (ReachSpace space) = Some space"
| "reach_space _ = None"

lemma place_fst:
  "fst (place jc m project (r, g)) =
     (if applies_in m project r then Some (g\<lparr>g_space := reach_space r\<rparr>) else None)"
  by (cases r) (auto simp: place_def)

lemma place_snd:
  "snd (place jc m project (r, g)) =
     (case r of
        ReachOrganization org \<Rightarrow>
          if project = ORG_NAMESPACE \<and> \<not> organization_reaches m org project
          then narrowed_to_own_settings jc m org g else []
      | _ \<Rightarrow> [])"
  by (cases r) (auto simp: place_def)

lemma without_organization_kinds_mem:
  assumes "g \<in> set (without_organization_kinds jc m project gs)"
  shows "\<exists>g0 \<in> set gs. \<exists>ks. set ks \<subseteq> set (r_kinds (g_rule g0)) \<and>
    g = g0\<lparr>g_rule := (g_rule g0)\<lparr>r_kinds := ks\<rparr>\<rparr>"
proof (cases "project = ORG_NAMESPACE \<or> length (organizations m) \<le> 1 \<or>
    organization_of m project = installation_organization m")
  case True
  then have "g \<in> set gs" using assms by (simp add: without_organization_kinds_def)
  moreover have "g = g\<lparr>g_rule := (g_rule g)\<lparr>r_kinds := r_kinds (g_rule g)\<rparr>\<rparr>" by simp
  ultimately show ?thesis by blast
next
  case False
  let ?keep = "\<lambda>g0. filter (\<lambda>kind. \<not> belongs_to_the_organization (jc_names jc) kind (Some project))
    (r_kinds (g_rule g0))"
  obtain g0 where g0: "g0 \<in> set gs" "g = g0\<lparr>g_rule := (g_rule g0)\<lparr>r_kinds := ?keep g0\<rparr>\<rparr>"
    using assms False
    by (auto simp: without_organization_kinds_def map_filter_Some_iff Let_def split: if_splits)
  have "set (?keep g0) \<subseteq> set (r_kinds (g_rule g0))" by auto
  with g0 show ?thesis by blast
qed

lemma push_narrowed_mem:
  "g' \<in> set (push_narrowed org g kind verbs extra) \<longleftrightarrow>
     verbs \<noteq> [] \<and> g' = g\<lparr>g_organization := Some org,
       g_rule := \<lparr>r_kinds = [kind], r_verbs = verbs,
                  r_constraints = r_constraints (g_rule g) @ extra\<rparr>\<rparr>"
  by (auto simp: push_narrowed_def)

text \<open>Every narrowed grant is one push with at most the rule's own verbs.\<close>

lemma narrowed_bindings_pushed:
  assumes "g' \<in> set (narrowed_bindings m org g)"
  shows "\<exists>kind verbs extra. set verbs \<subseteq> set (r_verbs (g_rule g)) \<and>
    g' \<in> set (push_narrowed org g kind verbs extra)"
proof -
  obtain extra where "g' \<in> set (push_narrowed org g ''RoleBinding'' (r_verbs (g_rule g)) extra)"
    using assms unfolding narrowed_bindings_def Let_def by (auto split: if_splits)
  then show ?thesis by blast
qed

lemma narrowed_pushed:
  assumes "g' \<in> set (narrowed_to_own_settings jc m org g)"
  shows "\<exists>kind verbs extra. set verbs \<subseteq> set (r_verbs (g_rule g)) \<and>
    g' \<in> set (push_narrowed org g kind verbs extra)"
proof -
  let ?less = "filter (\<lambda>v. v \<noteq> Delete) (r_verbs (g_rule g))"
  have "(\<exists>kind extra. g' \<in> set (push_narrowed org g kind ?less extra)) \<or>
      g' \<in> set (narrowed_bindings m org g) \<or>
      (\<exists>kind extra. g' \<in> set (push_narrowed org g kind (r_verbs (g_rule g)) extra))"
    using assms unfolding narrowed_to_own_settings_def by (auto split: if_splits)
  moreover have "set ?less \<subseteq> set (r_verbs (g_rule g))" by auto
  ultimately show ?thesis using narrowed_bindings_pushed [of g' m org g] by blast
qed

lemma narrowed_organization:
  assumes "g' \<in> set (narrowed_to_own_settings jc m org g)"
  shows "g_organization g' = Some org \<and> g_space g' = g_space g \<and>
    set (r_constraints (g_rule g)) \<subseteq> set (r_constraints (g_rule g'))"
  using narrowed_pushed [OF assms] by (auto simp: push_narrowed_mem)

lemma in_force_plain:
  assumes "(r, g) \<in> set (in_force jc m identity now)"
  shows "g_organization g = None \<and> g_space g = None \<and> g_scope g = reach_name r"
  using assms
  by (auto simp: in_force_def Let_def binding_grants_def account_grants_def
        split: sum.splits if_splits option.splits)

text \<open>Every grant a caller holds somewhere comes from a rule in force.\<close>

lemma effective_grant_origin:
  assumes "g \<in> set (e_grants (effective_of jc m boot identity project now))"
  shows "\<exists>r g0. (r, g0) \<in> set (in_force jc m identity now) \<and> \<not> in_group identity boot \<and>
    (if g_organization g = None
     then applies_in m project r \<and> g_space g = reach_space r \<and>
       r_verbs (g_rule g) = r_verbs (g_rule g0) \<and> r_constraints (g_rule g) = r_constraints (g_rule g0) \<and>
       set (r_kinds (g_rule g)) \<subseteq> set (r_kinds (g_rule g0))
     else project = ORG_NAMESPACE \<and>
       (\<exists>org. r = ReachOrganization org \<and> \<not> organization_reaches m org project \<and>
          g \<in> set (narrowed_to_own_settings jc m org g0)))"
proof -
  have nb: "\<not> in_group identity boot"
    using assms by (auto simp: effective_of_def split: if_splits)
  let ?placed = "map (place jc m project) (in_force jc m identity now)"
  have mem: "g \<in> set (without_organization_kinds jc m project
      (List.map_filter fst ?placed @ concat (map snd ?placed)))"
    using assms nb by (simp add: effective_of_def Let_def)
  consider (own) g1 ks where "g1 \<in> set (List.map_filter fst ?placed)"
      "set ks \<subseteq> set (r_kinds (g_rule g1))" "g = g1\<lparr>g_rule := (g_rule g1)\<lparr>r_kinds := ks\<rparr>\<rparr>"
    | (narrow) g1 where "g1 \<in> set (concat (map snd ?placed))" "project = ORG_NAMESPACE" "g = g1"
  proof (cases "project = ORG_NAMESPACE")
    case True
    then show ?thesis
      using mem that(2) [of g] that(1) [of g "r_kinds (g_rule g)"]
      by (auto simp: without_organization_kinds_def)
  next
    case False
    then have "concat (map snd ?placed) = []"
      by (auto simp: place_snd split: reach.splits)
    then show ?thesis
      using without_organization_kinds_mem [OF mem] that(1) by auto
  qed
  then show ?thesis
  proof cases
    case own
    then obtain r g0 where rg: "(r, g0) \<in> set (in_force jc m identity now)" "applies_in m project r"
      "g1 = g0\<lparr>g_space := reach_space r\<rparr>"
      by (auto simp: map_filter_Some_iff place_fst split: if_splits)
    with own in_force_plain [OF rg(1)] nb show ?thesis by fastforce
  next
    case narrow
    then obtain r g0 where rg: "(r, g0) \<in> set (in_force jc m identity now)"
      "g \<in> set (snd (place jc m project (r, g0)))" by auto
    then obtain org where org: "r = ReachOrganization org" "\<not> organization_reaches m org project"
      "g \<in> set (narrowed_to_own_settings jc m org g0)"
      by (auto simp: place_snd split: reach.splits if_splits)
    with rg(1) nb narrow(2) narrowed_organization [OF org(3)] show ?thesis by fastforce
  qed
qed

text \<open>What the two sources of a rule give: a binding of the organization's repository that names
  the caller and is in its window, or the caller's own service account.\<close>

definition granted_by_binding ::
    "jc_core \<Rightarrow> mirror \<Rightarrow> identity \<Rightarrow> int \<Rightarrow> reach \<Rightarrow> rule \<Rightarrow> string \<Rightarrow> bool" where
  "granted_by_binding jc m identity now r rule binding \<longleftrightarrow>
     (\<exists>env b role.
        get m ORG_NAMESPACE ''RoleBinding'' binding = Some env \<and>
        parse_binding jc (env_spec env) = Inr b \<and>
        (\<exists>s \<in> set (b_subjects b). is_subject identity s) \<and>
        is_none_or (\<lambda>v. validity_contains jc v now) (b_validity b) \<and>
        reach_of (b_scope b) = Some r \<and>
        role_of jc m (roles jc m ORG_NAMESPACE) r (b_role b) = Some (b_role b, role) \<and>
        rule \<in> set (rs_rules role))"

lemma binding_grants_mem:
  "(r, g) \<in> set (binding_grants jc m (roles jc m ORG_NAMESPACE) identity now env) \<longleftrightarrow>
     (\<exists>b role rule. parse_binding jc (env_spec env) = Inr b \<and>
        (\<exists>s \<in> set (b_subjects b). is_subject identity s) \<and>
        is_none_or (\<lambda>v. validity_contains jc v now) (b_validity b) \<and>
        reach_of (b_scope b) = Some r \<and>
        role_of jc m (roles jc m ORG_NAMESPACE) r (b_role b) = Some (b_role b, role) \<and>
        rule \<in> set (rs_rules role) \<and>
        g = \<lparr>g_role = b_role b, g_binding = meta_name (metadata env), g_scope = reach_name r,
             g_space = None, g_organization = None, g_rule = rule\<rparr>)"
  (is "?L \<longleftrightarrow> ?R")
proof
  assume L: ?L
  then obtain b where b: "parse_binding jc (env_spec env) = Inr b"
    by (cases "parse_binding jc (env_spec env)") (auto simp: binding_grants_def)
  with L have who: "\<exists>s \<in> set (b_subjects b). is_subject identity s"
    and window: "is_none_or (\<lambda>v. validity_contains jc v now) (b_validity b)"
    by (auto simp: binding_grants_def list_ex_iff is_some_and_iff is_none_or_iff split: if_splits)
  from L b obtain r' where r': "reach_of (b_scope b) = Some r'"
    by (cases "reach_of (b_scope b)") (auto simp: binding_grants_def split: if_splits)
  with L b obtain name role where role:
      "role_of jc m (roles jc m ORG_NAMESPACE) r' (b_role b) = Some (name, role)"
    by (cases "role_of jc m (roles jc m ORG_NAMESPACE) r' (b_role b)")
       (auto simp: binding_grants_def split: if_splits)
  with L b r' have "r = r'" and "\<exists>rule \<in> set (rs_rules role).
      g = \<lparr>g_role = name, g_binding = meta_name (metadata env), g_scope = reach_name r,
           g_space = None, g_organization = None, g_rule = rule\<rparr>"
    by (auto simp: binding_grants_def split: if_splits)
  with b who window r' role role_of_name [OF role] show ?R by blast
next
  assume ?R
  then show ?L
    by (auto simp: binding_grants_def list_ex_iff is_some_and_iff is_none_or_iff)
qed

lemma in_force_eq_reference:
  assumes "binding_reads_subjects jc"
  shows "in_force jc m identity now = in_force_reference jc m identity now"
  unfolding in_force_def in_force_reference_def Let_def kind_where_filter
  by (subst concat_map_filter_Nil) (auto intro: binding_grants_not_named [OF assms])

lemma account_grants_verbs:
  assumes "(r, g) \<in> set (account_grants jc m organization identity now)"
  shows "Approve \<notin> set (r_verbs (g_rule g)) \<and> r_verbs (g_rule g) \<noteq> []"
proof -
  obtain rule where "account_rule rule = Some (g_rule g)"
    using assms
    by (auto simp: account_grants_def map_filter_Some_iff split: option.splits)
  then have "g_rule g = rule\<lparr>r_verbs := filter (\<lambda>v. v \<noteq> Approve) (r_verbs rule)\<rparr>"
    and "filter (\<lambda>v. v \<noteq> Approve) (r_verbs rule) \<noteq> []"
    by (simp_all add: account_rule_def Let_def split: if_splits)
  then show ?thesis by simp
qed

lemma narrowed_verbs:
  assumes "g' \<in> set (narrowed_to_own_settings jc m org g)"
  shows "set (r_verbs (g_rule g')) \<subseteq> set (r_verbs (g_rule g))"
  using narrowed_pushed [OF assms] by (auto simp: push_narrowed_mem)

lemma effective_verbs_origin:
  assumes "g \<in> set (e_grants (effective_of jc m boot identity project now))"
  obtains r g0 where "(r, g0) \<in> set (in_force jc m identity now)"
    "set (r_verbs (g_rule g)) \<subseteq> set (r_verbs (g_rule g0))"
  using effective_grant_origin [OF assms] narrowed_verbs that by (metis subset_refl)

lemma binding_name:
  assumes "mirror_wf jc m" and "get m ns kind name = Some env"
  shows "meta_name (metadata env) = name"
  using mirror_wf_key [OF assms(1)] mirror_get_mem [OF assms(1)] assms(2)
  by (force simp: envelope_key_def)

lemma caller_bindings:
  assumes wf: "mirror_wf (jc_names jc) m"
  shows "(\<exists>g. (\<exists>env \<in> set (list_kind m ORG_NAMESPACE ''RoleBinding'').
      (r, g) \<in> set (binding_grants jc m (roles jc m ORG_NAMESPACE) identity now env)) \<and>
      g_rule g = rule \<and> g_binding g = binding) \<longleftrightarrow>
    granted_by_binding jc m identity now r rule binding"
  (is "?L \<longleftrightarrow> ?R")
proof
  assume ?L
  then obtain g name env where env: "get m ORG_NAMESPACE ''RoleBinding'' name = Some env"
    and g: "(r, g) \<in> set (binding_grants jc m (roles jc m ORG_NAMESPACE) identity now env)"
      "g_rule g = rule" "g_binding g = binding"
    using list_kind_mem [OF wf] by blast
  from g(1) binding_name [OF wf env] obtain b role where b: "parse_binding jc (env_spec env) = Inr b"
    "\<exists>s \<in> set (b_subjects b). is_subject identity s"
    "is_none_or (\<lambda>v. validity_contains jc v now) (b_validity b)" "reach_of (b_scope b) = Some r"
    "role_of jc m (roles jc m ORG_NAMESPACE) r (b_role b) = Some (b_role b, role)"
    "g_rule g \<in> set (rs_rules role)" "g_binding g = name"
    unfolding binding_grants_mem by fastforce
  with env g(2,3) show ?R unfolding granted_by_binding_def by blast
next
  assume ?R
  then obtain env b role where env: "get m ORG_NAMESPACE ''RoleBinding'' binding = Some env"
    and b: "parse_binding jc (env_spec env) = Inr b"
    "\<exists>s \<in> set (b_subjects b). is_subject identity s"
    "is_none_or (\<lambda>v. validity_contains jc v now) (b_validity b)" "reach_of (b_scope b) = Some r"
    "role_of jc m (roles jc m ORG_NAMESPACE) r (b_role b) = Some (b_role b, role)"
    "rule \<in> set (rs_rules role)"
    unfolding granted_by_binding_def by blast
  let ?g = "\<lparr>g_role = b_role b, g_binding = binding, g_scope = reach_name r, g_space = None,
    g_organization = None, g_rule = rule\<rparr>"
  have "(r, ?g) \<in> set (binding_grants jc m (roles jc m ORG_NAMESPACE) identity now env)"
    unfolding binding_grants_mem using b binding_name [OF wf env] by blast
  moreover have "env \<in> set (list_kind m ORG_NAMESPACE ''RoleBinding'')"
    using env list_kind_mem [OF wf] by blast
  ultimately show ?L by (intro exI [of _ ?g]) auto
qed

lemma demo_core_reads_subjects: "binding_reads_subjects demo_core"
  unfolding binding_reads_subjects_def
  by (auto simp: demo_core_def o_def split: option.splits)

lemma demo_access_wf: "mirror_wf demo_names demo_access"
  by code_simp

subsection \<open>Properties\<close>

text \<open>Property C6. The rules in force for a caller are exactly those of the bindings that name
  them, are in their window and whose role exists, and those of their own service account:
  reading the subjects in place and typing only the bindings that name the caller loses nothing
  and adds nothing.\<close>

theorem in_force_exact:
  assumes "binding_reads_subjects jc" and "mirror_wf (jc_names jc) m"
  shows "(\<exists>g. (r, g) \<in> set (in_force jc m identity now) \<and> g_rule g = rule \<and> g_binding g = binding) \<longleftrightarrow>
    granted_by_binding jc m identity now r rule binding \<or>
    (\<exists>g. (r, g) \<in> set (account_grants jc m (roles jc m ORG_NAMESPACE) identity now) \<and>
       g_rule g = rule \<and> g_binding g = binding)"
  unfolding caller_bindings [OF assms(2), symmetric] in_force_eq_reference [OF assms(1)]
    in_force_reference_def Let_def
  by auto

theorem in_force_exact_witness:
  "granted_by_binding demo_core demo_access (demo_person ''ada'') 0 (ReachOrganization ''espoo'')
     (g_rule (snd (hd (in_force demo_core demo_access (demo_person ''ada'') 0)))) ''espoo-admin''"
proof -
  let ?l = "in_force demo_core demo_access (demo_person ''ada'') 0"
  have "fst (hd ?l) = ReachOrganization ''espoo'' \<and> g_binding (snd (hd ?l)) = ''espoo-admin'' \<and> ?l \<noteq> []"
    by code_simp
  then have mem: "\<exists>g. (ReachOrganization ''espoo'', g) \<in> set ?l \<and> g_rule g = g_rule (snd (hd ?l)) \<and>
      g_binding g = ''espoo-admin''"
    by (metis hd_in_set prod.collapse)
  have none: "account_grants demo_core demo_access (roles demo_core demo_access ORG_NAMESPACE)
      (demo_person ''ada'') 0 = []" by code_simp
  have wf: "mirror_wf (jc_names demo_core) demo_access"
    using demo_access_wf by (simp add: demo_core_def)
  from in_force_exact [OF demo_core_reads_subjects wf] mem none show ?thesis by auto
qed

text \<open>Property C10. A service account never approves: when no binding names the account itself, no
  grant it holds in any project carries the verb approve.\<close>

theorem service_account_never_approves:
  assumes "\<forall>env \<in> set (list_kind m ORG_NAMESPACE ''RoleBinding''). \<not> names_caller identity (env_spec env)"
    and "g \<in> set (e_grants (effective_of jc m boot identity project now))"
  shows "Approve \<notin> set (r_verbs (g_rule g))"
proof -
  obtain r g0 where g0: "(r, g0) \<in> set (in_force jc m identity now)"
    "set (r_verbs (g_rule g)) \<subseteq> set (r_verbs (g_rule g0))"
    using effective_verbs_origin [OF assms(2)] .
  have "(r, g0) \<in> set (account_grants jc m (roles jc m ORG_NAMESPACE) identity now)"
    using g0(1) assms(1) by (auto simp: in_force_def Let_def kind_where_filter)
  from account_grants_verbs [OF this] g0(2) show ?thesis by blast
qed

theorem service_account_never_approves_witness:
  "Approve \<notin> set (r_verbs (g_rule
     (hd (e_grants (effective_of demo_core demo_access ''boot'' demo_account ''bikes'' 0)))))"
proof -
  have "\<forall>env \<in> set (list_kind demo_access ORG_NAMESPACE ''RoleBinding'').
      \<not> names_caller demo_account (env_spec env)" by code_simp
  moreover have "e_grants (effective_of demo_core demo_access ''boot'' demo_account ''bikes'' 0) \<noteq> []"
    by code_simp
  ultimately show ?thesis
    using service_account_never_approves [OF _ hd_in_set] by blast
qed

text \<open>A grant held in a project comes from a rule in force that applies there, with
  that rule's verbs and constraints unchanged and at most its kinds, and it is bound to a space
  exactly when the rule's binding was.\<close>

theorem project_grants_come_from_rules_that_apply:
  assumes "project \<noteq> ORG_NAMESPACE"
    and "g \<in> set (e_grants (effective_of jc m boot identity project now))"
  shows "\<exists>r g0. (r, g0) \<in> set (in_force jc m identity now) \<and> applies_in m project r \<and>
    g_space g = reach_space r \<and> g_organization g = None \<and>
    r_verbs (g_rule g) = r_verbs (g_rule g0) \<and>
    r_constraints (g_rule g) = r_constraints (g_rule g0) \<and>
    set (r_kinds (g_rule g)) \<subseteq> set (r_kinds (g_rule g0))"
  using effective_grant_origin [OF assms(2)] assms(1) by (metis (no_types, lifting))

theorem project_grants_come_from_rules_that_apply_witness:
  "\<exists>r g0. (r, g0) \<in> set (in_force demo_core demo_access (demo_person ''sam'') 0) \<and>
     applies_in demo_access ''bikes'' r \<and>
     g_space (hd (e_grants (effective_of demo_core demo_access ''boot'' (demo_person ''sam'') ''bikes'' 0)))
       = reach_space r"
proof -
  have "e_grants (effective_of demo_core demo_access ''boot'' (demo_person ''sam'') ''bikes'' 0) \<noteq> []"
    by code_simp
  from project_grants_come_from_rules_that_apply [OF _ hd_in_set [OF this]] show ?thesis
    by (auto simp: ORG_NAMESPACE_def)
qed

text \<open>Property C5. Organizations are isolated: a caller whose every rule is an Organization's
  holds nothing at all in a project of another Organization.\<close>

theorem organization_isolation:
  assumes "several_organizations m" and "project \<noteq> ORG_NAMESPACE" and "project \<noteq> []"
    and "organization_of m project \<noteq> Some org" and "\<not> in_group identity boot"
    and "\<forall>(r, g) \<in> set (in_force jc m identity now). r = ReachOrganization org"
  shows "effective_of jc m boot identity project now =
    \<lparr>e_project = project, e_bootstrap = False, e_grants = []\<rparr>"
proof -
  have "e_grants (effective_of jc m boot identity project now) = []"
  proof (rule ccontr)
    assume "e_grants (effective_of jc m boot identity project now) \<noteq> []"
    then obtain g where "g \<in> set (e_grants (effective_of jc m boot identity project now))"
      by (meson list.set_sel(1))
    from effective_grant_origin [OF this] assms(2,6)
    have "applies_in m project (ReachOrganization org)" by (fastforce split: if_splits)
    with organization_reaches_owner [OF assms(1-3)] assms(4) show False by simp
  qed
  then show ?thesis using assms(5) by (simp add: effective_of_def Let_def)
qed

theorem organization_isolation_witness:
  "effective_of demo_core demo_access ''boot'' (demo_person ''root'') ''bikes'' 0 =
     \<lparr>e_project = ''bikes'', e_bootstrap = False, e_grants = []\<rparr>"
  by (rule organization_isolation [where org = "''helsinki''"]; code_simp)

end
