(* ===== verification/Judgements.thy ===== *)
theory Judgements
  imports Grants
begin

text \<open>
  What a caller's grants allow: the methods of \<open>Effective\<close> in \<open>src/permissions.rs\<close>, each one
  question asked of the grants of one project, and \<open>require_organization_admin\<close>.

  Every question is the bootstrap group or one grant that admits it, so adding a grant never
  takes an answer away. The locale \<open>grant_judgement\<close> states that interface once; each method is
  an interpretation of it. \<open>serde_json::to_value\<close> of an envelope is the argument \<open>to_value\<close>.
\<close>

subsection \<open>Definitions\<close>

definition declares_egress :: "json option \<Rightarrow> bool" where
  "declares_egress target =
     is_some_and (\<lambda>egress. egress \<noteq> [])
       (Option.bind (Option.bind target (pointer [''spec'', ''egress''])) as_array)"

definition audience_of :: "json option \<Rightarrow> string option" where
  "audience_of target = Option.bind target (ptr_str [''spec'', ''audience''])"

definition administers_organization :: "jc_core \<Rightarrow> effective \<Rightarrow> bool" where
  "administers_organization jc e =
     (let unnarrowed = (\<lambda>verb. e_bootstrap e \<or>
            list_ex (\<lambda>g. g_organization g = None \<and> g_space g = None \<and>
              rule_grants jc (g_rule g) ''RoleBinding'' verb) (e_grants e))
      in unnarrowed Approve \<and> unnarrowed Delete)"

definition may_read_project :: "effective \<Rightarrow> bool" where
  "may_read_project e \<longleftrightarrow> e_bootstrap e \<or> e_grants e \<noteq> []"

definition may_propose_anything :: "jc_core \<Rightarrow> effective \<Rightarrow> bool" where
  "may_propose_anything jc e \<longleftrightarrow>
     e_bootstrap e \<or>
     list_ex (\<lambda>g. \<not> writes_status_only (g_rule g) \<and>
       list_ex (\<lambda>kind. rule_grants jc (g_rule g) kind Propose) (r_kinds (g_rule g))) (e_grants e)"

definition check_converses :: "jc_core \<Rightarrow> effective \<Rightarrow> string \<Rightarrow> api_error + unit" where
  "check_converses jc e project =
     (if may_propose_anything jc e then Inr ()
      else Inl (Denied (''A conversation with the assistant needs a role with propose on some kind in project '' @
             project @ ''.'')))"

definition may_anything :: "jc_core \<Rightarrow> effective \<Rightarrow> verb \<Rightarrow> bool" where
  "may_anything jc e verb \<longleftrightarrow>
     e_bootstrap e \<or>
     list_ex (\<lambda>g. list_ex (\<lambda>kind. rule_grants jc (g_rule g) kind verb) (r_kinds (g_rule g)))
       (e_grants e)"

definition may :: "jc_core \<Rightarrow> effective \<Rightarrow> string \<Rightarrow> verb \<Rightarrow> bool" where
  "may jc e kind verb \<longleftrightarrow>
     e_bootstrap e \<or>
     list_ex (\<lambda>g. rule_grants jc (g_rule g) kind verb \<and>
       (g_space g = None \<or> lives_in_space kind) \<and>
       (g_organization g = None \<or> verb \<noteq> Read)) (e_grants e)"

definition may_read :: "jc_core \<Rightarrow> effective \<Rightarrow> string \<Rightarrow> bool" where
  "may_read jc e kind = may jc e kind Read"

definition may_read_some :: "jc_core \<Rightarrow> effective \<Rightarrow> string \<Rightarrow> bool" where
  "may_read_some jc e kind \<longleftrightarrow>
     may_read jc e kind \<or>
     list_ex (\<lambda>g. g_organization g \<noteq> None \<and> rule_grants jc (g_rule g) kind Read) (e_grants e)"

definition may_write_status_field :: "jc_core \<Rightarrow> effective \<Rightarrow> string \<Rightarrow> string \<Rightarrow> bool" where
  "may_write_status_field jc e kind field =
     list_ex (\<lambda>g. rule_grants jc (g_rule g) kind Propose \<and>
       list_ex (\<lambda>c. c_field c = field) (r_constraints (g_rule g))) (e_grants e)"

definition may_in :: "jc_core \<Rightarrow> effective \<Rightarrow> string \<Rightarrow> verb \<Rightarrow> string option \<Rightarrow> bool" where
  "may_in jc e kind verb space =
     (if e_bootstrap e then True
      else list_ex (\<lambda>g. rule_grants jc (g_rule g) kind verb \<and>
        (g_organization g = None \<or> verb \<noteq> Read) \<and>
        (case g_space g of None \<Rightarrow> True | Some bound \<Rightarrow> space = Some bound)) (e_grants e))"

definition may_read_in :: "jc_core \<Rightarrow> effective \<Rightarrow> string \<Rightarrow> string option \<Rightarrow> bool" where
  "may_read_in jc e kind space = may_in jc e kind Read space"

definition manifest_space :: "string \<Rightarrow> json \<Rightarrow> string option" where
  "manifest_space kind manifest =
     (if kind = ''ContextSpace'' then ptr_str [''metadata'', ''name''] manifest
      else space_ref manifest)"

definition may_read_manifest :: "jc_core \<Rightarrow> effective \<Rightarrow> string \<Rightarrow> json \<Rightarrow> bool" where
  "may_read_manifest jc e kind manifest \<longleftrightarrow>
     may_read_in jc e kind (manifest_space kind manifest) \<or>
     list_ex (\<lambda>g. g_organization g \<noteq> None \<and> rule_grants jc (g_rule g) kind Read \<and>
       list_all (\<lambda>c. satisfied jc c (Some manifest)) (r_constraints (g_rule g))) (e_grants e)"

definition may_read_envelope ::
    "jc_core \<Rightarrow> (envelope \<Rightarrow> string + json) \<Rightarrow> effective \<Rightarrow> string \<Rightarrow> envelope \<Rightarrow> bool" where
  "may_read_envelope jc to_value e kind env \<longleftrightarrow>
     e_bootstrap e \<or>
     list_ex (\<lambda>g. g_space g = None \<and> g_organization g = None \<and>
       rule_grants jc (g_rule g) kind Read) (e_grants e) \<or>
     (case to_value env of Inr manifest \<Rightarrow> may_read_manifest jc e kind manifest | Inl _ \<Rightarrow> False)"

definition spaces_reached :: "effective \<Rightarrow> string list option" where
  "spaces_reached e =
     (if e_bootstrap e \<or> list_ex (\<lambda>g. g_space g = None) (e_grants e) then None
      else Some (bt_set (List.map_filter g_space (e_grants e))))"

text \<open>\<open>judged["spec"]["visibility"] = "public"\<close>: \<open>IndexMut\<close> of \<open>serde_json\<close> on a member,
  which writes into an object or \<open>null\<close>. It panics on any other value; \<open>check\<close> only reaches
  it with objects (\<open>declares_egress_objects\<close> below).\<close>

fun jset :: "string \<Rightarrow> json \<Rightarrow> json \<Rightarrow> json" where
  "jset k v (JObject m) = JObject (bt_insert k v m)"
| "jset k v JNull = JObject [(k, v)]"
| "jset k v j = j"

definition judged_public :: "json \<Rightarrow> json" where
  "judged_public target =
     jset ''spec'' (jset ''visibility'' (JString ''public'') (unwrap_or JNull (jget ''spec'' target))) target"

definition egress_declared :: "string \<Rightarrow> verb \<Rightarrow> json option \<Rightarrow> bool" where
  "egress_declared kind verb target \<longleftrightarrow>
     kind = ''App'' \<and> verb = Approve \<and> declares_egress target"

definition judged_target :: "string \<Rightarrow> verb \<Rightarrow> json option \<Rightarrow> json option" where
  "judged_target kind verb target =
     (if egress_declared kind verb target then Some (judged_public (unwrap_or JNull target))
      else target)"

text \<open>The loop of \<open>check\<close>: \<open>Inr\<close> at the first grant that allows, else the first violation.\<close>

fun check_grants ::
    "jc_core \<Rightarrow> string \<Rightarrow> verb \<Rightarrow> json option \<Rightarrow> string option \<Rightarrow> grant list \<Rightarrow> string option + unit" where
  "check_grants jc kind verb target violation [] = Inl violation"
| "check_grants jc kind verb target violation (g # gs) =
     (if \<not> rule_grants jc (g_rule g) kind verb then check_grants jc kind verb target violation gs
      else if verb = Propose \<and> writes_status_only (g_rule g)
      then check_grants jc kind verb target violation gs
      else if is_some_and (\<lambda>space. Option.bind target space_ref \<noteq> Some space) (g_space g)
      then check_grants jc kind verb target violation gs
      else
        (case List.find (\<lambda>c. \<not> satisfied jc c target) (r_constraints (g_rule g)) of
           None \<Rightarrow> Inr ()
         | Some c \<Rightarrow>
             check_grants jc kind verb target
               (or_else violation
                  (Some (c_field c @ '' does not satisfy role '' @ g_role g @ '' ('' @ describe c @ '')'')))
               gs))"

definition PUBLIC_ENDPOINT :: string where
  "PUBLIC_ENDPOINT = ''approving a public Endpoint needs publisher, the role whose approve is constrained to a public audience; org-admin holds it too (EP-76, PF-71)''"

definition EGRESS_APP :: string where
  "EGRESS_APP = ''approving an App that declares spec.egress needs publisher, the role whose approve is constrained to a public visibility; org-admin holds it too (AP-134, PF-71)''"

definition PUBLIC_APP :: string where
  "PUBLIC_APP = ''approving a public App needs publisher, the role whose approve is constrained to a public visibility; org-admin holds it too (AP-120, PF-71)''"

definition check :: "jc_core \<Rightarrow> effective \<Rightarrow> string \<Rightarrow> verb \<Rightarrow> json option \<Rightarrow> api_error + unit" where
  "check jc e kind verb target =
     (if e_bootstrap e then Inr ()
      else
        let judged = judged_target kind verb target
        in (case check_grants jc kind verb judged None (e_grants e) of
              Inr _ \<Rightarrow> Inr ()
            | Inl violation \<Rightarrow>
                if kind = ''Endpoint'' \<and> verb = Approve \<and> audience_of judged = Some ''public''
                then Inl (Denied PUBLIC_ENDPOINT)
                else if egress_declared kind verb target then Inl (Denied EGRESS_APP)
                else if kind = ''App'' \<and> verb = Approve \<and>
                  Option.bind judged (ptr_str [''spec'', ''visibility'']) = Some ''public''
                then Inl (Denied PUBLIC_APP)
                else Inl (Denied (unwrap_or
                  (''no role grants '' @ verb_name jc verb @ '' on '' @ kind @ '' in project '' @
                   e_project e @ '' (PF-50)'') violation))))"

definition require_organization_admin ::
    "jc_core \<Rightarrow> mirror \<Rightarrow> string \<Rightarrow> identity \<Rightarrow> int \<Rightarrow> string \<Rightarrow> api_error + unit" where
  "require_organization_admin jc m bootstrap_admins identity now action =
     (if administers_organization jc (effective_of jc m bootstrap_admins identity ORG_NAMESPACE now)
      then Inr ()
      else Inl (Denied (action @
        '' is for organization administrators, on the Administration page (UI-87)'')))"

subsection \<open>The interface of a judgement\<close>

locale grant_judgement =
  fixes judge :: "effective \<Rightarrow> 'q \<Rightarrow> bool"
    and admits :: "'q \<Rightarrow> grant \<Rightarrow> bool"
  assumes judge_iff: "judge e q \<longleftrightarrow> e_bootstrap e \<or> (\<exists>g \<in> set (e_grants e). admits q g)"
begin

lemma bootstrap_allows: "e_bootstrap e \<Longrightarrow> judge e q"
  by (simp add: judge_iff)

lemma nothing_held_refuses: "\<not> e_bootstrap e \<Longrightarrow> e_grants e = [] \<Longrightarrow> \<not> judge e q"
  by (simp add: judge_iff)

lemma monotone:
  assumes "judge e q" and "e_bootstrap e \<Longrightarrow> e_bootstrap e'"
    and "set (e_grants e) \<subseteq> set (e_grants e')"
  shows "judge e' q"
  using assms by (auto simp: judge_iff)

lemma order_irrelevant:
  assumes "e_bootstrap e = e_bootstrap e'" and "set (e_grants e) = set (e_grants e')"
  shows "judge e q = judge e' q"
  using assms by (simp add: judge_iff)

end

lemma check_grants_iff:
  "(\<exists>u. check_grants jc kind verb target violation gs = Inr u) \<longleftrightarrow>
     (\<exists>g \<in> set gs. rule_grants jc (g_rule g) kind verb \<and>
        \<not> (verb = Propose \<and> writes_status_only (g_rule g)) \<and>
        is_none_or (\<lambda>space. Option.bind target space_ref = Some space) (g_space g) \<and>
        (\<forall>c \<in> set (r_constraints (g_rule g)). satisfied jc c target))"
proof (induction gs arbitrary: violation)
  case (Cons g gs)
  have "List.find (\<lambda>c. \<not> satisfied jc c target) (r_constraints (g_rule g)) = None \<longleftrightarrow>
      (\<forall>c \<in> set (r_constraints (g_rule g)). satisfied jc c target)"
    by (auto simp: find_None_iff)
  with Cons.IH show ?case
    by (auto simp: is_some_and_iff is_none_or_iff split: option.splits)
qed simp

text \<open>One grant admits a write of \<open>target\<close>: what the loop looks for.\<close>

definition admits_write ::
    "jc_core \<Rightarrow> string \<times> verb \<times> json option \<Rightarrow> grant \<Rightarrow> bool" where
  "admits_write jc q g =
     (case q of (kind, verb, target) \<Rightarrow>
        rule_grants jc (g_rule g) kind verb \<and>
        \<not> (verb = Propose \<and> writes_status_only (g_rule g)) \<and>
        is_none_or (\<lambda>space. Option.bind target space_ref = Some space) (g_space g) \<and>
        (\<forall>c \<in> set (r_constraints (g_rule g)). satisfied jc c (judged_target kind verb target)))"

lemma declares_egress_objects:
  assumes "declares_egress target"
  obtains m sp where "target = Some (JObject m)" "bt_get m ''spec'' = Some (JObject sp)"
proof -
  obtain t xs where t: "target = Some t" "pointer [''spec'', ''egress''] t = Some (JArray xs)"
    using assms
    by (auto simp: declares_egress_def is_some_and_iff bind_eq_Some_conv elim!: as_array.elims)
  have index: "array_index ''spec'' = None" "array_index ''egress'' = None" by code_simp+
  obtain m v where m: "t = JObject m" "bt_get m ''spec'' = Some v"
      "pointer [''egress''] v = Some (JArray xs)"
    using t(2) index by (cases t) (auto split: option.splits)
  obtain sp where "v = JObject sp" using m(3) index by (cases v) auto
  with t(1) m that show thesis by blast
qed

lemma space_ref_judged:
  "Option.bind (judged_target kind verb target) space_ref = Option.bind target space_ref"
proof (cases "egress_declared kind verb target")
  case True
  then obtain m sp where "target = Some (JObject m)" "bt_get m ''spec'' = Some (JObject sp)"
    using declares_egress_objects by (auto simp: egress_declared_def)
  with True show ?thesis
    by (simp add: judged_target_def judged_public_def unwrap_or_def space_ref_def spec_space_def
          get_str_def bt_simps)
qed (simp add: judged_target_def)

lemma visibility_judged:
  assumes "egress_declared kind verb target"
  shows "field_text (judged_target kind verb target) ''spec.visibility'' = Some ''public''"
proof -
  obtain m sp where t: "target = Some (JObject m)" "bt_get m ''spec'' = Some (JObject sp)"
    using declares_egress_objects assms by (auto simp: egress_declared_def)
  have "str_split (CHR ''.'') ''spec.visibility'' = [''spec'', ''visibility'']" by code_simp
  with t assms show ?thesis
    by (simp add: judged_target_def judged_public_def unwrap_or_def field_text_def bt_simps)
qed

lemma check_allows_iff:
  "check jc e kind verb target = Inr () \<longleftrightarrow>
     e_bootstrap e \<or> (\<exists>g \<in> set (e_grants e). admits_write jc (kind, verb, target) g)"
proof (cases "check_grants jc kind verb (judged_target kind verb target) None (e_grants e)")
  case (Inl violation)
  then have "\<not> (\<exists>g \<in> set (e_grants e). admits_write jc (kind, verb, target) g)"
    using check_grants_iff [of jc kind verb "judged_target kind verb target" None "e_grants e"]
    by (auto simp: admits_write_def space_ref_judged)
  with Inl show ?thesis by (auto simp: check_def Let_def)
next
  case (Inr u)
  then have "\<exists>g \<in> set (e_grants e). admits_write jc (kind, verb, target) g"
    using check_grants_iff [of jc kind verb "judged_target kind verb target" None "e_grants e"]
    by (auto simp: admits_write_def space_ref_judged)
  with Inr show ?thesis by (simp add: check_def Let_def)
qed

lemma may_in_iff:
  "may_in jc e kind verb space \<longleftrightarrow> e_bootstrap e \<or>
     (\<exists>g \<in> set (e_grants e). rule_grants jc (g_rule g) kind verb \<and>
        (g_organization g = None \<or> verb \<noteq> Read) \<and> is_none_or (\<lambda>bound. space = Some bound) (g_space g))"
  by (auto simp: may_in_def list_ex_iff is_none_or_def)

subsection \<open>The judgements as interpretations\<close>

interpretation writes: grant_judgement
    "\<lambda>e (kind, verb, target). check jc e kind verb target = Inr ()" "admits_write jc" for jc
  by unfold_locales (auto simp: check_allows_iff)

interpretation door: grant_judgement
    "\<lambda>e (kind, verb). may jc e kind verb"
    "\<lambda>(kind, verb) g. rule_grants jc (g_rule g) kind verb \<and>
       (g_space g = None \<or> lives_in_space kind) \<and> (g_organization g = None \<or> verb \<noteq> Read)" for jc
  by unfold_locales (auto simp: may_def list_ex_iff)

interpretation in_space: grant_judgement
    "\<lambda>e (kind, verb, space). may_in jc e kind verb space"
    "\<lambda>(kind, verb, space) g. rule_grants jc (g_rule g) kind verb \<and>
       (g_organization g = None \<or> verb \<noteq> Read) \<and>
       is_none_or (\<lambda>bound. space = Some bound) (g_space g)" for jc
  by unfold_locales (auto simp: may_in_iff)

interpretation reads: grant_judgement
    "\<lambda>e (kind, manifest). may_read_manifest jc e kind manifest"
    "\<lambda>(kind, manifest) g. rule_grants jc (g_rule g) kind Read \<and>
       (if g_organization g = None
        then is_none_or (\<lambda>bound. manifest_space kind manifest = Some bound) (g_space g)
        else \<forall>c \<in> set (r_constraints (g_rule g)). satisfied jc c (Some manifest))" for jc
  by (unfold_locales, auto simp: may_read_manifest_def may_read_in_def may_in_iff list_ex_iff list_all_iff,
      blast)

interpretation anything: grant_judgement
    "may_anything jc" "\<lambda>verb g. \<exists>kind \<in> set (r_kinds (g_rule g)). rule_grants jc (g_rule g) kind verb" for jc
  by unfold_locales (auto simp: may_anything_def list_ex_iff)

interpretation conversation: grant_judgement
    "\<lambda>e project. check_converses jc e project = Inr ()"
    "\<lambda>project g. \<not> writes_status_only (g_rule g) \<and>
       (\<exists>kind \<in> set (r_kinds (g_rule g)). rule_grants jc (g_rule g) kind Propose)" for jc
  by unfold_locales (auto simp: check_converses_def may_propose_anything_def list_ex_iff)

interpretation project: grant_judgement "\<lambda>e (_ :: unit). may_read_project e" "\<lambda>_ _. True"
  by unfold_locales (auto simp: may_read_project_def)

subsection \<open>Lemmas on narrowed grants\<close>

text \<open>What this code relies on in jc-core: a rule grants only its own kinds and verbs, with
  reading implied by proposing; \<open>oneOf\<close> admits only a listed text, \<open>notIn\<close> none.\<close>

definition core_laws :: "jc_core \<Rightarrow> bool" where
  "core_laws jc \<longleftrightarrow>
     (\<forall>rule kind verb. rule_grants jc rule kind verb \<longrightarrow>
        kind \<in> set (r_kinds rule) \<and>
        (verb \<in> set (r_verbs rule) \<or> verb = Read \<and> Propose \<in> set (r_verbs rule))) \<and>
     (\<forall>c text. constraint_holds jc c text \<and> c_one_of c \<noteq> [] \<longrightarrow>
        (\<exists>t. text = Some t \<and> t \<in> set (c_one_of c))) \<and>
     (\<forall>c t. constraint_holds jc c (Some t) \<longrightarrow> t \<notin> set (c_not_in c))"

lemma core_laws_grants:
  "core_laws jc \<Longrightarrow> rule_grants jc rule kind verb \<Longrightarrow>
     kind \<in> set (r_kinds rule) \<and>
     (verb \<in> set (r_verbs rule) \<or> verb = Read \<and> Propose \<in> set (r_verbs rule))"
  by (simp add: core_laws_def)

lemma core_laws_one_of:
  "core_laws jc \<Longrightarrow> satisfied jc (one_of field values) target \<Longrightarrow> values \<noteq> [] \<Longrightarrow>
     \<exists>t \<in> set values. field_text target field = Some t"
  unfolding core_laws_def satisfied_def one_of_def
  by (metis constraint.select_convs(1,2))

lemma core_laws_none_of:
  "core_laws jc \<Longrightarrow> satisfied jc (none_of field values) target \<Longrightarrow>
     field_text target field = Some t \<Longrightarrow> t \<notin> set values"
  unfolding core_laws_def satisfied_def none_of_def one_of_def
  by (auto, metis constraint.select_convs(3))

text \<open>The scope of a \<open>RoleBinding\<close> manifest stays inside \<open>org\<close>: it names the Organization,
  one of its projects or one of their spaces, and no other Organization or project beside it.\<close>

definition binding_stays_in :: "mirror \<Rightarrow> string \<Rightarrow> json \<Rightarrow> bool" where
  "binding_stays_in m org target \<longleftrightarrow>
     (let scope = (\<lambda>level. field_text (Some target) (''spec.scope.'' @ level))
      in (scope ''organization'' = Some org \<or>
          is_some_and (\<lambda>p. p \<in> set (own_projects m org)) (scope ''project'') \<or>
          is_some_and (\<lambda>s. s \<in> set (own_spaces m org)) (scope ''contextSpace'')) \<and>
         is_none_or (\<lambda>o'. o' = org \<or> o' \<notin> fst ` set (organizations m)) (scope ''organization'') \<and>
         is_none_or (\<lambda>p. organization_reaches m org p \<or> get m ORG_NAMESPACE ''Project'' p = None)
           (scope ''project''))"

fun own_setting :: "jc_core \<Rightarrow> mirror \<Rightarrow> string \<Rightarrow> string \<Rightarrow> verb \<Rightarrow> json \<Rightarrow> bool" where
  "own_setting jc m org kind verb target \<longleftrightarrow>
     kind = ''Organization'' \<and> verb \<noteq> Delete \<and>
       field_text (Some target) ''metadata.name'' = Some org \<and>
       field_text (Some target) ''spec.installation'' \<noteq> Some ''true'' \<or>
     kind = ''RoleBinding'' \<and> binding_stays_in m org target \<or>
     kind = ''Group'' \<and>
       is_none_or (\<lambda>name. name \<notin> set (groups_elsewhere jc m org))
         (field_text (Some target) ''metadata.name'')"

lemma narrowed_organization_grant:
  assumes "core_laws jc" and "rule_grants jc (g_rule g') ''Organization'' verb"
    and "\<forall>c \<in> set (r_constraints (g_rule g')). satisfied jc c (Some target)"
    and "g' \<in> set (push_narrowed org g ''Organization'' (filter (\<lambda>v. v \<noteq> Delete) (r_verbs (g_rule g)))
            [one_of ''metadata.name'' [org], none_of ''spec.installation'' [''true'']])"
  shows "own_setting jc m org ''Organization'' verb target"
proof -
  have "satisfied jc (one_of ''metadata.name'' [org]) (Some target)"
    "satisfied jc (none_of ''spec.installation'' [''true'']) (Some target)"
    using assms(3,4) by (auto simp: push_narrowed_mem)
  moreover have "verb \<noteq> Delete"
    using core_laws_grants [OF assms(1,2)] assms(4) by (auto simp: push_narrowed_mem)
  ultimately show ?thesis
    using core_laws_one_of [OF assms(1)] core_laws_none_of [OF assms(1)] by fastforce
qed

lemma narrowed_group_grant:
  assumes "core_laws jc"
    and "\<forall>c \<in> set (r_constraints (g_rule g')). satisfied jc c (Some target)"
    and "g' \<in> set (push_narrowed org g ''Group'' verbs
            [c, none_of ''metadata.name'' (groups_elsewhere jc m org)])"
  shows "own_setting jc m org ''Group'' verb target"
proof -
  have "satisfied jc (none_of ''metadata.name'' (groups_elsewhere jc m org)) (Some target)"
    using assms(2,3) by (auto simp: push_narrowed_mem)
  then show ?thesis
    using core_laws_none_of [OF assms(1)] by (auto simp: is_none_or_iff)
qed

lemma own_projects_mem:
  "p \<in> set (own_projects m org) \<longleftrightarrow>
     organization_reaches m org p \<and>
     p \<in> set (map (\<lambda>env. meta_name (metadata env)) (list_kind m ORG_NAMESPACE ''Project''))"
  by (auto simp: own_projects_def)

lemma narrowed_binding_grant:
  assumes "core_laws jc" and wf: "mirror_wf (jc_names jc) m"
    and sat: "\<forall>c \<in> set (r_constraints (g_rule g')). satisfied jc c (Some target)"
    and "g' \<in> set (narrowed_bindings m org g)"
  shows "binding_stays_in m org target"
proof -
  let ?names = "map (\<lambda>env. meta_name (metadata env)) (list_kind m ORG_NAMESPACE ''Project'')"
  let ?foreign = "filter (\<lambda>project. project \<notin> set (own_projects m org)) ?names"
  let ?others = "filter (\<lambda>name. name \<noteq> org) (map fst (organizations m))"
  obtain field vs where fv: "(field, vs) \<in> {(''spec.scope.organization'', [org]),
        (''spec.scope.project'', own_projects m org), (''spec.scope.contextSpace'', own_spaces m org)}"
      "vs \<noteq> []"
      "g' \<in> set (push_narrowed org g ''RoleBinding'' (r_verbs (g_rule g))
        [one_of field vs, none_of ''spec.scope.organization'' ?others,
         none_of ''spec.scope.project'' ?foreign])"
    using assms(4) by (auto simp: narrowed_bindings_def Let_def split: if_splits)
  then have c: "satisfied jc (one_of field vs) (Some target)"
    "satisfied jc (none_of ''spec.scope.organization'' ?others) (Some target)"
    "satisfied jc (none_of ''spec.scope.project'' ?foreign) (Some target)"
    using sat by (auto simp: push_narrowed_mem)
  have listed: "p \<in> set ?names" if "get m ORG_NAMESPACE ''Project'' p = Some env" for p env
    using that binding_name [OF wf that] list_kind_mem [OF wf] by force
  have "field_text (Some target) ''spec.scope.project'' = Some p \<Longrightarrow>
      organization_reaches m org p \<or> get m ORG_NAMESPACE ''Project'' p = None" for p
    using core_laws_none_of [OF assms(1) c(3)] listed own_projects_mem by fastforce
  moreover have "field_text (Some target) ''spec.scope.organization'' = Some o' \<Longrightarrow>
      o' = org \<or> o' \<notin> fst ` set (organizations m)" for o'
    using core_laws_none_of [OF assms(1) c(2)] by auto
  ultimately show ?thesis
    using core_laws_one_of [OF assms(1) c(1) fv(2)] fv(1)
    by (auto simp: binding_stays_in_def Let_def is_some_and_iff is_none_or_iff)
qed

text \<open>A narrowed grant is one of three.\<close>

lemma narrowed_cases:
  assumes "g' \<in> set (narrowed_to_own_settings jc m org g)"
  obtains (settings) "r_kinds (g_rule g') = [''Organization'']" "g' \<in> set (push_narrowed org g
        ''Organization'' (filter (\<lambda>v. v \<noteq> Delete) (r_verbs (g_rule g)))
        [one_of ''metadata.name'' [org], none_of ''spec.installation'' [''true'']])"
  | (bindings) "r_kinds (g_rule g') = [''RoleBinding'']" "g' \<in> set (narrowed_bindings m org g)"
  | (groups) c where "r_kinds (g_rule g') = [''Group'']"
      "g' \<in> set (push_narrowed org g ''Group'' (r_verbs (g_rule g))
        [c, none_of ''metadata.name'' (groups_elsewhere jc m org)])"
proof -
  have "r_kinds (g_rule g') = [''RoleBinding'']" if "g' \<in> set (narrowed_bindings m org g)"
    using that by (auto simp: narrowed_bindings_def Let_def push_narrowed_mem split: if_splits)
  moreover have "r_kinds (g_rule g') = [kind]" if "g' \<in> set (push_narrowed org g kind verbs extra)"
    for kind verbs extra using that by (simp add: push_narrowed_mem)
  ultimately show thesis
    using assms settings bindings groups
    unfolding narrowed_to_own_settings_def OWN_SETTINGS_KINDS_def
    by (simp split: if_splits) blast+
qed

text \<open>Whatever a narrowed grant admits is a setting of its own Organization.\<close>

lemma narrowed_admits_own_setting:
  assumes "core_laws jc" and "mirror_wf (jc_names jc) m"
    and "g' \<in> set (narrowed_to_own_settings jc m org g)"
    and "admits_write jc (kind, verb, Some target) g'"
  shows "get m ORG_NAMESPACE ''Organization'' org \<noteq> None \<and> own_setting jc m org kind verb target"
proof -
  have grants: "rule_grants jc (g_rule g') kind verb"
    using assms(4) by (simp add: admits_write_def)
  have "kind \<in> set (r_kinds (g_rule g'))" using core_laws_grants [OF assms(1) grants] by simp
  then have kind: "r_kinds (g_rule g') = [k] \<Longrightarrow> kind = k" for k by simp
  have exists: "get m ORG_NAMESPACE ''Organization'' org \<noteq> None"
    using assms(3) by (auto simp: narrowed_to_own_settings_def split: if_splits)
  have sat: "kind \<noteq> ''App'' \<Longrightarrow> \<forall>c \<in> set (r_constraints (g_rule g')). satisfied jc c (Some target)"
    using assms(4) by (simp add: admits_write_def judged_target_def egress_declared_def)
  from assms(3) show ?thesis
  proof (cases rule: narrowed_cases)
    case settings
    with kind have k: "kind = ''Organization''" by blast
    then show ?thesis
      using narrowed_organization_grant [OF assms(1) _ sat settings(2)] grants exists by simp
  next
    case bindings
    with kind have k: "kind = ''RoleBinding''" by blast
    then show ?thesis
      using narrowed_binding_grant [OF assms(1,2) sat bindings(2)] exists by simp
  next
    case groups
    with kind have k: "kind = ''Group''" by blast
    then show ?thesis
      using narrowed_group_grant [OF assms(1) sat groups(2)] exists by simp
  qed
qed

lemma demo_core_laws: "core_laws demo_core"
  by (auto simp: core_laws_def demo_core_def demo_rule_grants_def demo_constraint_holds_def
        is_some_and_iff is_none_or_iff)

definition demo_effective :: "string \<Rightarrow> string \<Rightarrow> effective" where
  "demo_effective who project = effective_of demo_core demo_access ''boot'' (demo_person who) project 0"

definition demo_manifest :: "string \<Rightarrow> (string \<times> json) list \<Rightarrow> json" where
  "demo_manifest name spec =
     JObject [(''metadata'', JObject [(''name'', JString name)]), (''spec'', JObject spec)]"

subsection \<open>Properties\<close>

text \<open>Property C3. A write passes the check exactly when the caller is in the bootstrap group or
  one grant covers it: the rule grants the verb on the kind, is not the build lane's status rule
  on a proposal, is bound to no other space than the manifest's, and every constraint of it holds,
  an App with egress being read as a public one. The order of the grants and what a violated
  constraint left behind never matter.\<close>

theorem check_exact:
  "check jc e kind verb target = Inr () \<longleftrightarrow>
     e_bootstrap e \<or> (\<exists>g \<in> set (e_grants e). admits_write jc (kind, verb, target) g)"
  using writes.judge_iff [of jc e "(kind, verb, target)"] by simp

text \<open>More grants never take a right away: what a caller may write, open, read
  or propose with some grants they may with any larger set of grants.\<close>

theorem more_grants_never_refuse:
  assumes "set (e_grants e) \<subseteq> set (e_grants e')" and "e_bootstrap e = e_bootstrap e'"
  shows "(check jc e kind verb target = Inr () \<longrightarrow> check jc e' kind verb target = Inr ()) \<and>
    (may jc e kind verb \<longrightarrow> may jc e' kind verb) \<and>
    (may_in jc e kind verb space \<longrightarrow> may_in jc e' kind verb space) \<and>
    (may_read_manifest jc e kind manifest \<longrightarrow> may_read_manifest jc e' kind manifest) \<and>
    (check_converses jc e project = Inr () \<longrightarrow> check_converses jc e' project = Inr ())"
  using writes.monotone [of jc e "(kind, verb, target)" e'] door.monotone [of jc e "(kind, verb)" e']
    in_space.monotone [of jc e "(kind, verb, space)" e']
    reads.monotone [of jc e "(kind, manifest)" e'] conversation.monotone [of jc e project e'] assms
  by simp

theorem more_grants_never_refuse_witness:
  "check demo_core (demo_effective ''eve'' ''bikes'') ''Pipeline'' Approve None = Inr () \<and>
   check demo_core ((demo_effective ''eve'' ''bikes'')
     \<lparr>e_grants := e_grants (demo_effective ''ada'' ''bikes'') @ e_grants (demo_effective ''eve'' ''bikes'')\<rparr>)
     ''Pipeline'' Approve None = Inr ()"
proof -
  have "check demo_core (demo_effective ''eve'' ''bikes'') ''Pipeline'' Approve None = Inr ()" by code_simp
  with more_grants_never_refuse [of "demo_effective ''eve'' ''bikes''" "(demo_effective ''eve'' ''bikes'')
     \<lparr>e_grants := e_grants (demo_effective ''ada'' ''bikes'') @ e_grants (demo_effective ''eve'' ''bikes'')\<rparr>"]
  show ?thesis by simp
qed

text \<open>Property C4. The administrator of one Organization stays inside it: at the organization's
  namespace every write that passes the check is a setting of that Organization, namely its own
  Organization manifest (never deleted, never made the installation's), a RoleBinding scoped to
  it, its projects or their spaces and to no other Organization or project beside them, or a
  Group no one outside the Organization relies on. An Organization that is not in the repository
  is given nothing.\<close>

theorem organization_admin_confined:
  assumes "core_laws jc" and "mirror_wf (jc_names jc) m"
    and "\<not> in_group identity boot" and "\<not> organization_reaches m org ORG_NAMESPACE"
    and "\<forall>(r, g) \<in> set (in_force jc m identity now). r = ReachOrganization org"
    and "check jc (effective_of jc m boot identity ORG_NAMESPACE now) kind verb (Some target) = Inr ()"
  shows "get m ORG_NAMESPACE ''Organization'' org \<noteq> None \<and> own_setting jc m org kind verb target"
proof -
  have "\<not> e_bootstrap (effective_of jc m boot identity ORG_NAMESPACE now)"
    using assms(3) by (simp add: effective_of_def Let_def)
  with assms(6) obtain g where g: "g \<in> set (e_grants (effective_of jc m boot identity ORG_NAMESPACE now))"
    "admits_write jc (kind, verb, Some target) g"
    by (auto simp: check_allows_iff)
  obtain g0 where "g \<in> set (narrowed_to_own_settings jc m org g0)"
    using effective_grant_origin [OF g(1)] assms(4,5) by (fastforce split: if_splits)
  from narrowed_admits_own_setting [OF assms(1,2) this g(2)] show ?thesis .
qed

theorem organization_admin_confined_witness:
  "own_setting demo_core demo_access ''espoo'' ''RoleBinding'' Approve
     (demo_manifest ''b'' [(''scope'', JObject [(''project'', JString ''bikes'')])])"
proof -
  have "mirror_wf (jc_names demo_core) demo_access" using demo_access_wf by (simp add: demo_core_def)
  moreover have "\<not> in_group (demo_person ''ada'') ''boot''"
    "\<not> organization_reaches demo_access ''espoo'' ORG_NAMESPACE"
    "\<forall>(r, g) \<in> set (in_force demo_core demo_access (demo_person ''ada'') 0).
       r = ReachOrganization ''espoo''"
    "check demo_core (effective_of demo_core demo_access ''boot'' (demo_person ''ada'') ORG_NAMESPACE 0)
       ''RoleBinding'' Approve
       (Some (demo_manifest ''b'' [(''scope'', JObject [(''project'', JString ''bikes'')])])) = Inr ()"
    by code_simp+
  ultimately show ?thesis using organization_admin_confined [OF demo_core_laws] by blast
qed

text \<open>An administrator of one Organization does not administer the installation, and
  what is for organization administrators is refused them.\<close>

theorem organization_admin_is_no_installation_admin:
  assumes "\<not> in_group identity boot" and "\<not> organization_reaches m org ORG_NAMESPACE"
    and "\<forall>(r, g) \<in> set (in_force jc m identity now). r = ReachOrganization org"
  shows "require_organization_admin jc m boot identity now action =
    Inl (Denied (action @ '' is for organization administrators, on the Administration page (UI-87)''))"
proof -
  let ?e = "effective_of jc m boot identity ORG_NAMESPACE now"
  have "g_organization g \<noteq> None" if "g \<in> set (e_grants ?e)" for g
    using effective_grant_origin [OF that] assms(2,3) by (fastforce split: if_splits)
  moreover have "\<not> e_bootstrap ?e" using assms(1) by (simp add: effective_of_def Let_def)
  ultimately have "\<not> administers_organization jc ?e"
    by (auto simp: administers_organization_def list_ex_iff)
  then show ?thesis by (simp add: require_organization_admin_def)
qed

theorem organization_admin_is_no_installation_admin_witness:
  "require_organization_admin demo_core demo_access ''boot'' (demo_person ''ada'') 0 ''Pruning'' =
     Inl (Denied (''Pruning'' @ '' is for organization administrators, on the Administration page (UI-87)''))"
  by (rule organization_admin_is_no_installation_admin [where org = "''espoo''"]; code_simp)

text \<open>A steward of some spaces acts only there: when every grant is bound to a space,
  a write passes the check only for a manifest of one of the spaces reached.\<close>

theorem steward_confined_to_spaces:
  assumes "spaces_reached e = Some spaces" and "check jc e kind verb target = Inr ()"
  shows "\<exists>space \<in> set spaces. Option.bind target space_ref = Some space \<and>
    (if verb = Read then True else may_in jc e kind verb (Some space))"
proof -
  have nb: "\<not> e_bootstrap e" and sp: "\<forall>g \<in> set (e_grants e). g_space g \<noteq> None"
    and spaces: "spaces = bt_set (List.map_filter g_space (e_grants e))"
    using assms(1) by (auto simp: spaces_reached_def list_ex_iff split: if_splits)
  obtain g where g: "g \<in> set (e_grants e)" "admits_write jc (kind, verb, target) g"
    using assms(2) nb by (auto simp: check_allows_iff)
  then obtain space where space: "g_space g = Some space" using sp by blast
  then have "Option.bind target space_ref = Some space" "rule_grants jc (g_rule g) kind verb"
    using g(2) by (auto simp: admits_write_def is_none_or_def)
  moreover have "space \<in> set spaces"
    using g(1) space spaces by (force simp: map_filter_Some_iff)
  moreover have "may_in jc e kind verb (Some space)" if "verb \<noteq> Read"
    using that g(1) space calculation(2)
    unfolding may_in_iff by (intro disjI2 bexI [of _ g]) (simp_all add: is_none_or_def)
  ultimately show ?thesis by auto
qed

theorem steward_confined_to_spaces_witness:
  "\<exists>space \<in> set [''stations'']. Option.bind (Some (demo_manifest ''e''
       [(''contextSpaceRef'', JString ''stations'')])) space_ref = Some space \<and>
     (if Propose = Read then True
      else may_in demo_core (demo_effective ''sam'' ''bikes'') ''Endpoint'' Propose (Some space))"
  by (rule steward_confined_to_spaces; code_simp)

text \<open>The quick answer for a stored manifest is the right one: judging an envelope,
  with its shortcut for grants that read the whole project, is judging its serialised manifest.\<close>

theorem may_read_envelope_is_may_read_manifest:
  assumes "to_value env = Inr manifest"
  shows "may_read_envelope jc to_value e kind env = may_read_manifest jc e kind manifest"
  using assms
  by (auto simp: may_read_envelope_def may_read_manifest_def may_read_in_def may_in_iff list_ex_iff
        is_some_and_iff is_none_or_def)

theorem may_read_envelope_is_may_read_manifest_witness:
  "may_read_envelope demo_core (\<lambda>env. Inr (demo_manifest (meta_name (metadata env)) []))
     (demo_effective ''eve'' ''bikes'') ''Pipeline'' (demo_env ''bikes'' ''Pipeline'' ''p'' JNull)"
proof -
  have "may_read_manifest demo_core (demo_effective ''eve'' ''bikes'') ''Pipeline'' (demo_manifest ''p'' [])"
    by code_simp
  with may_read_envelope_is_may_read_manifest [where to_value = "\<lambda>env. Inr (demo_manifest (meta_name (metadata env)) [])"]
  show ?thesis by (simp add: demo_env_def)
qed

text \<open>An App with destinations on the internet is approved as a public one: when
  every approving grant on Apps is constrained to a visibility that is not public, the approval is
  refused whatever visibility the manifest declares, and the refusal says which role is needed.\<close>

theorem egress_needs_a_publisher:
  assumes "declares_egress (Some target)" and "\<not> e_bootstrap e"
    and "\<forall>g \<in> set (e_grants e). rule_grants jc (g_rule g) ''App'' Approve \<longrightarrow>
      (\<exists>c \<in> set (r_constraints (g_rule g)).
         c_field c = ''spec.visibility'' \<and> \<not> constraint_holds jc c (Some ''public''))"
  shows "check jc e ''App'' Approve (Some target) = Inl (Denied EGRESS_APP)"
proof -
  have eg: "egress_declared ''App'' Approve (Some target)"
    using assms(1) by (simp add: egress_declared_def)
  have "\<not> admits_write jc (''App'', Approve, Some target) g" if "g \<in> set (e_grants e)" for g
    using assms(3) that visibility_judged [OF eg] by (fastforce simp: admits_write_def satisfied_def)
  then have "check jc e ''App'' Approve (Some target) \<noteq> Inr ()"
    using assms(2) by (auto simp: check_allows_iff)
  then show ?thesis
    using eg by (auto simp: check_def Let_def assms(2) split: sum.splits if_splits)
qed

theorem egress_needs_a_publisher_witness:
  "check demo_core (\<lparr>e_project = ''bikes'', e_bootstrap = False, e_grants =
      [\<lparr>g_role = ''steward'', g_binding = ''b'', g_scope = ''project:bikes'', g_space = None,
        g_organization = None, g_rule = \<lparr>r_kinds = [''App''], r_verbs = [Approve],
          r_constraints = [none_of ''spec.visibility'' [''public'']]\<rparr>\<rparr>]\<rparr>)
     ''App'' Approve (Some (demo_manifest ''a'' [(''egress'', demo_strings [''example.com'']),
        (''visibility'', JString ''project'')])) = Inl (Denied EGRESS_APP)"
  by (rule egress_needs_a_publisher; code_simp)

end
