(* ===== verification/AccessGuards.thy ===== *)
theory AccessGuards
  imports Judgements "HOL-Library.Multiset"
begin

text \<open>
  The guards on changes of access and the lists of people: \<open>may_read_space\<close> to
  \<open>only_drops_grants\<close> and \<open>account_access\<close> of \<open>src/permissions.rs\<close>.

  A \<open>BTreeSet\<close> that is only collected and asked for membership is a set here. \<open>AppState\<close>
  contributes the mirror and the bootstrap group, \<open>Utc::now()\<close> is \<open>now\<close>,
  \<open>serde_json::to_value\<close> of an envelope is \<open>to_value\<close>.
\<close>

subsection \<open>People and members\<close>

definition named_person :: "jc_core \<Rightarrow> mirror \<Rightarrow> string \<Rightarrow> identity" where
  "named_person jc m person =
     \<lparr>id_subject = person, id_username = person, id_email = Some person, id_name = None,
      id_roles = [],
      id_groups = map (\<lambda>env. meta_name (metadata env))
        (filter (\<lambda>env. case parse_group jc (env_spec env) of
           Inl _ \<Rightarrow> False
         | Inr members \<Rightarrow> list_ex (\<lambda>user. eq_ignore_ascii_case user person) members)
        (list_kind m ORG_NAMESPACE ''Group'')),
      id_client = None, id_second_factor = False\<rparr>"

definition may_read_space :: "jc_core \<Rightarrow> mirror \<Rightarrow> string \<Rightarrow> string \<Rightarrow> string \<Rightarrow> int \<Rightarrow> bool" where
  "may_read_space jc m project space person now =
     (let granted = effective_of jc m [] (named_person jc m person) project now
      in may_read_project granted \<and> may_read_in jc granted ''ContextSpace'' (Some space))"

record ProjectMembers =
  pm_readers :: "string set"
  pm_writers :: "string set"
  pm_approvers :: "string set"

definition group_members :: "jc_core \<Rightarrow> mirror \<Rightarrow> (string, string list) btree" where
  "group_members jc m =
     bt_collect (map (\<lambda>env. (meta_name (metadata env),
       case parse_group jc (env_spec env) of Inr members \<Rightarrow> members | Inl _ \<Rightarrow> []))
       (list_kind m ORG_NAMESPACE ''Group''))"

definition people_of :: "(string, string list) btree \<Rightarrow> subject list \<Rightarrow> string set" where
  "people_of grps subjects =
     set (filter (\<lambda>person. person \<noteq> [])
       (map (\<lambda>person. to_ascii_lowercase (str_trim person))
         (concat (map (\<lambda>s.
            (case sb_user s of None \<Rightarrow> [] | Some user \<Rightarrow> [user]) @
            (case Option.bind (sb_group s) (bt_get grps) of None \<Rightarrow> [] | Some members \<Rightarrow> members))
            subjects))))"

definition some_rule_grants :: "jc_core \<Rightarrow> role_spec \<Rightarrow> verb \<Rightarrow> bool" where
  "some_rule_grants jc role verb =
     list_ex (\<lambda>rule. list_ex (\<lambda>kind. rule_grants jc rule kind verb) (r_kinds rule)) (rs_rules role)"

text \<open>The body of the loop of \<open>members_where\<close>.\<close>

definition add_members ::
    "jc_core \<Rightarrow> mirror \<Rightarrow> (string \<times> role_spec) list \<Rightarrow> (string, string list) btree \<Rightarrow> int \<Rightarrow>
     (reach \<Rightarrow> bool) \<Rightarrow> envelope \<Rightarrow> ProjectMembers \<Rightarrow> ProjectMembers" where
  "add_members jc m organization grps now counts env members =
     (case parse_binding jc (env_spec env) of
        Inl _ \<Rightarrow> members
      | Inr b \<Rightarrow>
          if is_some_and (\<lambda>v. \<not> validity_contains jc v now) (b_validity b) then members
          else
            (case reach_of (b_scope b) of
               None \<Rightarrow> members
             | Some r \<Rightarrow>
                 if \<not> counts r then members
                 else
                   (case role_of jc m organization r (b_role b) of
                      None \<Rightarrow> members
                    | Some (_, role) \<Rightarrow>
                        let reads = some_rule_grants jc role Read;
                            approves = some_rule_grants jc role Approve;
                            writes = some_rule_grants jc role Propose \<or>
                              some_rule_grants jc role Delete \<or> approves;
                            people = people_of grps (b_subjects b)
                        in if \<not> reads \<and> \<not> writes then members
                           else
                             \<lparr>pm_readers = pm_readers members \<union> (if reads then people else {}),
                              pm_writers = pm_writers members \<union> (if writes then people else {}),
                              pm_approvers = pm_approvers members \<union> (if approves then people else {})\<rparr>)))"

definition members_where :: "jc_core \<Rightarrow> mirror \<Rightarrow> int \<Rightarrow> (reach \<Rightarrow> bool) \<Rightarrow> ProjectMembers" where
  "members_where jc m now counts =
     fold (add_members jc m (roles jc m ORG_NAMESPACE) (group_members jc m) now counts)
       (list_kind m ORG_NAMESPACE ''RoleBinding'')
       \<lparr>pm_readers = {}, pm_writers = {}, pm_approvers = {}\<rparr>"

definition project_members :: "jc_core \<Rightarrow> mirror \<Rightarrow> string \<Rightarrow> int \<Rightarrow> ProjectMembers" where
  "project_members jc m project now =
     members_where jc m now (\<lambda>r. case r of
        ReachOrganization org \<Rightarrow> organization_reaches m org project
      | ReachProject held \<Rightarrow> held = project
      | ReachSpace _ \<Rightarrow> False)"

definition organization_scoped_people :: "jc_core \<Rightarrow> mirror \<Rightarrow> string \<Rightarrow> int \<Rightarrow> string set" where
  "organization_scoped_people jc m org now =
     (let members = members_where jc m now (\<lambda>r. r = ReachOrganization org)
      in pm_readers members \<union> pm_writers members)"

definition organization_people :: "jc_core \<Rightarrow> mirror \<Rightarrow> int \<Rightarrow> string set" where
  "organization_people jc m now =
     \<Union> (set (map (\<lambda>b. people_of (group_members jc m) (b_subjects b))
       (filter (\<lambda>b. is_none_or (\<lambda>v. validity_contains jc v now) (b_validity b))
         (List.map_filter (\<lambda>env. case parse_binding jc (env_spec env) of Inr b \<Rightarrow> Some b | Inl _ \<Rightarrow> None)
           (list_kind m ORG_NAMESPACE ''RoleBinding'')))))"

subsection \<open>The last administrator\<close>

datatype access_change = WriteChange json | RemoveChange string string string

definition spec_table :: "mirror \<Rightarrow> string \<Rightarrow> (string, json) btree" where
  "spec_table m kind =
     bt_collect (map (\<lambda>env. (meta_name (metadata env), env_spec env)) (list_kind m ORG_NAMESPACE kind))"

definition installation_scope :: "mirror \<Rightarrow> string option option" where
  "installation_scope m =
     (if length (organizations m) > 1 then Some (installation_organization m) else None)"

definition administers :: "jc_core \<Rightarrow> (string, json) btree \<Rightarrow> string \<Rightarrow> bool" where
  "administers jc role_specs role =
     is_some_and (\<lambda>spec. case parse_role jc spec of
         Inl _ \<Rightarrow> False
       | Inr rs \<Rightarrow> list_ex (\<lambda>rule. r_constraints rule = [] \<and> ''RoleBinding'' \<in> set (r_kinds rule) \<and>
           Approve \<in> set (r_verbs rule) \<and> Delete \<in> set (r_verbs rule)) (rs_rules rs))
       (bt_get role_specs role)"

definition administrators ::
    "jc_core \<Rightarrow> (string, json) btree \<Rightarrow> (string, json) btree \<Rightarrow> string option option \<Rightarrow> int \<Rightarrow>
     string list" where
  "administrators jc role_specs bindings installation now =
     List.map_filter (\<lambda>(name, spec).
       (case parse_binding jc spec of
          Inl _ \<Rightarrow> None
        | Inr b \<Rightarrow>
            let in_window = is_none_or (\<lambda>v. validity_contains jc v now) (b_validity b);
                counts = (case installation of
                    None \<Rightarrow> sc_organization (b_scope b) \<noteq> None
                  | Some inst \<Rightarrow> inst \<noteq> None \<and> sc_organization (b_scope b) = inst)
            in if counts \<and> b_subjects b \<noteq> [] \<and> in_window \<and> administers jc role_specs (b_role b)
               then Some name else None)) bindings"

fun change_parts :: "access_change \<Rightarrow> string \<times> string \<times> string \<times> json option" where
  "change_parts (WriteChange manifest) =
     (unwrap_or [] (get_str ''kind'' manifest),
      unwrap_or ORG_NAMESPACE (ptr_str [''metadata'', ''namespace''] manifest),
      unwrap_or [] (ptr_str [''metadata'', ''name''] manifest),
      jget ''spec'' manifest)"
| "change_parts (RemoveChange kind ns name) = (kind, ns, name, None)"

definition write_table ::
    "string \<Rightarrow> json option \<Rightarrow> (string, json) btree \<Rightarrow> (string, json) btree" where
  "write_table name written table =
     (case written of Some spec \<Rightarrow> bt_insert name spec table | None \<Rightarrow> bt_remove name table)"

text \<open>One turn of the loop over the changes, on \<open>touched\<close>, the roles and the bindings.\<close>

definition change_tables ::
    "access_change \<Rightarrow> bool \<times> (string, json) btree \<times> (string, json) btree \<Rightarrow>
     bool \<times> (string, json) btree \<times> (string, json) btree" where
  "change_tables change state =
     (case (change_parts change, state) of
        ((kind, ns, name, written), (touched, role_specs, bindings)) \<Rightarrow>
          if kind \<notin> {''Role'', ''RoleBinding''} \<or> ns \<notin> {ORG_NAMESPACE, []} then state
          else if kind = ''Role'' then (True, write_table name written role_specs, bindings)
          else (True, role_specs, write_table name written bindings))"

definition keeps_an_administrator_after ::
    "jc_core \<Rightarrow> mirror \<Rightarrow> int \<Rightarrow> access_change list \<Rightarrow> api_error + unit" where
  "keeps_an_administrator_after jc m now changes =
     (let role_specs = spec_table m ''Role'';
          bindings = spec_table m ''RoleBinding'';
          installation = installation_scope m;
          before = administrators jc role_specs bindings installation now
      in if before = [] then Inr ()
         else
           (case fold change_tables changes (False, role_specs, bindings) of
              (touched, role_specs', bindings') \<Rightarrow>
                if touched \<and> administrators jc role_specs' bindings' installation now = []
                then Inl (Conflict (''this change would leave the organization without an administrator: after it, no binding at organization scope grants approve and delete on RoleBinding (today: '' @
                  str_join '', '' before @
                  ''). Bind another person to such a role first, then make this change (PF-03)''))
                else Inr ()))"

definition keeps_an_administrator ::
    "jc_core \<Rightarrow> mirror \<Rightarrow> int \<Rightarrow> access_change \<Rightarrow> api_error + unit" where
  "keeps_an_administrator jc m now change = keeps_an_administrator_after jc m now [change]"

definition administrator_people :: "jc_core \<Rightarrow> mirror \<Rightarrow> int \<Rightarrow> string set" where
  "administrator_people jc m now =
     (let bindings = spec_table m ''RoleBinding'';
          grps = spec_table m ''Group''
      in \<Union> (set (map (\<lambda>name.
           (case Option.bind (bt_get bindings name)
                   (\<lambda>spec. case parse_binding jc spec of Inr b \<Rightarrow> Some b | Inl _ \<Rightarrow> None) of
              None \<Rightarrow> {}
            | Some b \<Rightarrow> \<Union> (set (map (\<lambda>s.
                set (case sb_user s of None \<Rightarrow> [] | Some user \<Rightarrow> [to_ascii_lowercase user]) \<union>
                (case Option.bind (sb_group s) (bt_get grps) of
                   None \<Rightarrow> {}
                 | Some grp \<Rightarrow>
                     set (map to_ascii_lowercase
                       (case parse_group jc grp of Inr members \<Rightarrow> members | Inl _ \<Rightarrow> []))))
                (b_subjects b)))))
         (administrators jc (spec_table m ''Role'') bindings (installation_scope m) now))))"

subsection \<open>Nobody grants above their own rights\<close>

definition subjects_name_a_group :: "mirror \<Rightarrow> json \<Rightarrow> api_error + unit" where
  "subjects_name_a_group m manifest =
     (if unwrap_or [] (get_str ''kind'' manifest) \<notin> {''RoleBinding'', ''ServiceAccount''} then Inr ()
      else
        let named = List.map_filter (get_str ''group'')
              (unwrap_or [] (Option.bind (pointer [''spec'', ''subjects''] manifest) as_array));
            declared = map (\<lambda>env. meta_name (metadata env)) (list_kind m ORG_NAMESPACE ''Group'')
        in (case List.find (\<lambda>grp. get m ORG_NAMESPACE ''Group'' grp = None) named of
              None \<Rightarrow> Inr ()
            | Some grp \<Rightarrow>
                Inl (BadRequest (''spec.subjects names the group '' @ apostrophe @ grp @ apostrophe @
                  '', and no Group manifest declares it; propose the group first, or a binding to it matches nobody (PF-62, PF-64). Declared: '' @
                  (if declared = [] then ''none'' else str_join '', '' declared)))))"

fun position :: "'a \<Rightarrow> 'a list \<Rightarrow> nat option" where
  "position x [] = None"
| "position x (y # ys) = (if y = x then Some 0 else map_option Suc (position x ys))"

text \<open>The closure of \<open>all\<close>, with what is left of \<open>held\<close> passed along.\<close>

fun each_held :: "granted_role list \<Rightarrow> granted_role list \<Rightarrow> bool" where
  "each_held held [] = True"
| "each_held held (g # gs) =
     (case position g held of
        None \<Rightarrow> False
      | Some at \<Rightarrow> each_held (take at held @ drop (Suc at) held) gs)"

definition only_drops_grants :: "jc_core \<Rightarrow> json \<Rightarrow> account_spec \<Rightarrow> bool" where
  "only_drops_grants jc before head =
     (case Option.bind (jget ''spec'' before)
             (\<lambda>spec. case parse_account jc spec of Inr a \<Rightarrow> Some a | Inl _ \<Rightarrow> None) of
        None \<Rightarrow> False
      | Some a \<Rightarrow> each_held (a_roles a) (a_roles head))"

definition replaces_only_own_settings ::
    "jc_core \<Rightarrow> (envelope \<Rightarrow> string + json) \<Rightarrow> mirror \<Rightarrow> string \<Rightarrow> identity \<Rightarrow> int \<Rightarrow> json \<Rightarrow> string \<Rightarrow>
     api_error + unit" where
  "replaces_only_own_settings jc to_value m boot identity now manifest who =
     (case (ptr_str [''kind''] manifest, ptr_str [''metadata'', ''name''] manifest) of
        (Some kind, Some name) \<Rightarrow>
          if kind \<notin> set OWN_SETTINGS_KINDS \<or>
             ptr_str [''metadata'', ''namespace''] manifest \<notin> {None, Some ORG_NAMESPACE, Some []}
          then Inr ()
          else
            let verb = (if who = ''approver'' then Approve else Propose);
                e = effective_of jc m boot identity ORG_NAMESPACE now;
                narrowed_only = \<not> e_bootstrap e \<and>
                  list_ex (\<lambda>g. g_organization g \<noteq> None) (e_grants e) \<and>
                  \<not> list_ex (\<lambda>g. g_organization g = None \<and> rule_grants jc (g_rule g) kind verb) (e_grants e)
            in if \<not> narrowed_only then Inr ()
               else if kind = ''Group'' \<and>
                 Option.bind (pointer [''metadata'', ''annotations''] manifest) (jget APP_LABEL) \<noteq> None
               then Inl (Denied (''metadata.annotations: the Group '' @ name @
                 '' may not name an App; an App'' @ apostrophe @ ''s default group is the installation administrators'' @
                 apostrophe @ '' to make (ADR-N-058, AP-118)''))
               else
                 (case get m ORG_NAMESPACE kind name of
                    None \<Rightarrow> Inr ()
                  | Some env \<Rightarrow>
                      (case to_value env of
                         Inl err \<Rightarrow> Inl (Internal err)
                       | Inr replaced \<Rightarrow>
                           (case check jc e kind verb (Some replaced) of
                              Inr _ \<Rightarrow> Inr ()
                            | Inl _ \<Rightarrow> Inl (Denied (kind @ '' '' @ name @
                                '' as it stands belongs to another Organization or to the installation; its administrators change it (ADR-N-058, PF-123)'')))))
      | _ \<Rightarrow> Inr ())"

definition no_scope :: api_error where
  "no_scope = BadRequest ''spec.scope names no organization, project or context space''"

definition reads_spec :: "string + 'a \<Rightarrow> api_error + 'a" where
  "reads_spec parsed = (case parsed of Inl e \<Rightarrow> Inl (BadRequest (''spec: '' @ e)) | Inr x \<Rightarrow> Inr x)"

definition rules_at :: "jc_core \<Rightarrow> mirror \<Rightarrow> string \<Rightarrow> reach \<Rightarrow> rule list option" where
  "rules_at jc m name target =
     map_option (\<lambda>(_, spec). rs_rules spec) (role_of jc m (roles jc m ORG_NAMESPACE) target name)"

text \<open>The loop over the roles of a service account.\<close>

fun account_targets ::
    "jc_core \<Rightarrow> mirror \<Rightarrow> granted_role list \<Rightarrow> api_error + (rule list \<times> reach) list" where
  "account_targets jc m [] = Inr []"
| "account_targets jc m (granted # rest) =
     (case reach_of (gr_scope granted) of
        None \<Rightarrow> Inl no_scope
      | Some target \<Rightarrow>
          and_then (account_targets jc m rest) (\<lambda>grants.
            Inr (case rules_at jc m (gr_role granted) target of
                   None \<Rightarrow> grants
                 | Some rules \<Rightarrow> (rules, target) # grants)))"

text \<open>What a manifest grants, each rule with the reach it is granted at; \<open>None\<close> for a kind that
  grants nothing.\<close>

definition grants_of_manifest ::
    "jc_core \<Rightarrow> mirror \<Rightarrow> json \<Rightarrow> json option \<Rightarrow>
     api_error + (string \<times> (rule list \<times> reach) list) option" where
  "grants_of_manifest jc m manifest before =
     (let spec = unwrap_or JNull (jget ''spec'' manifest)
      in (case get_str ''kind'' manifest of
            None \<Rightarrow> Inr None
          | Some kind \<Rightarrow>
              if kind = ''Role'' then
                and_then (reads_spec (parse_role jc spec)) (\<lambda>role.
                  let ns = unwrap_or ORG_NAMESPACE (ptr_str [''metadata'', ''namespace''] manifest);
                      at = (if ns \<in> {ORG_NAMESPACE, []}
                            then ReachOrganization (unwrap_or [] (installation_organization m))
                            else ReachProject ns)
                  in Inr (Some (''role'', [(rs_rules role, at)])))
              else if kind = ''RoleBinding'' then
                and_then (reads_spec (parse_binding jc spec)) (\<lambda>b.
                  (case reach_of (b_scope b) of
                     None \<Rightarrow> Inl no_scope
                   | Some target \<Rightarrow>
                       (case rules_at jc m (b_role b) target of
                          None \<Rightarrow> Inl (Denied (''no role '' @ b_role b @
                            '' is defined where this binding applies; propose the role before a binding to it (PF-52, PF-69)''))
                        | Some rules \<Rightarrow> Inr (Some (''binding'', [(rules, target)])))))
              else if kind = ''ServiceAccount'' then
                and_then (reads_spec (parse_account jc spec)) (\<lambda>account.
                  let narrows = is_some_and (\<lambda>b. only_drops_grants jc b account) before
                  in and_then (account_targets jc m (if narrows then [] else a_roles account))
                       (\<lambda>grants. Inr (Some (''service account'', grants))))
              else Inr None))"

definition holds_right ::
    "jc_core \<Rightarrow> mirror \<Rightarrow> (reach \<times> grant) list \<Rightarrow> reach \<Rightarrow> rule \<Rightarrow> string \<Rightarrow> verb \<Rightarrow> bool" where
  "holds_right jc m held target rule kind verb =
     list_ex (\<lambda>(r, g). covers m r target \<and> rule_grants jc (g_rule g) kind verb \<and>
       list_all (\<lambda>c. c \<in> set (r_constraints rule)) (r_constraints (g_rule g))) held"

definition push_new :: "'a \<Rightarrow> 'a list \<Rightarrow> 'a list" where
  "push_new item missing = (if item \<in> set missing then missing else missing @ [item])"

definition missing_rights ::
    "jc_core \<Rightarrow> mirror \<Rightarrow> (reach \<times> grant) list \<Rightarrow> (rule list \<times> reach) list \<Rightarrow> string list" where
  "missing_rights jc m held grants =
     fold push_new
       (concat (map (\<lambda>(rules, target).
          concat (map (\<lambda>rule.
            concat (map (\<lambda>kind.
              concat (map (\<lambda>verb.
                if holds_right jc m held target rule kind verb then []
                else [verb_name jc verb @ '' on '' @ kind]) (r_verbs rule))) (r_kinds rule))) rules)) grants)) []"

definition within_own_rights ::
    "jc_core \<Rightarrow> (envelope \<Rightarrow> string + json) \<Rightarrow> mirror \<Rightarrow> string \<Rightarrow> identity \<Rightarrow> int \<Rightarrow> json \<Rightarrow>
     json option \<Rightarrow> string \<Rightarrow> api_error + unit" where
  "within_own_rights jc to_value m boot identity now manifest before who =
     and_then (subjects_name_a_group m manifest) (\<lambda>_.
     and_then (replaces_only_own_settings jc to_value m boot identity now manifest who) (\<lambda>_.
     and_then (keeps_an_administrator jc m now (WriteChange manifest)) (\<lambda>_.
     and_then (grants_of_manifest jc m manifest before) (\<lambda>granted.
       (case granted of
          None \<Rightarrow> Inr ()
        | Some (noun, grants) \<Rightarrow>
            if in_group identity boot then Inr ()
            else
              let missing = missing_rights jc m (in_force jc m identity now) grants
              in if missing = [] then Inr ()
                 else Inl (Denied (''a '' @ noun @ '' may not grant more than its '' @ who @
                   '' holds: missing '' @ str_join '', '' missing @ '' (PF-52)'')))))))"

subsection \<open>A service account's grants as its page reads them\<close>

datatype grant_state = Active | Pending | Expired

record account_grant =
  ag_index :: nat
  ag_role :: string
  ag_scope :: string
  ag_not_before :: "int option"
  ag_not_after :: "int option"
  ag_state :: grant_state
  ag_rules :: "rule list"

definition grant_state_at :: "int option \<Rightarrow> int option \<Rightarrow> int \<Rightarrow> grant_state" where
  "grant_state_at from to now =
     (if is_some_and (\<lambda>f. now < f) from then Pending
      else if is_some_and (\<lambda>t. t < now) to then Expired else Active)"

definition account_access :: "jc_core \<Rightarrow> mirror \<Rightarrow> account_spec \<Rightarrow> int \<Rightarrow> account_grant list" where
  "account_access jc m spec now =
     map (\<lambda>(index, granted).
       let window = unwrap_or \<lparr>not_before = None, not_after = None\<rparr> (gr_validity granted);
           r = reach_of (gr_scope granted);
           rules = (case Option.bind r (\<lambda>r. role_of jc m (roles jc m ORG_NAMESPACE) r (gr_role granted)) of
               None \<Rightarrow> []
             | Some (_, role) \<Rightarrow> List.map_filter account_rule (rs_rules role))
       in \<lparr>ag_index = index, ag_role = gr_role granted,
           ag_scope = (case r of None \<Rightarrow> [] | Some r \<Rightarrow> reach_name r),
           ag_not_before = not_before window, ag_not_after = not_after window,
           ag_state = grant_state_at (not_before window) (not_after window) now, ag_rules = rules\<rparr>)
     (enumerate 0 (a_roles spec))"

subsection \<open>Lemmas on the tables of roles and bindings\<close>

lemma spec_table_get:
  assumes "mirror_wf jc m"
  shows "bt_get (spec_table m kind) name = map_option env_spec (get m ORG_NAMESPACE kind name)"
proof -
  let ?kvs = "map (\<lambda>env. (meta_name (metadata env), env_spec env)) (list_kind m ORG_NAMESPACE kind)"
  have mem: "(n, v) \<in> set ?kvs \<longleftrightarrow> (\<exists>env. get m ORG_NAMESPACE kind n = Some env \<and> v = env_spec env)"
    for n v
    using list_kind_mem [OF assms, of _ ORG_NAMESPACE kind] binding_name [OF assms, of ORG_NAMESPACE kind]
    by (auto simp: image_iff)
  have "bt_get (bt_collect ?kvs) name = Some v \<longleftrightarrow> (name, v) \<in> set ?kvs" for v
    by (rule bt_collect_get_mem) (auto simp: mem simp del: set_map)
  then show ?thesis
    unfolding spec_table_def mem by (cases "get m ORG_NAMESPACE kind name") (auto simp: option.expand)
qed

lemma spec_table_wf: "bt_wf (spec_table m kind)"
  by (simp add: spec_table_def bt_collect_wf)

lemma spec_table_upsert:
  assumes "mirror_wf jc m" and "meta_namespace (metadata env) = Some ORG_NAMESPACE"
    and "is_dns1123 jc ORG_NAMESPACE" and "is_manifest_name jc (env_kind env) (meta_name (metadata env))"
  shows "spec_table (upsert jc env m) kind =
    (if kind = env_kind env then bt_insert (meta_name (metadata env)) (env_spec env) (spec_table m kind)
     else spec_table m kind)"
proof (rule bt.entries_extensional)
  show "bt_get (spec_table (upsert jc env m) kind) k =
      bt_get (if kind = env_kind env then bt_insert (meta_name (metadata env)) (env_spec env) (spec_table m kind)
        else spec_table m kind) k" for k
    using assms get_upsert [of jc env m]
    by (auto simp: spec_table_get [OF assms(1)] spec_table_get [OF mirror_wf_upsert [OF assms(1)]]
          envelope_key_def unwrap_or_def bt_simps)
qed (simp_all add: spec_table_wf bt_wf_insert)

lemma spec_table_remove:
  assumes "mirror_wf jc m"
  shows "spec_table (snd (remove (ResourceKey ORG_NAMESPACE k name) m)) kind =
    (if kind = k then bt_remove name (spec_table m kind) else spec_table m kind)"
proof (rule bt.entries_extensional)
  show "bt_get (spec_table (snd (remove (ResourceKey ORG_NAMESPACE k name) m)) kind) n =
      bt_get (if kind = k then bt_remove name (spec_table m kind) else spec_table m kind) n" for n
    by (simp add: spec_table_get [OF assms] spec_table_get [OF mirror_wf_remove [OF assms]]
          get_remove bt_simps)
qed (simp_all add: spec_table_wf bt_wf_remove)

text \<open>What a landed change does to the mirror: the written manifest replaces its key, the removed
  one is gone. A manifest that writes an envelope says its kind, namespace, name and spec.\<close>

definition writes_envelope :: "json \<Rightarrow> envelope \<Rightarrow> bool" where
  "writes_envelope manifest env \<longleftrightarrow>
     get_str ''kind'' manifest = Some (env_kind env) \<and>
     ptr_str [''metadata'', ''namespace''] manifest = meta_namespace (metadata env) \<and>
     ptr_str [''metadata'', ''name''] manifest = Some (meta_name (metadata env)) \<and>
     jget ''spec'' manifest = Some (env_spec env)"

inductive lands :: "jc_names \<Rightarrow> access_change list \<Rightarrow> mirror \<Rightarrow> mirror \<Rightarrow> bool" for jc where
  lands_none: "lands jc [] m m"
| lands_write: "lands jc changes (upsert jc env m) m' \<Longrightarrow> writes_envelope manifest env \<Longrightarrow>
    meta_namespace (metadata env) = Some ORG_NAMESPACE \<Longrightarrow> is_dns1123 jc ORG_NAMESPACE \<Longrightarrow>
    is_manifest_name jc (env_kind env) (meta_name (metadata env)) \<Longrightarrow>
    env_kind env \<in> {''Role'', ''RoleBinding''} \<Longrightarrow>
    lands jc (WriteChange manifest # changes) m m'"
| lands_remove: "lands jc changes (snd (remove (ResourceKey ORG_NAMESPACE kind name) m)) m' \<Longrightarrow>
    kind \<in> {''Role'', ''RoleBinding''} \<Longrightarrow>
    lands jc (RemoveChange kind ORG_NAMESPACE name # changes) m m'"

lemma lands_tables:
  assumes "lands jc changes m m'" and "mirror_wf jc m"
  shows "installation_scope m' = installation_scope m \<and>
    (\<exists>t. fold change_tables changes (touched, spec_table m ''Role'', spec_table m ''RoleBinding'') =
      (t, spec_table m' ''Role'', spec_table m' ''RoleBinding'') \<and> t = (touched \<or> changes \<noteq> []))"
  using assms
proof (induction arbitrary: touched rule: lands.induct)
  case (lands_write changes env m m' manifest)
  have "installation_scope (upsert jc env m) = installation_scope m"
    using lands_write.hyps(6) list_kind_upsert_other [OF lands_write.prems, of "''Organization''" env]
    by (auto simp: installation_scope_def installation_organization_def organizations_def)
  then show ?case
    using lands_write.IH [OF mirror_wf_upsert [OF lands_write.prems], of True] lands_write.hyps(2-6)
    by (auto simp: change_tables_def writes_envelope_def unwrap_or_def write_table_def
          spec_table_upsert [OF lands_write.prems lands_write.hyps(3-5)])
next
  case (lands_remove changes kind name m m')
  have "installation_scope (snd (remove (ResourceKey ORG_NAMESPACE kind name) m)) = installation_scope m"
    using lands_remove.hyps(2)
      list_kind_remove_other [OF lands_remove.prems, of "''Organization''" "ResourceKey ORG_NAMESPACE kind name"]
    by (auto simp: installation_scope_def installation_organization_def organizations_def)
  then show ?case
    using lands_remove.IH [OF mirror_wf_remove [OF lands_remove.prems], of True] lands_remove.hyps(2)
    by (auto simp: change_tables_def write_table_def spec_table_remove [OF lands_remove.prems])
qed simp

text \<open>The administrators of a mirror, as the guard counts them.\<close>

definition administrators_of :: "jc_core \<Rightarrow> mirror \<Rightarrow> int \<Rightarrow> string list" where
  "administrators_of jc m now =
     administrators jc (spec_table m ''Role'') (spec_table m ''RoleBinding'') (installation_scope m) now"

lemma keeps_an_administrator_after_iff:
  assumes "mirror_wf (jc_names jc) m" and "lands (jc_names jc) changes m m'" and "changes \<noteq> []"
  shows "keeps_an_administrator_after jc m now changes = Inr () \<longleftrightarrow>
    (administrators_of jc m now \<noteq> [] \<longrightarrow> administrators_of jc m' now \<noteq> [])"
  using lands_tables [OF assms(2,1), of False] assms(3)
  by (auto simp: keeps_an_administrator_after_def administrators_of_def Let_def)

subsection \<open>Lemmas on granting\<close>

text \<open>jc-core's \<open>Rule::grants\<close>: a kind and a verb of the rule, and reading by proposing.\<close>

definition rule_grants_exact :: "jc_core \<Rightarrow> bool" where
  "rule_grants_exact jc \<longleftrightarrow>
     (\<forall>rule kind verb. rule_grants jc rule kind verb \<longleftrightarrow>
        kind \<in> set (r_kinds rule) \<and>
        (verb \<in> set (r_verbs rule) \<or> verb = Read \<and> Propose \<in> set (r_verbs rule)))"

lemma fold_push_new_Nil: "fold push_new xs acc = [] \<longleftrightarrow> xs = [] \<and> acc = []"
proof (induction xs arbitrary: acc)
  case (Cons x xs)
  have "push_new x acc \<noteq> []" by (auto simp: push_new_def)
  with Cons show ?case by simp
qed simp

lemma concat_map_unless_Nil:
  "concat (map (\<lambda>x. if P x then [] else [f x]) xs) = [] \<longleftrightarrow> (\<forall>x \<in> set xs. P x)"
  by (induction xs) auto

lemma concat_map_Nil: "concat (map f xs) = [] \<longleftrightarrow> (\<forall>x \<in> set xs. f x = [])"
  by (induction xs) auto

lemma missing_rights_Nil:
  "missing_rights jc m held grants = [] \<longleftrightarrow>
     (\<forall>(rules, target) \<in> set grants. \<forall>rule \<in> set rules. \<forall>kind \<in> set (r_kinds rule).
        \<forall>verb \<in> set (r_verbs rule). holds_right jc m held target rule kind verb)"
  unfolding missing_rights_def fold_push_new_Nil
  by (simp only: concat_map_unless_Nil concat_map_Nil case_prod_beta simp_thms) auto

lemma within_own_rights_holds:
  assumes "within_own_rights jc to_value m boot identity now manifest before who = Inr ()"
    and "grants_of_manifest jc m manifest before = Inr (Some (noun, grants))"
    and "\<not> in_group identity boot" and "(rules, target) \<in> set grants" and "rule \<in> set rules"
    and "kind \<in> set (r_kinds rule)" and "verb \<in> set (r_verbs rule)"
  shows "\<exists>(r, g) \<in> set (in_force jc m identity now). covers m r target \<and>
    rule_grants jc (g_rule g) kind verb \<and> set (r_constraints (g_rule g)) \<subseteq> set (r_constraints rule)"
proof -
  have "missing_rights jc m (in_force jc m identity now) grants = []"
    using assms(1-3)
    by (auto simp: within_own_rights_def and_then_Inr_iff Let_def split: if_splits)
  then have "holds_right jc m (in_force jc m identity now) target rule kind verb"
    using assms(4-7) unfolding missing_rights_Nil by fastforce
  then show ?thesis
    by (fastforce simp: holds_right_def list_ex_iff list_all_iff)
qed

text \<open>A reach that covers another applies wherever it does, unless it is the installation's
  over another Organization's.\<close>

definition covers_plainly :: "mirror \<Rightarrow> reach \<Rightarrow> bool" where
  "covers_plainly m target \<longleftrightarrow>
     (case target of ReachOrganization _ \<Rightarrow> \<not> several_organizations m | _ \<Rightarrow> True)"

lemma covers_applies_in:
  assumes "mirror_wf jc m" and "\<not> is_dns1123 jc []" and "covers_plainly m target"
    and "covers m r target" and "applies_in m project target"
  shows "applies_in m project r \<and> is_none_or (\<lambda>space. reach_space target = Some space) (reach_space r)"
proof (cases "\<exists>held space. r = ReachProject held \<and> target = ReachSpace space")
  case True
  then obtain held space env where r: "r = ReachProject held" "target = ReachSpace space"
      "get m held ''ContextSpace'' space = Some env"
    using assms(4) by auto
  then have mem: "(ResourceKey held ''ContextSpace'' space, env) \<in> set (resources m)"
    using mirror_get_mem [OF assms(1)] by simp
  have key: "envelope_key env = ResourceKey held ''ContextSpace'' space" and "held \<noteq> []"
    using mirror_wf_entry [OF assms(1) mem] assms(2) by auto
  then have "meta_namespace (metadata env) = Some held"
    by (cases "meta_namespace (metadata env)") (auto simp: envelope_key_def unwrap_or_def)
  then have "held = project"
    using project_of_space_holders [OF _ mem] key r assms(5) by (auto simp: envelope_key_def)
  with r show ?thesis by (simp add: is_none_or_def)
next
  case False
  with assms(3-5) show ?thesis
    by (cases r; cases target)
       (auto simp: is_some_and_iff is_none_or_def covers_plainly_def organization_reaches_def
          several_organizations_def)
qed

lemma without_organization_kinds_keeps:
  assumes "g' \<in> set (without_organization_kinds jc m project [g])" and "kind \<in> set (r_kinds (g_rule g'))"
    and "h \<in> set hs" and "kind \<in> set (r_kinds (g_rule h))"
  shows "\<exists>ks. kind \<in> set ks \<and> h\<lparr>g_rule := (g_rule h)\<lparr>r_kinds := ks\<rparr>\<rparr> \<in> set (without_organization_kinds jc m project hs)"
proof (cases "project = ORG_NAMESPACE \<or> length (organizations m) \<le> 1 \<or>
    organization_of m project = installation_organization m")
  case True
  with assms(3,4) show ?thesis
    by (intro exI [of _ "r_kinds (g_rule h)"]) (simp add: without_organization_kinds_def)
next
  case False
  let ?ks = "filter (\<lambda>k. \<not> belongs_to_the_organization (jc_names jc) k (Some project)) (r_kinds (g_rule h))"
  have "\<not> belongs_to_the_organization (jc_names jc) kind (Some project)"
    using assms(1,2) False
    by (auto simp: without_organization_kinds_def List.map_filter_simps Let_def split: if_splits)
  then have "kind \<in> set ?ks" using assms(4) by simp
  moreover from this have "?ks \<noteq> []" by (metis empty_iff empty_set)
  ultimately have "h\<lparr>g_rule := (g_rule h)\<lparr>r_kinds := ?ks\<rparr>\<rparr> \<in> set (without_organization_kinds jc m project hs)"
    using assms(3) False
    by (auto simp: without_organization_kinds_def map_filter_Some_iff Let_def intro!: bexI [of _ h])
  with \<open>kind \<in> set ?ks\<close> show ?thesis by blast
qed

lemma effective_holds_rule:
  assumes "(r, g) \<in> set (in_force jc m identity now)" and "applies_in m project r"
    and "\<not> in_group identity boot" and "kind \<in> set (r_kinds (g_rule g))"
    and "n' \<in> set (without_organization_kinds jc m project [n])" and "kind \<in> set (r_kinds (g_rule n'))"
  shows "\<exists>ks. kind \<in> set ks \<and> g\<lparr>g_space := reach_space r, g_rule := (g_rule g)\<lparr>r_kinds := ks\<rparr>\<rparr>
    \<in> set (e_grants (effective_of jc m boot identity project now))"
proof -
  let ?h = "g\<lparr>g_space := reach_space r\<rparr>"
  let ?placed = "map (place jc m project) (in_force jc m identity now)"
  have "fst (place jc m project (r, g)) = Some ?h" using assms(2) by (simp add: place_fst)
  then have "?h \<in> set (List.map_filter fst ?placed)"
    using assms(1) by (force simp: map_filter_Some_iff)
  then have "?h \<in> set (List.map_filter fst ?placed @ concat (map snd ?placed))" by simp
  from without_organization_kinds_keeps [OF assms(5,6) this] assms(3,4) show ?thesis
    by (simp add: effective_of_def Let_def)
qed

lemma position_remove1:
  "(case position x xs of None \<Rightarrow> x \<notin> set xs
    | Some at \<Rightarrow> x \<in> set xs \<and> take at xs @ drop (Suc at) xs = remove1 x xs)"
  by (induction xs) (auto split: option.splits)

lemma each_held_iff: "each_held held gs \<longleftrightarrow> mset gs \<subseteq># mset held"
proof (induction held gs rule: each_held.induct)
  case (2 held g gs)
  show ?case
  proof (cases "position g held")
    case None
    then have "g \<notin> set held" using position_remove1 [of g held] by simp
    with None show ?thesis by (auto dest: mset_subset_eqD)
  next
    case (Some at)
    then have "g \<in> set held" "take at held @ drop (Suc at) held = remove1 g held"
      using position_remove1 [of g held] by simp_all
    then have "mset (take at held @ drop (Suc at) held) = mset held - {#g#}" by simp
    with Some 2 \<open>g \<in> set held\<close> show ?thesis by (simp add: insert_subset_eq_iff del: mset_append)
  qed
qed simp

lemma add_members_keeps:
  "pm_approvers members \<subseteq> pm_writers members \<Longrightarrow>
   pm_approvers (add_members jc m organization grps now counts env members) \<subseteq>
     pm_writers (add_members jc m organization grps now counts env members)"
  by (auto simp: add_members_def Let_def split: sum.splits option.splits if_splits)

lemma demo_rule_grants_exact: "rule_grants_exact demo_core"
  by (simp add: rule_grants_exact_def demo_core_def demo_rule_grants_def)

definition demo_proposal :: "string \<Rightarrow> string \<Rightarrow> (string \<times> json) list \<Rightarrow> json" where
  "demo_proposal name user sc =
     JObject [(''kind'', JString ''RoleBinding''),
       (''metadata'', JObject [(''name'', JString name), (''namespace'', JString ''org'')]),
       (''spec'', env_spec (demo_binding name user ''admin'' sc))]"

definition demo_to_value :: "envelope \<Rightarrow> string + json" where
  "demo_to_value env =
     Inr (JObject [(''kind'', JString (env_kind env)),
       (''metadata'', JObject [(''name'', JString (meta_name (metadata env)))]),
       (''spec'', env_spec env)])"

subsection \<open>Properties\<close>

text \<open>Property C1. Nobody grants above their own rights: whatever a RoleBinding that passed the
  guard lets a subject write in a project, the proposer may write there already. The reach is a
  project's, a space's or the Organization's of an installation that has one.\<close>

theorem binding_grants_no_more_than_proposer_holds:
  assumes "rule_grants_exact jc" and wf: "mirror_wf (jc_names jc) m"
    and "\<not> is_dns1123 (jc_names jc) []" and nb: "\<not> in_group proposer boot"
    and passed: "within_own_rights jc to_value m boot proposer now manifest before who = Inr ()"
    and kind: "get_str ''kind'' manifest = Some ''RoleBinding''"
    and spec: "jget ''spec'' manifest = Some (env_spec env)"
    and new: "(target, g) \<in> set (binding_grants jc m (roles jc m ORG_NAMESPACE) subj now env)"
    and "covers_plainly m target" and placed: "fst (place jc m project (target, g)) = Some g1"
    and g': "g' \<in> set (without_organization_kinds jc m project [g1])"
    and admits: "admits_write jc (k, verb, doc) g'"
  shows "check jc (effective_of jc m boot proposer project now) k verb doc = Inr ()"
proof -
  obtain b role where b: "parse_binding jc (env_spec env) = Inr b" "reach_of (b_scope b) = Some target"
      "role_of jc m (roles jc m ORG_NAMESPACE) target (b_role b) = Some (b_role b, role)"
      "g_rule g \<in> set (rs_rules role)"
    using new unfolding binding_grants_mem by auto
  have applies: "applies_in m project target" and g1: "g1 = g\<lparr>g_space := reach_space target\<rparr>"
    using placed by (auto simp: place_fst split: if_splits)
  obtain ks where g'_eq: "g' = g1\<lparr>g_rule := (g_rule g1)\<lparr>r_kinds := ks\<rparr>\<rparr>" and "set ks \<subseteq> set (r_kinds (g_rule g))"
    using without_organization_kinds_mem [OF g'] g1 by auto
  moreover have grants: "rule_grants jc (g_rule g') k verb" using admits by (simp add: admits_write_def)
  ultimately obtain v where v: "k \<in> set (r_kinds (g_rule g))" "k \<in> set (r_kinds (g_rule g'))"
      "v \<in> set (r_verbs (g_rule g))" "v = verb \<or> verb = Read \<and> v = Propose"
    using assms(1) g1 unfolding rule_grants_exact_def by auto
  have "grants_of_manifest jc m manifest before = Inr (Some (''binding'', [(rs_rules role, target)]))"
    using kind spec b by (simp add: grants_of_manifest_def unwrap_or_def reads_spec_def rules_at_def)
  from within_own_rights_holds [OF passed this nb _ b(4) v(1,3)] obtain r h where h:
      "(r, h) \<in> set (in_force jc m proposer now)" "covers m r target"
      "rule_grants jc (g_rule h) k v" "set (r_constraints (g_rule h)) \<subseteq> set (r_constraints (g_rule g))"
    by auto
  from covers_applies_in [OF wf assms(3,9) h(2) applies] have r: "applies_in m project r"
      "is_none_or (\<lambda>space. reach_space target = Some space) (reach_space r)" by auto
  have kh: "k \<in> set (r_kinds (g_rule h))" "verb \<in> set (r_verbs (g_rule h)) \<or> verb = Read \<and> Propose \<in> set (r_verbs (g_rule h))"
    using h(3) v(4) assms(1) unfolding rule_grants_exact_def by auto
  obtain ks' where ks': "k \<in> set ks'" "h\<lparr>g_space := reach_space r, g_rule := (g_rule h)\<lparr>r_kinds := ks'\<rparr>\<rparr>
      \<in> set (e_grants (effective_of jc m boot proposer project now))"
    using effective_holds_rule [OF h(1) r(1) nb kh(1) g' v(2)] by auto
  have "admits_write jc (k, verb, doc) (h\<lparr>g_space := reach_space r, g_rule := (g_rule h)\<lparr>r_kinds := ks'\<rparr>\<rparr>)"
    using admits g'_eq g1 h(4) r(2) kh(2) ks'(1) assms(1)
    unfolding admits_write_def rule_grants_exact_def
    by (auto simp: is_none_or_iff writes_status_only_def list_ex_iff)
  with ks'(2) show ?thesis unfolding check_allows_iff by blast
qed

theorem binding_grants_no_more_than_proposer_holds_witness:
  "check demo_core (effective_of demo_core demo_access ''boot'' (demo_person ''eve'') ''bikes'' 0)
     ''Pipeline'' Approve None = Inr ()"
proof -
  let ?env = "demo_binding ''new'' ''bob'' ''admin'' [(''project'', JString ''bikes'')]"
  let ?bg = "binding_grants demo_core demo_access (roles demo_core demo_access ORG_NAMESPACE)
      (demo_person ''bob'') 0 ?env"
  have wf: "mirror_wf (jc_names demo_core) demo_access" using demo_access_wf by (simp add: demo_core_def)
  have dns: "\<not> is_dns1123 (jc_names demo_core) []"
    and nb: "\<not> in_group (demo_person ''eve'') ''boot''"
    and passed: "within_own_rights demo_core demo_to_value demo_access ''boot'' (demo_person ''eve'') 0
        (demo_proposal ''new'' ''bob'' [(''project'', JString ''bikes'')]) None ''proposer'' = Inr ()"
    and kind: "get_str ''kind'' (demo_proposal ''new'' ''bob'' [(''project'', JString ''bikes'')]) = Some ''RoleBinding''"
    and plain: "covers_plainly demo_access (ReachProject ''bikes'')"
    by code_simp+
  have spec: "jget ''spec'' (demo_proposal ''new'' ''bob'' [(''project'', JString ''bikes'')]) = Some (env_spec ?env)"
    by (simp add: demo_proposal_def)
  have bg: "?bg \<noteq> [] \<and> fst (hd ?bg) = ReachProject ''bikes''" by code_simp
  then have new: "(ReachProject ''bikes'', snd (hd ?bg)) \<in> set ?bg"
    by (metis hd_in_set prod.collapse)
  obtain g1 where g1: "fst (place demo_core demo_access ''bikes'' (ReachProject ''bikes'', snd (hd ?bg))) = Some g1"
    by (simp add: place_fst)
  have "list_ex (admits_write demo_core (''Pipeline'', Approve, None))
      (without_organization_kinds demo_core demo_access ''bikes''
        [the (fst (place demo_core demo_access ''bikes'' (ReachProject ''bikes'', snd (hd ?bg))))])"
    by code_simp
  then obtain g' where "g' \<in> set (without_organization_kinds demo_core demo_access ''bikes'' [g1])"
      "admits_write demo_core (''Pipeline'', Approve, None) g'"
    using g1 by (auto simp: list_ex_iff)
  from binding_grants_no_more_than_proposer_holds
      [OF demo_rule_grants_exact wf dns nb passed kind spec new plain g1 this]
  show ?thesis .
qed

text \<open>Property C2. The organization keeps an administrator: when changes of roles and bindings pass
  the guard together and land, in their order, an organization that had an administrator has one
  still, and changes that would leave none are refused.\<close>

theorem last_administrator_is_kept:
  assumes "mirror_wf (jc_names jc) m" and "lands (jc_names jc) changes m m'" and "changes \<noteq> []"
    and "administrators_of jc m now \<noteq> []"
  shows "keeps_an_administrator_after jc m now changes = Inr () \<longleftrightarrow> administrators_of jc m' now \<noteq> []"
  using keeps_an_administrator_after_iff [OF assms(1-3)] assms(4) by simp

theorem last_administrator_is_kept_witness:
  "keeps_an_administrator_after demo_core demo_access 0
     [RemoveChange ''RoleBinding'' ORG_NAMESPACE ''helsinki-admin''] \<noteq> Inr ()"
proof -
  let ?m' = "snd (remove (ResourceKey ORG_NAMESPACE ''RoleBinding'' ''helsinki-admin'') demo_access)"
  have wf: "mirror_wf (jc_names demo_core) demo_access" using demo_access_wf by (simp add: demo_core_def)
  have lands: "lands (jc_names demo_core)
      [RemoveChange ''RoleBinding'' ORG_NAMESPACE ''helsinki-admin''] demo_access ?m'"
    by (intro lands.intros) simp_all
  have "administrators_of demo_core demo_access 0 \<noteq> []" "administrators_of demo_core ?m' 0 = []"
    by code_simp+
  with last_administrator_is_kept [OF wf lands] show ?thesis by simp
qed

text \<open>A service account's change counts as taking access away only when its grants
  are a sub-multiset of those it replaces, each compared whole and matched once.\<close>

theorem only_drops_grants_is_submultiset:
  "only_drops_grants jc before head \<longleftrightarrow>
     (\<exists>spec a. jget ''spec'' before = Some spec \<and> parse_account jc spec = Inr a \<and>
        mset (a_roles head) \<subseteq># mset (a_roles a))"
proof (cases "jget ''spec'' before")
  case (Some spec)
  then show ?thesis
    by (cases "parse_account jc spec") (simp_all add: only_drops_grants_def each_held_iff)
qed (simp add: only_drops_grants_def)

text \<open>Property C7. An administrator of one Organization replaces only what is theirs: when every
  right they hold is narrowed to their Organization and the guard passes, the manifest already in
  the repository under that kind and name is a setting of that Organization too.\<close>

theorem organization_admin_replaces_only_own:
  assumes "core_laws jc" and "mirror_wf (jc_names jc) m"
    and "\<not> in_group identity boot" and "\<not> organization_reaches m org ORG_NAMESPACE"
    and "\<forall>(r, g) \<in> set (in_force jc m identity now). r = ReachOrganization org"
    and "may_read_project (effective_of jc m boot identity ORG_NAMESPACE now)"
    and "within_own_rights jc to_value m boot identity now manifest before who = Inr ()"
    and "ptr_str [''kind''] manifest = Some kind" and "ptr_str [''metadata'', ''name''] manifest = Some name"
    and "ptr_str [''metadata'', ''namespace''] manifest = Some ORG_NAMESPACE"
    and "kind \<in> set OWN_SETTINGS_KINDS"
    and "get m ORG_NAMESPACE kind name = Some old" and "to_value old = Inr replaced"
  shows "own_setting jc m org kind (if who = ''approver'' then Approve else Propose) replaced"
proof -
  let ?e = "effective_of jc m boot identity ORG_NAMESPACE now"
  let ?verb = "if who = ''approver'' then Approve else Propose"
  have narrow: "g_organization g \<noteq> None \<and> (\<exists>g0. g \<in> set (narrowed_to_own_settings jc m org g0))"
    if "g \<in> set (e_grants ?e)" for g
    using effective_grant_origin [OF that] assms(4,5) by (fastforce split: if_splits)
  have nb: "\<not> e_bootstrap ?e" using assms(3) by (simp add: effective_of_def Let_def)
  then have "e_grants ?e \<noteq> []" using assms(6) by (simp add: may_read_project_def)
  then have some: "list_ex (\<lambda>g. g_organization g \<noteq> None) (e_grants ?e)"
    using narrow by (auto simp: list_ex_iff neq_Nil_conv)
  have none: "\<not> list_ex (\<lambda>g. g_organization g = None \<and> rule_grants jc (g_rule g) kind ?verb) (e_grants ?e)"
    using narrow by (auto simp: list_ex_iff)
  have "replaces_only_own_settings jc to_value m boot identity now manifest who = Inr ()"
    using assms(7) by (auto simp: within_own_rights_def and_then_Inr_iff)
  then have "check jc ?e kind ?verb (Some replaced) = Inr ()"
    using assms(8-13) nb some none
    by (simp add: replaces_only_own_settings_def Let_def split: if_splits sum.splits)
  then obtain g where "g \<in> set (e_grants ?e)" "admits_write jc (kind, ?verb, Some replaced) g"
    unfolding check_allows_iff using nb by blast
  with narrow narrowed_admits_own_setting [OF assms(1,2)] show ?thesis by blast
qed

theorem organization_admin_replaces_only_own_witness:
  "own_setting demo_core demo_access ''espoo'' ''RoleBinding'' (if ''proposer'' = ''approver'' then Approve else Propose)
     (projr (demo_to_value (demo_binding ''espoo-admin'' ''ada'' ''admin'' [(''organization'', JString ''espoo'')])))"
proof -
  let ?old = "demo_binding ''espoo-admin'' ''ada'' ''admin'' [(''organization'', JString ''espoo'')]"
  let ?new = "demo_proposal ''espoo-admin'' ''bob'' [(''organization'', JString ''espoo'')]"
  have wf: "mirror_wf (jc_names demo_core) demo_access" using demo_access_wf by (simp add: demo_core_def)
  have facts: "\<not> in_group (demo_person ''ada'') ''boot''"
    "\<not> organization_reaches demo_access ''espoo'' ORG_NAMESPACE"
    "\<forall>(r, g) \<in> set (in_force demo_core demo_access (demo_person ''ada'') 0). r = ReachOrganization ''espoo''"
    "may_read_project (effective_of demo_core demo_access ''boot'' (demo_person ''ada'') ORG_NAMESPACE 0)"
    "within_own_rights demo_core demo_to_value demo_access ''boot'' (demo_person ''ada'') 0 ?new None ''proposer'' = Inr ()"
    "ptr_str [''kind''] ?new = Some ''RoleBinding''"
    "ptr_str [''metadata'', ''name''] ?new = Some ''espoo-admin''"
    "ptr_str [''metadata'', ''namespace''] ?new = Some ORG_NAMESPACE"
    "''RoleBinding'' \<in> set OWN_SETTINGS_KINDS"
    "get demo_access ORG_NAMESPACE ''RoleBinding'' ''espoo-admin'' = Some ?old"
    by code_simp+
  have "demo_to_value ?old = Inr (projr (demo_to_value ?old))" by (simp add: demo_to_value_def)
  from organization_admin_replaces_only_own [OF demo_core_laws wf facts this] show ?thesis .
qed

text \<open>Whoever approves some kind in a project counts as a writer of its repository.\<close>

theorem approvers_are_writers:
  "pm_approvers (project_members jc m project now) \<subseteq> pm_writers (project_members jc m project now)"
proof -
  have "pm_approvers members \<subseteq> pm_writers members \<Longrightarrow>
      pm_approvers (fold (add_members jc m organization grps now counts) envs members) \<subseteq>
      pm_writers (fold (add_members jc m organization grps now counts) envs members)"
    for organization grps counts envs members
    by (induction envs arbitrary: members) (simp_all add: add_members_keeps)
  then show ?thesis by (simp add: project_members_def members_where_def)
qed

end
