(* ===== verification/GroupDoors.thy ===== *)
theory GroupDoors
  imports Judgements
begin

text \<open>
  Who a Group belongs to, and the two doors through which a project's own people propose and revoke
  at the organization's namespace (\<open>src/groups.rs\<close>).

  \<open>AppState\<close> is the record \<open>app_state\<close>: the mirror, the bootstrap group, the groups of the realm this
  platform does not manage, serde's reading and writing of an envelope and the present instant.
\<close>

subsection \<open>State\<close>

record app_state =
  gs_mirror :: mirror
  gs_bootstrap :: string
  gs_foreign_group :: "string \<Rightarrow> bool"
  gs_to_value :: "envelope \<Rightarrow> string + json"
  gs_from_value :: "json \<Rightarrow> string + envelope"
  gs_now :: int

definition for_request :: "jc_core \<Rightarrow> app_state \<Rightarrow> identity \<Rightarrow> string \<Rightarrow> effective" where
  "for_request jc s identity project = effective_of jc (gs_mirror s) (gs_bootstrap s) identity project (gs_now s)"

definition app_label :: "object_meta \<Rightarrow> string option" where
  "app_label meta = bt_get (meta_annotations meta) APP_LABEL"

subsection \<open>Whose a group is\<close>

definition project_named_by :: "app_state \<Rightarrow> string \<Rightarrow> string option" where
  "project_named_by s name =
     Option.bind (or_else (strip_suffix ''-readers'' name) (strip_suffix ''-writers'' name)) (\<lambda>project.
       map_option (\<lambda>_. project) (get (gs_mirror s) ORG_NAMESPACE ''Project'' project))"

definition written :: "string option \<Rightarrow> string" where
  "written app =
     (case app of
        None \<Rightarrow> ''the organization''
      | Some a \<Rightarrow>
          (case split_once ''/'' a of
             Some (project, name) \<Rightarrow> ''the App '' @ name @ '' of project '' @ project
           | None \<Rightarrow> ''the App '' @ a))"

definition owner_text :: "jc_core \<Rightarrow> app_state \<Rightarrow> identity \<Rightarrow> string option \<Rightarrow> string" where
  "owner_text jc s identity app =
     (case app of
        None \<Rightarrow> ''the organization''
      | Some a \<Rightarrow>
          (case split_once ''/'' a of
             Some (project, _) \<Rightarrow>
               if may_read jc (for_request jc s identity project) ''App'' then written app
               else ''an App of another project''
           | None \<Rightarrow> ''an App of another project''))"

definition group_check :: "jc_core \<Rightarrow> app_state \<Rightarrow> identity \<Rightarrow> string \<Rightarrow> object_meta \<Rightarrow> api_error + unit" where
  "group_check jc s identity kind meta =
     (if kind \<noteq> ''Group'' then Inr ()
      else
        let name = meta_name meta; wanted = app_label meta
        in case get (gs_mirror s) ORG_NAMESPACE ''Group'' name of
             None \<Rightarrow>
               if gs_foreign_group s name
               then Inl (Denied (''the group '' @ apostrophe @ name @ apostrophe @ '' for '' @ written wanted @
                 '' already exists in the realm and this platform does not manage it; it is never taken over (AP-115). Choose another name, or ask a realm administrator to rename or remove that group''))
               else
                 (case project_named_by s name of
                    Some project \<Rightarrow>
                      Inl (Denied (''the group '' @ apostrophe @ name @ apostrophe @ '' is project '' @ project @
                        apostrophe @ ''s, filled from its role bindings, and admits to its Endpoints; a Group manifest may not take the name (PF-87). Choose another name''))
                  | None \<Rightarrow> Inr ())
           | Some held \<Rightarrow>
               let current = app_label (metadata held)
               in if wanted = None \<or> wanted = current then Inr ()
                  else Inl (Denied (''the group '' @ apostrophe @ name @ apostrophe @ '' belongs to '' @
                    owner_text jc s identity current @ '', so it cannot become the group of '' @ written wanted @
                    '' (AP-115); choose another name'')))"

definition app_of :: "app_state \<Rightarrow> string \<Rightarrow> (string \<times> json) option" where
  "app_of s name =
     Option.bind (get (gs_mirror s) ORG_NAMESPACE ''Group'' name) (\<lambda>held.
     Option.bind (app_label (metadata held)) (\<lambda>label.
     Option.bind (split_once ''/'' label) (\<lambda>(project, app).
     Option.bind (get (gs_mirror s) project ''App'' app) (\<lambda>env.
     case gs_to_value s env of Inl _ \<Rightarrow> None | Inr v \<Rightarrow> Some (project, v)))))"

definition may_read_as_app_group :: "jc_core \<Rightarrow> app_state \<Rightarrow> identity \<Rightarrow> string \<Rightarrow> string \<Rightarrow> string \<Rightarrow> bool" where
  "may_read_as_app_group jc s identity project kind name \<longleftrightarrow>
     project = ORG_NAMESPACE \<and> kind = ''Group'' \<and>
     is_some_and (\<lambda>(own, app). may_read_manifest jc (for_request jc s identity own) ''App'' app) (app_of s name)"

subsection \<open>Proposing and removing at the organization\<close>

fun without_members :: "json \<Rightarrow> json" where
  "without_members (JObject m) =
     (let m = bt_remove ''status'' m
      in case bt_get m ''spec'' of
           Some (JObject spec) \<Rightarrow> JObject (bt_insert ''spec'' (JObject (bt_remove ''members'' spec)) m)
         | _ \<Rightarrow> JObject m)"
| "without_members v = v"

definition only_members_differ :: "app_state \<Rightarrow> envelope \<Rightarrow> json \<Rightarrow> bool" where
  "only_members_differ s held manifest =
     (case (gs_to_value s held, and_then (gs_from_value s manifest) (gs_to_value s)) of
        (Inr h, Inr p) \<Rightarrow> without_members h = without_members p
      | _ \<Rightarrow> False)"

definition door :: "string \<Rightarrow> string \<Rightarrow> string \<Rightarrow> string \<Rightarrow> verb list \<Rightarrow> grant" where
  "door role binding project kind verbs =
     \<lparr>g_role = role, g_binding = binding, g_scope = ''project:'' @ project, g_space = None, g_organization = None,
      g_rule = \<lparr>r_kinds = [kind], r_verbs = verbs, r_constraints = []\<rparr>\<rparr>"

definition project_binding :: "jc_core \<Rightarrow> app_state \<Rightarrow> identity \<Rightarrow> json \<Rightarrow> grant option" where
  "project_binding jc s identity manifest =
     Option.bind (jget ''spec'' manifest) (\<lambda>spec.
     Option.bind (binding_project jc (gs_mirror s) spec) (\<lambda>project.
     Option.bind (ptr_str [''metadata'', ''name''] manifest) (\<lambda>name.
     if is_some_and (\<lambda>held. binding_project jc (gs_mirror s) (env_spec held) \<noteq> Some project)
          (get (gs_mirror s) ORG_NAMESPACE ''RoleBinding'' name)
     then None
     else
       (case check jc (for_request jc s identity project) ''RoleBinding'' Propose (Some manifest) of
          Inl _ \<Rightarrow> None
        | Inr _ \<Rightarrow>
            Some (door ''propose on RoleBinding'' (''propose on RoleBinding in project '' @ project @ '' (PF-52)'')
              project ''RoleBinding'' [Propose])))))"

definition app_group_door :: "jc_core \<Rightarrow> app_state \<Rightarrow> identity \<Rightarrow> json \<Rightarrow> grant option" where
  "app_group_door jc s identity manifest =
     Option.bind (ptr_str [''metadata'', ''name''] manifest) (\<lambda>name.
     Option.bind (app_of s name) (\<lambda>(own, app).
     let kept = Option.bind (Option.bind (pointer [''metadata'', ''annotations''] manifest) (jget APP_LABEL)) as_str
     in Option.bind (get (gs_mirror s) ORG_NAMESPACE ''Group'' name) (\<lambda>held.
       if kept = None \<or> kept \<noteq> app_label (metadata held) then None
       else if \<not> only_members_differ s held manifest then None
       else
         (case check jc (for_request jc s identity own) ''App'' Propose (Some app) of
            Inl _ \<Rightarrow> None
          | Inr _ \<Rightarrow>
              let app_name = unwrap_or [] (ptr_str [''metadata'', ''name''] app)
              in Some (door (''propose on App '' @ app_name) (''the default group of App '' @ app_name @ '' (AP-119)'')
                   own ''Group'' [Propose])))))"

definition for_proposal :: "jc_core \<Rightarrow> app_state \<Rightarrow> identity \<Rightarrow> string \<Rightarrow> string \<Rightarrow> bool \<Rightarrow> json \<Rightarrow> effective" where
  "for_proposal jc s identity project kind update manifest =
     (let e = for_request jc s identity project;
          extended = (\<lambda>door. e\<lparr>e_grants := e_grants e @ (case door of None \<Rightarrow> [] | Some g \<Rightarrow> [g])\<rparr>)
      in if project \<noteq> ORG_NAMESPACE \<or> may jc e kind Propose then e
         else if kind = ''RoleBinding'' then extended (project_binding jc s identity manifest)
         else if \<not> update \<or> kind \<noteq> ''Group'' then e
         else extended (app_group_door jc s identity manifest))"

definition project_unbinding :: "jc_core \<Rightarrow> app_state \<Rightarrow> identity \<Rightarrow> string \<Rightarrow> grant option" where
  "project_unbinding jc s identity name =
     Option.bind (get (gs_mirror s) ORG_NAMESPACE ''RoleBinding'' name) (\<lambda>held.
     Option.bind (binding_project jc (gs_mirror s) (env_spec held)) (\<lambda>project.
     case gs_to_value s held of
       Inl _ \<Rightarrow> None
     | Inr target \<Rightarrow>
         (case check jc (for_request jc s identity project) ''RoleBinding'' Delete (Some target) of
            Inl _ \<Rightarrow> None
          | Inr _ \<Rightarrow>
              Some (door ''delete on RoleBinding'' (''delete on RoleBinding in project '' @ project @ '' (PF-52)'')
                project ''RoleBinding'' [Read, Delete]))))"

definition for_removal :: "jc_core \<Rightarrow> app_state \<Rightarrow> identity \<Rightarrow> string \<Rightarrow> string \<Rightarrow> string \<Rightarrow> effective" where
  "for_removal jc s identity project kind name =
     (let e = for_request jc s identity project
      in if project = ORG_NAMESPACE \<and> kind = ''RoleBinding'' \<and> \<not> may jc e kind Delete
         then e\<lparr>e_grants := e_grants e @ (case project_unbinding jc s identity name of None \<Rightarrow> [] | Some g \<Rightarrow> [g])\<rparr>
         else e)"


subsection \<open>What the doors let through\<close>

lemma door_admits:
  "core_laws jc \<Longrightarrow> admits_write jc (kind', verb, target) (door role binding project kind verbs) \<Longrightarrow>
     kind' = kind \<and> (verb \<in> set verbs \<or> verb = Read \<and> Propose \<in> set verbs)"
  using core_laws_grants [of jc "g_rule (door role binding project kind verbs)" kind' verb]
  by (auto simp: admits_write_def door_def)

lemma check_extended:
  "check jc (e\<lparr>e_grants := e_grants e @ gs\<rparr>) kind verb target = Inr () \<Longrightarrow>
     check jc e kind verb target = Inr () \<or> (\<exists>g \<in> set gs. admits_write jc (kind, verb, target) g)"
  by (auto simp: check_allows_iff)

definition proposes_project_binding :: "jc_core \<Rightarrow> app_state \<Rightarrow> identity \<Rightarrow> json \<Rightarrow> bool" where
  "proposes_project_binding jc s identity manifest \<longleftrightarrow>
     (\<exists>spec project name. jget ''spec'' manifest = Some spec \<and> binding_project jc (gs_mirror s) spec = Some project \<and>
        ptr_str [''metadata'', ''name''] manifest = Some name \<and>
        is_none_or (\<lambda>held. binding_project jc (gs_mirror s) (env_spec held) = Some project)
          (get (gs_mirror s) ORG_NAMESPACE ''RoleBinding'' name) \<and>
        check jc (for_request jc s identity project) ''RoleBinding'' Propose (Some manifest) = Inr ())"

definition keeps_app_group :: "jc_core \<Rightarrow> app_state \<Rightarrow> identity \<Rightarrow> json \<Rightarrow> bool" where
  "keeps_app_group jc s identity manifest \<longleftrightarrow>
     (\<exists>name held own app. ptr_str [''metadata'', ''name''] manifest = Some name \<and>
        get (gs_mirror s) ORG_NAMESPACE ''Group'' name = Some held \<and> app_of s name = Some (own, app) \<and>
        Option.bind (Option.bind (pointer [''metadata'', ''annotations''] manifest) (jget APP_LABEL)) as_str =
          app_label (metadata held) \<and>
        only_members_differ s held manifest \<and>
        check jc (for_request jc s identity own) ''App'' Propose (Some app) = Inr ())"

lemma project_binding_Some:
  "project_binding jc s identity manifest = Some g \<Longrightarrow>
     proposes_project_binding jc s identity manifest \<and> (\<exists>role b p. g = door role b p ''RoleBinding'' [Propose])"
proof -
  assume some: "project_binding jc s identity manifest = Some g"
  obtain spec project name where p: "jget ''spec'' manifest = Some spec" "binding_project jc (gs_mirror s) spec = Some project"
    "ptr_str [''metadata'', ''name''] manifest = Some name"
    "\<not> is_some_and (\<lambda>held. binding_project jc (gs_mirror s) (env_spec held) \<noteq> Some project)
       (get (gs_mirror s) ORG_NAMESPACE ''RoleBinding'' name)"
    using some by (auto simp: project_binding_def bind_eq_Some_conv split: if_splits)
  have ok: "check jc (for_request jc s identity project) ''RoleBinding'' Propose (Some manifest) = Inr ()"
    using some p
    by (cases "check jc (for_request jc s identity project) ''RoleBinding'' Propose (Some manifest)")
      (auto simp: project_binding_def)
  have "g = door ''propose on RoleBinding'' (''propose on RoleBinding in project '' @ project @ '' (PF-52)'')
      project ''RoleBinding'' [Propose]"
    using some p ok by (simp add: project_binding_def)
  then show ?thesis using p ok
    by (auto simp: proposes_project_binding_def is_some_and_iff is_none_or_iff)
qed

lemma app_group_door_Some:
  "app_group_door jc s identity manifest = Some g \<Longrightarrow>
     keeps_app_group jc s identity manifest \<and> (\<exists>role b p. g = door role b p ''Group'' [Propose])"
proof -
  assume some: "app_group_door jc s identity manifest = Some g"
  obtain name own app held where p: "ptr_str [''metadata'', ''name''] manifest = Some name" "app_of s name = Some (own, app)"
    "get (gs_mirror s) ORG_NAMESPACE ''Group'' name = Some held"
    "Option.bind (Option.bind (pointer [''metadata'', ''annotations''] manifest) (jget APP_LABEL)) as_str =
       app_label (metadata held)"
    "app_label (metadata held) \<noteq> None" "only_members_differ s held manifest"
    using some by (auto simp: app_group_door_def Let_def bind_eq_Some_conv split: if_splits)
  obtain label where l: "app_label (metadata held) = Some label" using p(5) by auto
  note parts = app_group_door_def Let_def p(1-3) Option.bind.simps prod.case p(4) l option.distinct simp_thms if_True if_False p(6)
  have ok: "check jc (for_request jc s identity own) ''App'' Propose (Some app) = Inr ()"
    using some by (cases "check jc (for_request jc s identity own) ''App'' Propose (Some app)")
      (simp_all only: parts sum.case option.distinct, simp)
  have "\<exists>role b p. g = door role b p ''Group'' [Propose]"
    using some by (simp only: parts ok sum.case option.inject) blast
  then show ?thesis using p ok by (auto simp: keeps_app_group_def)
qed

lemma project_unbinding_Some:
  assumes "project_unbinding jc s identity name = Some g"
  obtains held project target role b where
    "get (gs_mirror s) ORG_NAMESPACE ''RoleBinding'' name = Some held"
    "binding_project jc (gs_mirror s) (env_spec held) = Some project" "gs_to_value s held = Inr target"
    "check jc (for_request jc s identity project) ''RoleBinding'' Delete (Some target) = Inr ()"
    "g = door role b project ''RoleBinding'' [Read, Delete]"
proof -
  obtain held project where h: "get (gs_mirror s) ORG_NAMESPACE ''RoleBinding'' name = Some held"
    "binding_project jc (gs_mirror s) (env_spec held) = Some project"
    using assms by (auto simp: project_unbinding_def bind_eq_Some_conv)
  then obtain target where t: "gs_to_value s held = Inr target"
    using assms by (cases "gs_to_value s held") (auto simp: project_unbinding_def)
  then have "check jc (for_request jc s identity project) ''RoleBinding'' Delete (Some target) = Inr ()"
    using assms h
    by (cases "check jc (for_request jc s identity project) ''RoleBinding'' Delete (Some target)")
      (auto simp: project_unbinding_def)
  then show ?thesis using that assms h t by (auto simp: project_unbinding_def)
qed

subsection \<open>Writes of a group\<close>

text \<open>
  What may happen while a Group stays: manifests that passed \<open>group_check\<close> are written, other
  resources go, and everything of the state but the mirror changes at will.
\<close>

inductive group_writes :: "jc_core \<Rightarrow> string \<Rightarrow> app_state \<Rightarrow> app_state \<Rightarrow> bool" for jc name s where
  untouched: "group_writes jc name s s"
| accepted: "group_writes jc name s s' \<Longrightarrow> group_check jc s' identity (env_kind env) (metadata env) = Inr () \<Longrightarrow>
    group_writes jc name s (s'\<lparr>gs_mirror := upsert (jc_names jc) env (gs_mirror s')\<rparr>)"
| removed: "group_writes jc name s s' \<Longrightarrow> key \<noteq> ResourceKey ORG_NAMESPACE ''Group'' name \<Longrightarrow>
    group_writes jc name s (s'\<lparr>gs_mirror := snd (remove key (gs_mirror s'))\<rparr>)"
| elsewhere: "group_writes jc name s s' \<Longrightarrow> gs_mirror s'' = gs_mirror s' \<Longrightarrow> group_writes jc name s s''"

lemma upsert_get_cases:
  "get (upsert jc env m) ns kind name = get m ns kind name \<or>
   get (upsert jc env m) ns kind name = Some env \<and> ResourceKey ns kind name = envelope_key env"
  by (auto simp: get_def resources_upsert bt_simps)

lemma group_owner_step:
  assumes "get (gs_mirror s) ORG_NAMESPACE ''Group'' name = Some held"
    and "group_check jc s identity (env_kind env) (metadata env) = Inr ()"
  shows "\<exists>held'. get (upsert (jc_names jc) env (gs_mirror s)) ORG_NAMESPACE ''Group'' name = Some held' \<and>
    (app_label (metadata held') = app_label (metadata held) \<or> app_label (metadata held') = None)"
  using upsert_get_cases [of "jc_names jc" env "gs_mirror s" ORG_NAMESPACE "''Group''" name]
proof
  assume "get (upsert (jc_names jc) env (gs_mirror s)) ORG_NAMESPACE ''Group'' name = Some env \<and>
    ResourceKey ORG_NAMESPACE ''Group'' name = envelope_key env"
  moreover from this have "env_kind env = ''Group''" "meta_name (metadata env) = name"
    by (auto simp: envelope_key_def)
  ultimately show ?thesis using assms by (auto simp: group_check_def Let_def split: if_splits)
qed (use assms(1) in simp)

lemma group_writes_owner:
  assumes "group_writes jc name s s'" "get (gs_mirror s) ORG_NAMESPACE ''Group'' name = Some held"
  shows "\<exists>held'. get (gs_mirror s') ORG_NAMESPACE ''Group'' name = Some held' \<and>
    (app_label (metadata held') = app_label (metadata held) \<or> app_label (metadata held') = None)"
  using assms
proof (induction rule: group_writes.induct)
  case (accepted s' identity env)
  then show ?case using group_owner_step by fastforce
next
  case (removed s' key)
  then show ?case by (auto simp: get_def remove_def bt_simps)
qed auto

subsection \<open>Properties\<close>

text \<open>
  Property C8. The door for a project's own people at the organization is narrow. Whatever the
  permissions of a proposal allow, the caller's own permissions allow too, or it is a proposal (and
  the reading that goes with it) of the kind proposed, and either a RoleBinding scoped to one project
  in which the caller may propose it, which replaces none of another project or of the organization,
  or the update of an App's default group that changes its members only, by someone who may propose
  that App.
\<close>

theorem proposal_door_is_narrow:
  assumes "core_laws jc"
    and "check jc (for_proposal jc s identity project kind update manifest) kind' verb target = Inr ()"
  shows "check jc (for_request jc s identity project) kind' verb target = Inr () \<or>
    (project = ORG_NAMESPACE \<and> kind' = kind \<and> verb \<in> {Propose, Read} \<and>
      (kind = ''RoleBinding'' \<and> proposes_project_binding jc s identity manifest \<or>
       kind = ''Group'' \<and> update \<and> keeps_app_group jc s identity manifest))"
proof -
  let ?e = "for_request jc s identity project"
  have "for_proposal jc s identity project kind update manifest = ?e \<or>
      (\<exists>g. project = ORG_NAMESPACE \<and>
         for_proposal jc s identity project kind update manifest = ?e\<lparr>e_grants := e_grants ?e @ [g]\<rparr> \<and>
         (kind = ''RoleBinding'' \<and> project_binding jc s identity manifest = Some g \<or>
          kind = ''Group'' \<and> update \<and> app_group_door jc s identity manifest = Some g))"
    by (cases "project_binding jc s identity manifest"; cases "app_group_door jc s identity manifest")
      (simp_all add: for_proposal_def Let_def)
  then consider "for_proposal jc s identity project kind update manifest = ?e"
    | g where "project = ORG_NAMESPACE" "kind = ''RoleBinding''" "project_binding jc s identity manifest = Some g"
      "for_proposal jc s identity project kind update manifest = ?e\<lparr>e_grants := e_grants ?e @ [g]\<rparr>"
    | g where "project = ORG_NAMESPACE" "kind = ''Group''" "update" "app_group_door jc s identity manifest = Some g"
      "for_proposal jc s identity project kind update manifest = ?e\<lparr>e_grants := e_grants ?e @ [g]\<rparr>"
    by blast
  then show ?thesis
  proof cases
    case 1
    then show ?thesis using assms(2) by simp
  next
    case 2
    then show ?thesis using check_extended [of jc ?e "[g]" kind' verb target] assms
        project_binding_Some [OF 2(3)] door_admits [OF assms(1)] by fastforce
  next
    case 3
    then show ?thesis using check_extended [of jc ?e "[g]" kind' verb target] assms
        app_group_door_Some [OF 3(4)] door_admits [OF assms(1)] by fastforce
  qed
qed

text \<open>The project \<open>bikes\<close> as one of the installation's own Organization.\<close>

definition home_project :: mirror where
  "home_project = upsert demo_names (demo_env ''org'' ''Project'' ''bikes''
     (JObject [(''organizationRef'', JString ''helsinki'')])) demo_access"

definition demo_state :: app_state where
  "demo_state = \<lparr>gs_mirror = home_project, gs_bootstrap = ''boot'', gs_foreign_group = (\<lambda>_. False),
     gs_to_value = (\<lambda>env. Inr (demo_manifest (meta_name (metadata env)) [])), gs_from_value = (\<lambda>_. Inl []),
     gs_now = 0\<rparr>"

definition bikes_proposal :: json where
  "bikes_proposal = demo_manifest ''bikes-reader''
     [(''role'', JString ''admin''), (''scope'', JObject [(''project'', JString ''bikes'')]),
      (''subjects'', JArray [JObject [(''user'', JString ''ivo'')]])]"

theorem proposal_door_is_narrow_witness:
  "check demo_core (for_request demo_core demo_state (demo_person ''eve'') ''org'') ''RoleBinding'' Propose
      (Some bikes_proposal) \<noteq> Inr () \<and> proposes_project_binding demo_core demo_state (demo_person ''eve'') bikes_proposal"
proof -
  have "check demo_core (for_request demo_core demo_state (demo_person ''eve'') ''org'') ''RoleBinding'' Propose
      (Some bikes_proposal) \<noteq> Inr ()" by code_simp
  moreover have "check demo_core (for_proposal demo_core demo_state (demo_person ''eve'') ''org'' ''RoleBinding'' False
      bikes_proposal) ''RoleBinding'' Propose (Some bikes_proposal) = Inr ()" by code_simp
  ultimately show ?thesis
    using proposal_door_is_narrow [OF demo_core_laws, of demo_state "demo_person ''eve''" "''org''" "''RoleBinding''"
        False bikes_proposal "''RoleBinding''" Propose "Some bikes_proposal"] by simp
qed

text \<open>
  A removal's permissions go beyond the caller's own only for reading and deleting
  RoleBindings at the organization, and only when the binding to remove lies in one project in which
  the caller may delete it.
\<close>

theorem removal_door_is_narrow:
  assumes "core_laws jc" "check jc (for_removal jc s identity project kind name) kind' verb target = Inr ()"
  shows "check jc (for_request jc s identity project) kind' verb target = Inr () \<or>
    (project = ORG_NAMESPACE \<and> kind = ''RoleBinding'' \<and> kind' = ''RoleBinding'' \<and> verb \<in> {Read, Delete} \<and>
     (\<exists>held own manifest. get (gs_mirror s) ORG_NAMESPACE ''RoleBinding'' name = Some held \<and>
        binding_project jc (gs_mirror s) (env_spec held) = Some own \<and> gs_to_value s held = Inr manifest \<and>
        check jc (for_request jc s identity own) ''RoleBinding'' Delete (Some manifest) = Inr ()))"
proof -
  let ?e = "for_request jc s identity project"
  have "for_removal jc s identity project kind name = ?e \<or>
      (\<exists>g. project = ORG_NAMESPACE \<and> kind = ''RoleBinding'' \<and> project_unbinding jc s identity name = Some g \<and>
         for_removal jc s identity project kind name = ?e\<lparr>e_grants := e_grants ?e @ [g]\<rparr>)"
    by (cases "project_unbinding jc s identity name") (simp_all add: for_removal_def Let_def)
  then consider "for_removal jc s identity project kind name = ?e"
    | g where "project = ORG_NAMESPACE" "kind = ''RoleBinding''" "project_unbinding jc s identity name = Some g"
      "for_removal jc s identity project kind name = ?e\<lparr>e_grants := e_grants ?e @ [g]\<rparr>"
    by blast
  then show ?thesis
  proof cases
    case 1
    then show ?thesis using assms(2) by simp
  next
    case 2
    obtain held own manifest role b where h: "get (gs_mirror s) ORG_NAMESPACE ''RoleBinding'' name = Some held"
      "binding_project jc (gs_mirror s) (env_spec held) = Some own" "gs_to_value s held = Inr manifest"
      "check jc (for_request jc s identity own) ''RoleBinding'' Delete (Some manifest) = Inr ()"
      "g = door role b own ''RoleBinding'' [Read, Delete]" using project_unbinding_Some [OF 2(3)] by metis
    then show ?thesis using check_extended [of jc ?e "[g]" kind' verb target] assms 2
        door_admits [OF assms(1), of kind' verb target role b own "''RoleBinding''" "[Read, Delete]"] by auto
  qed
qed

theorem removal_door_is_narrow_witness:
  "check demo_core (for_request demo_core demo_state (demo_person ''eve'') ''org'') ''RoleBinding'' Delete None \<noteq> Inr () \<and>
   (\<exists>own. binding_project demo_core home_project
      (env_spec (demo_binding ''bikes-admin'' ''eve'' ''admin'' [(''project'', JString ''bikes'')])) = Some own)"
proof -
  have held: "get (gs_mirror demo_state) ORG_NAMESPACE ''RoleBinding'' ''bikes-admin'' =
    Some (demo_binding ''bikes-admin'' ''eve'' ''admin'' [(''project'', JString ''bikes'')])" by code_simp
  have no: "check demo_core (for_request demo_core demo_state (demo_person ''eve'') ''org'') ''RoleBinding'' Delete None \<noteq> Inr ()"
    by code_simp
  have "check demo_core (for_removal demo_core demo_state (demo_person ''eve'') ''org'' ''RoleBinding'' ''bikes-admin'')
      ''RoleBinding'' Delete None = Inr ()" by code_simp
  from removal_door_is_narrow [OF demo_core_laws this] no held
  show ?thesis by (auto simp: demo_state_def)
qed

text \<open>
  In a project of another Organization the door never opens: the project's administrator, whose role
  grants propose on RoleBinding there, is left without it, since such a project's grants lose every
  kind of the organization.
\<close>

lemma door_is_shut_elsewhere:
  "project_binding demo_core (demo_state\<lparr>gs_mirror := demo_access\<rparr>) (demo_person ''eve'') bikes_proposal = None"
  "project_binding demo_core demo_state (demo_person ''eve'') bikes_proposal \<noteq> None"
  by code_simp+

text \<open>
  Property C11. While a Group stays, no sequence of accepted writes hands it from its owner to another:
  the App it is the default group of stays the one it was, or it becomes the organization's.
\<close>

theorem group_is_never_handed_over:
  assumes "group_writes jc name s s'" "get (gs_mirror s) ORG_NAMESPACE ''Group'' name = Some held"
  shows "\<exists>held'. get (gs_mirror s') ORG_NAMESPACE ''Group'' name = Some held' \<and>
    (app_label (metadata held') = app_label (metadata held) \<or> app_label (metadata held') = None)"
  by (rule group_writes_owner [OF assms])

definition owned_group :: "string \<Rightarrow> string \<Rightarrow> envelope" where
  "owned_group name app =
     (let env = demo_env ''org'' ''Group'' name (JObject [])
      in env\<lparr>metadata := (metadata env)\<lparr>meta_annotations := [(APP_LABEL, app)]\<rparr>\<rparr>)"

definition owned_state :: app_state where
  "owned_state = demo_state\<lparr>gs_mirror := upsert demo_names (owned_group ''bikers'' ''bikes/map'') home_project\<rparr>"

theorem group_is_never_handed_over_witness:
  "\<exists>held'. get (upsert demo_names (owned_group ''bikers'' ''bikes/map'') (gs_mirror owned_state)) ''org'' ''Group'' ''bikers'' = Some held' \<and>
     (app_label (metadata held') = Some ''bikes/map'' \<or> app_label (metadata held') = None)"
proof -
  have held: "get (gs_mirror owned_state) ORG_NAMESPACE ''Group'' ''bikers'' = Some (owned_group ''bikers'' ''bikes/map'')"
    "app_label (metadata (owned_group ''bikers'' ''bikes/map'')) = Some ''bikes/map''"
    "group_check demo_core owned_state (demo_person ''eve'') (env_kind (owned_group ''bikers'' ''bikes/map''))
       (metadata (owned_group ''bikers'' ''bikes/map'')) = Inr ()" by code_simp+
  have "jc_names demo_core = demo_names" by (simp add: demo_core_def)
  then show ?thesis
    using group_is_never_handed_over [OF group_writes.accepted [OF group_writes.untouched held(3)] held(1)] held(2)
    by (simp add: ORG_NAMESPACE_def)
qed

end
