(* ===== verification/Change.thy ===== *)
theory Change
  imports Selector "HOL-Library.Word"
begin

text \<open>
  The \<open>Change\<close> every mutation returns (\<open>src/change.rs\<close>): its name, the channel it was proposed
  through with the Git trailer that records it, and the approval lane a manifest falls into.

  The task local \<open>PROPOSED_VIA\<close> is the argument \<open>current\<close>: the channel of the call being
  served, if any. Of a connector only the id and the name are read.
\<close>

subsection \<open>Definitions\<close>

datatype lane = Green | Yellow | Red

datatype change_phase = PendingApproval | Deploying | Merged | Applied | Rejected

datatype operation = OpCreate | OpUpdate | OpDelete

record plan_summary =
  ps_create :: nat
  ps_update :: nat
  ps_delete :: nat

definition new_summary :: "nat \<Rightarrow> nat \<Rightarrow> nat \<Rightarrow> plan_summary" where
  "new_summary create update delete = \<lparr>ps_create = create, ps_update = update, ps_delete = delete\<rparr>"

record change_meta =
  cm_name :: string
  cm_namespace :: string

definition from_merge_request :: "64 word \<Rightarrow> string \<Rightarrow> change_meta" where
  "from_merge_request mr_number ns =
     \<lparr>cm_name = ''chg-'' @ hex8 (unat mr_number), cm_namespace = ns\<rparr>"

definition from_organization_merge_request :: "64 word \<Rightarrow> string \<Rightarrow> change_meta" where
  "from_organization_merge_request mr_number ns =
     \<lparr>cm_name = ''chg-org-'' @ hex8 (unat mr_number), cm_namespace = ns\<rparr>"

record proposed_via =
  via_channel :: string
  via_client :: string
  via_connector :: "string option"
  via_connector_name :: "string option"
  via_plan :: "string option"

record change_status =
  cs_lane :: lane
  cs_repository :: "string option"
  cs_merge_request :: "string option"
  cs_plan :: plan_summary
  cs_phase :: change_phase
  cs_proposed_via :: "proposed_via option"

definition new_status :: "lane \<Rightarrow> change_phase \<Rightarrow> plan_summary \<Rightarrow> change_status" where
  "new_status l phase plan =
     \<lparr>cs_lane = l, cs_repository = None, cs_merge_request = None, cs_plan = plan, cs_phase = phase,
      cs_proposed_via = None\<rparr>"

definition in_repository :: "string \<Rightarrow> change_status \<Rightarrow> change_status" where
  "in_repository repository st =
     st\<lparr>cs_repository := (if repository \<noteq> [] then Some repository else None)\<rparr>"

definition with_merge_request :: "string \<Rightarrow> change_status \<Rightarrow> change_status" where
  "with_merge_request mr st = st\<lparr>cs_merge_request := Some mr\<rparr>"

definition TRAILER :: string where
  "TRAILER = ''Proposed-Via: ''"

definition client_char :: "char \<Rightarrow> bool" where
  "client_char b \<longleftrightarrow> is_ascii_alphanumeric b \<or> b \<in> set ''._:-''"

definition valid_client :: "string \<Rightarrow> bool" where
  "valid_client client \<longleftrightarrow> 1 \<le> length client \<and> length client \<le> 64 \<and> list_all client_char client"

definition CIMD_CLIENTS :: "(string \<times> string) list" where
  "CIMD_CLIENTS =
     [(''https://claude.ai/oauth/claude-code-client-metadata'', ''claude-code''),
      (''https://claude.ai/oauth/mcp-oauth-client-metadata'', ''claude-ai'')]"

definition cimd_host :: "string \<Rightarrow> string option" where
  "cimd_host client =
     (case strip_prefix ''https://'' client of
        None \<Rightarrow> None
      | Some rest \<Rightarrow>
          (let host = hd (str_split (CHR ''/'') rest)
           in if host \<noteq> [] \<and> CHR '':'' \<notin> set host \<and> valid_client host then Some host else None))"

definition mcp :: "string option \<Rightarrow> proposed_via" where
  "mcp client =
     \<lparr>via_channel = ''mcp'',
      via_client = unwrap_or ''unknown''
        (Option.bind client (\<lambda>c.
           or_else (map_option snd (List.find (\<lambda>(url, _). url = c) CIMD_CLIENTS))
             (or_else (cimd_host c) (if valid_client c then Some c else None)))),
      via_connector = None, via_connector_name = None, via_plan = None\<rparr>"

definition through :: "(string \<times> string) option \<Rightarrow> proposed_via \<Rightarrow> proposed_via" where
  "through connector via =
     (case connector of
        None \<Rightarrow> via
      | Some (cid, name) \<Rightarrow>
          if valid_client cid \<and> valid_client name
          then via\<lparr>via_connector := Some cid, via_connector_name := Some name\<rparr> else via)"

definition with_plan :: "string \<Rightarrow> proposed_via \<Rightarrow> proposed_via" where
  "with_plan plan via = via\<lparr>via_plan := (if valid_client plan then Some plan else None)\<rparr>"

definition trailer :: "proposed_via \<Rightarrow> string" where
  "trailer via =
     fold (\<lambda>(key, value) line.
        case value of None \<Rightarrow> line | Some v \<Rightarrow> line @ ''; '' @ key @ ''='' @ v)
       [(''connector'', via_connector via), (''connectorName'', via_connector_name via),
        (''plan'', via_plan via)]
       (TRAILER @ via_channel via @ ''; client='' @ via_client via)"

definition sign :: "proposed_via option \<Rightarrow> string \<Rightarrow> string" where
  "sign current message =
     (case current of
        None \<Rightarrow> message
      | Some via \<Rightarrow> message @ newline @ newline @ trailer via)"

definition sign_body :: "proposed_via option \<Rightarrow> string \<Rightarrow> string" where
  "sign_body current body =
     (case current of
        None \<Rightarrow> body
      | Some via \<Rightarrow>
          ''Proposed through an AI client over MCP (client `'' @ via_client via @ ''`)'' @
          (case via_connector_name via of
             None \<Rightarrow> []
           | Some name \<Rightarrow> '' through connector `'' @ name @ ''`'') @
          ''.'' @ newline @ newline @ body @ newline @ newline @ trailer via)"

fun read_parts :: "proposed_via \<Rightarrow> string list \<Rightarrow> proposed_via option" where
  "read_parts via [] = Some via"
| "read_parts via (part # parts) =
     (case split_once ''='' part of
        None \<Rightarrow> None
      | Some (key, value) \<Rightarrow>
          if \<not> valid_client value then None
          else if key = ''connector'' then read_parts (via\<lparr>via_connector := Some value\<rparr>) parts
          else if key = ''connectorName'' then read_parts (via\<lparr>via_connector_name := Some value\<rparr>) parts
          else if key = ''plan'' then read_parts (via\<lparr>via_plan := Some value\<rparr>) parts
          else None)"

definition read_trailer :: "string \<Rightarrow> proposed_via option" where
  "read_trailer line =
     (case split_once ''; client='' line of
        None \<Rightarrow> None
      | Some (channel, rest) \<Rightarrow>
          (case str_split_pat ''; '' rest of
             [] \<Rightarrow> None
           | client # parts \<Rightarrow>
               if channel \<noteq> ''mcp'' \<or> \<not> valid_client client then None
               else read_parts (mcp (Some client)) parts))"

definition in_body :: "string \<Rightarrow> proposed_via option" where
  "in_body body =
     Option.bind (find_map (\<lambda>l. strip_prefix TRAILER (str_trim l)) (rev (str_lines body))) read_trailer"

definition proposed_through :: "string \<Rightarrow> change_status \<Rightarrow> change_status" where
  "proposed_through merge_request_body st = st\<lparr>cs_proposed_via := in_body merge_request_body\<rparr>"

definition RED_KINDS :: "string list" where
  "RED_KINDS =
     [''ContextSourceRegistration'', ''SharedSpaceReference'', ''DataSpaceParticipant'', ''DataOffer'',
      ''DataAgreement'', ''ServiceAccount'', ''Role'', ''RoleBinding'', ''Group'', ''ContextBroker'',
      ''MqttBroker'', ''Environment'', ''Policy'', ''ScopeDefinition'', ''Organization'', ''Project'',
      ''DelegationPolicy'']"

definition classify :: "string \<Rightarrow> operation \<Rightarrow> json \<Rightarrow> lane" where
  "classify kind op spec =
     (if op = OpDelete then Red
      else if kind = ''Endpoint'' \<and> get_str ''audience'' spec = Some ''public'' then Red
      else if kind = ''App'' \<and>
        (get_str ''visibility'' spec = Some ''public'' \<or>
         is_some_and (\<lambda>egress. egress \<noteq> []) (get_array ''egress'' spec)) then Red
      else if kind = ''McpServer'' \<and> get_str ''audience'' spec = Some ''public'' then Red
      else if kind = ''AssistantDeployment'' \<and>
        is_some_and (\<lambda>channel. channel \<noteq> ''internal'') (get_str ''channel'' spec) then Red
      else if kind \<in> set RED_KINDS then Red
      else if kind = ''ContextSpace'' \<and> Option.bind (jget ''isSandbox'' spec) as_bool = Some True
      then Green
      else if kind \<in> {''Dashboard'', ''Layer''} then Green
      else Yellow)"

definition classify_manifest :: "envelope \<Rightarrow> operation \<Rightarrow> lane" where
  "classify_manifest manifest op =
     (if env_kind manifest = ''DataModel'' \<and>
         meta_namespace (metadata manifest) = Some ORG_NAMESPACE then Red
      else classify (env_kind manifest) op (env_spec manifest))"

subsection \<open>Lemmas\<close>

text \<open>Reading a base-16 text back, leading zeros or not.\<close>

definition hex_digit :: "char \<Rightarrow> nat" where
  "hex_digit c = (let n = of_char c in if n < 58 then n - 48 else n - 87)"

definition hex_value :: "string \<Rightarrow> nat" where
  "hex_value s = foldl (\<lambda>n c. 16 * n + hex_digit c) 0 s"

lemma hex_digit_char: "d < 16 \<Longrightarrow> hex_digit (digit_char d) = d"
  by (auto simp: hex_digit_def digit_char_def Let_def)

lemma hex_value_append: "hex_value (a @ [c]) = 16 * hex_value a + hex_digit c"
  by (simp add: hex_value_def)

lemma hex_value_show: "hex_value (show_base 16 n) = n"
proof (induction n rule: less_induct)
  case (less n)
  show ?case
  proof (cases "n < 16")
    case True
    then show ?thesis by (subst show_base.simps) (simp add: hex_value_def hex_digit_char)
  next
    case False
    then have "hex_value (show_base 16 (n div 16)) = n div 16" by (intro less.IH) simp
    with False show ?thesis
      by (subst show_base.simps) (simp add: hex_value_append hex_digit_char)
  qed
qed

lemma hex_value_zeros: "hex_value (replicate k (CHR ''0'') @ s) = hex_value s"
proof (induction k)
  case (Suc k)
  have "hex_digit (CHR ''0'') = 0" by code_simp
  with Suc show ?case by (simp add: hex_value_def)
qed simp

lemma hex8_inject [simp]: "hex8 a = hex8 b \<longleftrightarrow> a = b"
  by (metis hex8_def hex_value_show hex_value_zeros)

lemma show_base_chars: "c \<in> set (show_base 16 n) \<Longrightarrow> \<exists>d < 16. c = digit_char d"
proof (induction n rule: less_induct)
  case (less n)
  show ?case
  proof (cases "n < 16")
    case True
    with less.prems show ?thesis by (subst (asm) show_base.simps) auto
  next
    case False
    then have "set (show_base 16 n) = insert (digit_char (n mod 16)) (set (show_base 16 (n div 16)))"
      by (subst show_base.simps) auto
    then consider "c = digit_char (n mod 16)" | "c \<in> set (show_base 16 (n div 16))"
      using less.prems by auto
    then show ?thesis
    proof cases
      case 1
      then show ?thesis by (intro exI [of _ "n mod 16"]) simp
    next
      case 2
      then show ?thesis using less.IH [of "n div 16"] False by simp
    qed
  qed
qed

lemma hex8_no_o: "CHR ''o'' \<notin> set (hex8 n)"
proof -
  have "digit_char d \<noteq> CHR ''o''" if "d < 16" for d
    using hex_digit_char [OF that] that by (auto simp: hex_digit_def)
  then show ?thesis using show_base_chars by (fastforce simp: hex8_def Let_def)
qed

text \<open>Client names, connectors and plans never hold the separators of the trailer.\<close>

lemma client_char_not:
  "client_char b \<Longrightarrow> b \<noteq> CHR '';'' \<and> b \<noteq> CHR ''='' \<and> b \<noteq> CHR ''/'' \<and> b \<noteq> CHR '' '' \<and> b \<noteq> CHR 0x0A"
  by (auto simp: client_char_def is_ascii_alphanumeric_def is_ascii_digit_def is_ascii_alpha_def Let_def)

lemma valid_client_not:
  assumes "valid_client c"
  shows "c \<noteq> []" "CHR '';'' \<notin> set c" "CHR ''='' \<notin> set c" "CHR ''/'' \<notin> set c" "CHR 0x0A \<notin> set c"
  using assms client_char_not by (auto simp: valid_client_def list_all_iff)

lemma mcp_valid:
  assumes "valid_client c"
  shows "via_client (mcp (Some c)) = c"
proof -
  have slash: "CHR ''/'' \<notin> set c" using valid_client_not [OF assms] by simp
  have "CHR ''/'' \<in> set url" if "(url, n) \<in> set CIMD_CLIENTS" for url n
    using that by (auto simp: CIMD_CLIENTS_def)
  then have "List.find (\<lambda>(url, _). url = c) CIMD_CLIENTS = None"
    using slash by (auto simp: find_None_iff)
  moreover have "strip_prefix ''https://'' c = None"
  proof (rule ccontr)
    assume "strip_prefix ''https://'' c \<noteq> None"
    then obtain r where "c = ''https://'' @ r" by (auto simp: strip_prefix_Some_iff)
    with slash show False by simp
  qed
  ultimately show ?thesis
    using assms by (simp add: mcp_def unwrap_or_def or_else_def cimd_host_def)
qed

definition via_wf :: "proposed_via \<Rightarrow> bool" where
  "via_wf via \<longleftrightarrow>
     via_channel via = ''mcp'' \<and> valid_client (via_client via) \<and>
     is_none_or valid_client (via_connector via) \<and> is_none_or valid_client (via_connector_name via) \<and>
     is_none_or valid_client (via_plan via)"

lemma mcp_wf: "via_wf (mcp client)"
proof -
  have "valid_client (via_client (mcp client))"
  proof (cases client)
    case None
    then show ?thesis by (simp add: mcp_def unwrap_or_def) code_simp
  next
    case (Some c)
    have "valid_client n" if "List.find (\<lambda>(url, _). url = c) CIMD_CLIENTS = Some (url, n)" for url n
    proof -
      have "n = ''claude-code'' \<or> n = ''claude-ai''"
        using find_Some_in [OF that] by (auto simp: CIMD_CLIENTS_def)
      moreover have "valid_client ''claude-code''" "valid_client ''claude-ai''" by code_simp+
      ultimately show ?thesis by blast
    qed
    moreover have "valid_client ''unknown''" by code_simp
    ultimately show ?thesis
      using Some
      by (auto simp: mcp_def unwrap_or_def or_else_def cimd_host_def Let_def split: option.splits if_splits)
  qed
  then show ?thesis by (simp add: via_wf_def mcp_def is_none_or_def)
qed

lemma via_wf_built: "via_wf (with_plan plan (through connector (mcp client)))"
  using mcp_wf [of client]
  by (auto simp: via_wf_def with_plan_def through_def is_none_or_def split: option.splits)

text \<open>The trailer as the parts its reader cuts it into.\<close>

definition trailer_part :: "string \<Rightarrow> string option \<Rightarrow> string list" where
  "trailer_part key value = (case value of None \<Rightarrow> [] | Some v \<Rightarrow> [key @ ''='' @ v])"

definition trailer_parts :: "proposed_via \<Rightarrow> string list" where
  "trailer_parts via =
     trailer_part ''connector'' (via_connector via) @
     trailer_part ''connectorName'' (via_connector_name via) @ trailer_part ''plan'' (via_plan via)"

lemma trailer_joined:
  "trailer via = TRAILER @ via_channel via @ ''; client='' @ str_join ''; '' (via_client via # trailer_parts via)"
  by (cases "via_connector via"; cases "via_connector_name via"; cases "via_plan via")
     (simp_all add: trailer_def trailer_parts_def trailer_part_def)

lemma valid_client_word: "valid_client c \<Longrightarrow> word c"
proof -
  have "client_char b \<Longrightarrow> word_char b" for b
    by (auto simp: client_char_def is_ascii_alphanumeric_def is_ascii_digit_def is_ascii_alpha_def
          word_char_def Let_def)
  then show "valid_client c \<Longrightarrow> word c" by (auto simp: valid_client_def word_def list_all_iff)
qed

lemma tight_str_join:
  "xs \<noteq> [] \<Longrightarrow> \<forall>x \<in> set xs. tight x \<Longrightarrow> ascii sep \<Longrightarrow> tight (str_join sep xs)"
  by (induction sep xs rule: str_join.induct) (simp_all add: tight_append)

lemma trailer_part_ok:
  assumes "is_none_or valid_client opt" and "key \<in> {''connector'', ''connectorName'', ''plan''}"
    and "p \<in> set (trailer_part key opt)"
  shows "tight p \<and> CHR '';'' \<notin> set p \<and> CHR 0x0A \<notin> set p"
proof -
  obtain v where v: "valid_client v" "p = key @ ''='' @ v"
    using assms(1,3) by (auto simp: trailer_part_def is_none_or_iff split: option.splits)
  have "tight key" using assms(2) by (auto simp: tight_def ascii_def is_whitespace_byte)
  moreover have "tight v" using valid_client_word [OF v(1)] word_tight by blast
  moreover have "ascii ''=''" by (simp add: ascii_def)
  ultimately have "tight p" using v(2) tight_append by metis
  with v assms(2) valid_client_not [OF v(1)] show ?thesis by auto
qed

lemma trailer_parts_ok:
  assumes "via_wf via" and "p \<in> set (via_client via # trailer_parts via)"
  shows "tight p \<and> CHR '';'' \<notin> set p \<and> CHR 0x0A \<notin> set p"
  using assms trailer_part_ok valid_client_word word_tight valid_client_not
  by (auto simp: via_wf_def trailer_parts_def)

lemma read_parts_part:
  assumes "is_none_or valid_client opt"
  shows "read_parts via (trailer_part ''connector'' opt @ ps) =
      read_parts (case opt of None \<Rightarrow> via | Some v \<Rightarrow> via\<lparr>via_connector := Some v\<rparr>) ps"
    and "read_parts via (trailer_part ''connectorName'' opt @ ps) =
      read_parts (case opt of None \<Rightarrow> via | Some v \<Rightarrow> via\<lparr>via_connector_name := Some v\<rparr>) ps"
    and "read_parts via (trailer_part ''plan'' opt @ ps) =
      read_parts (case opt of None \<Rightarrow> via | Some v \<Rightarrow> via\<lparr>via_plan := Some v\<rparr>) ps"
  using assms
  by (cases opt; simp add: trailer_part_def is_none_or_def)+

lemma read_parts_parts:
  assumes "via_wf via"
  shows "read_parts (mcp (Some (via_client via))) (trailer_parts via) = Some via"
proof -
  have c: "via_client (mcp (Some (via_client via))) = via_client via"
    using assms mcp_valid by (simp add: via_wf_def)
  have base: "mcp (Some (via_client via)) = \<lparr>via_channel = ''mcp'', via_client = via_client via,
      via_connector = None, via_connector_name = None, via_plan = None\<rparr>"
    using c by (simp add: mcp_def)
  from assms show ?thesis
    unfolding base trailer_parts_def via_wf_def
    using read_parts_part(3) [of "via_plan via" _ "[]"]
    by (cases "via_connector via"; cases "via_connector_name via"; cases "via_plan via")
       (simp_all add: read_parts_part)
qed

lemma read_trailer_trailer:
  assumes "via_wf via"
  shows "strip_prefix TRAILER (str_trim (trailer via)) = Some (drop (length TRAILER) (trailer via))"
    and "read_trailer (drop (length TRAILER) (trailer via)) = Some via"
proof -
  let ?parts = "via_client via # trailer_parts via"
  have ok: "tight p \<and> CHR '';'' \<notin> set p \<and> CHR 0x0A \<notin> set p" if "p \<in> set ?parts" for p
    using trailer_parts_ok [OF assms that] .
  have "tight (str_join ''; '' ?parts)"
    using ok by (intro tight_str_join) (auto simp: ascii_def)
  moreover have "trailer via = ''Proposed-Via:'' @ '' mcp; client='' @ str_join ''; '' ?parts"
    using assms by (simp add: trailer_joined TRAILER_def via_wf_def del: str_join.simps)
  ultimately have "tight (trailer via)"
    using tight_append [of "''Proposed-Via:''"] by (simp add: tight_def ascii_def is_whitespace_byte del: str_join.simps)
  then show "strip_prefix TRAILER (str_trim (trailer via)) = Some (drop (length TRAILER) (trailer via))"
    by (simp add: trailer_joined del: str_join.simps)
  have "split_once ''; client='' (''mcp'' @ ''; client='' @ str_join ''; '' ?parts) = Some (''mcp'', str_join ''; '' ?parts)"
    by (rule split_once_pattern) simp
  moreover have "str_split_pat ''; '' (str_join ''; '' ?parts) = ?parts"
    using ok by (intro str_split_pat_join) auto
  ultimately show "read_trailer (drop (length TRAILER) (trailer via)) = Some via"
    using assms read_parts_parts [OF assms]
    by (simp add: trailer_joined read_trailer_def via_wf_def del: str_join.simps)
qed

lemma trailer_one_line:
  assumes "via_wf via"
  shows "CHR 0x0A \<notin> set (trailer via)" "trailer via \<noteq> []"
  using assms trailer_parts_ok [OF assms]
  by (auto simp: trailer_joined TRAILER_def via_wf_def simp del: str_join.simps dest!: set_str_join)

lemma in_body_last_trailer:
  assumes "via_wf via"
  shows "in_body (text @ newline @ trailer via) = Some via"
proof -
  obtain ls where "str_lines (text @ CHR 0x0A # trailer via) = ls @ [trailer via]"
    using str_lines_last [OF trailer_one_line [OF assms]] by blast
  then show ?thesis
    using read_trailer_trailer [OF assms] by (simp add: in_body_def newline_def)
qed

subsection \<open>Properties\<close>

text \<open>The channel a Change was proposed through is read back from what was written:
  a merge request body or a commit message signed for a call names exactly that call's client,
  connector and plan, whatever the text it signs says.\<close>

theorem signed_channel_is_read_back:
  "via = with_plan plan (through connector (mcp client)) \<Longrightarrow>
   in_body (sign_body (Some via) body) = Some via \<and> in_body (sign (Some via) body) = Some via"
proof -
  assume via: "via = with_plan plan (through connector (mcp client))"
  have wf: "via_wf via" unfolding via by (rule via_wf_built)
  have "\<exists>text. sign_body (Some via) body = text @ newline @ trailer via"
    by (simp add: sign_body_def)
  moreover have "sign (Some via) body = (body @ newline) @ newline @ trailer via"
    by (simp add: sign_def)
  ultimately show ?thesis using in_body_last_trailer [OF wf] by metis
qed

theorem signed_channel_is_read_back_witness:
  "in_body (sign_body (Some (with_plan ''p1'' (through (Some (''c1'', ''lab'')) (mcp (Some ''mcp-mobile'')))))
      ''Proposed-Via: mcp; client=forged'') =
     Some (with_plan ''p1'' (through (Some (''c1'', ''lab'')) (mcp (Some ''mcp-mobile''))))"
  using signed_channel_is_read_back [OF refl] by blast

text \<open>Merge requests have distinct Change names: two numbers never share a name, and
  a project's Change is never named as one of the organization repository.\<close>

theorem change_names_are_distinct:
  "(cm_name (from_merge_request a ns) = cm_name (from_merge_request b ns') \<longleftrightarrow> a = b) \<and>
   (cm_name (from_organization_merge_request a ns) = cm_name (from_organization_merge_request b ns')
      \<longleftrightarrow> a = b) \<and>
   cm_name (from_merge_request a ns) \<noteq> cm_name (from_organization_merge_request b ns')"
proof -
  have "CHR ''o'' \<in> set (cm_name (from_organization_merge_request b ns'))"
    by (simp add: from_organization_merge_request_def)
  moreover have "CHR ''o'' \<notin> set (cm_name (from_merge_request a ns))"
    using hex8_no_o by (simp add: from_merge_request_def)
  ultimately have "cm_name (from_merge_request a ns) \<noteq> cm_name (from_organization_merge_request b ns')"
    by metis
  then show ?thesis
    by (simp add: from_merge_request_def from_organization_merge_request_def word_unat_eq_iff)
qed

text \<open>Only three kinds skip review: a change is in the green lane exactly when it is
  no deletion and is of a Dashboard, a Layer or a sandbox ContextSpace. Every other change waits
  for an approval.\<close>

theorem green_lane_exact:
  "classify_manifest m op = Green \<longleftrightarrow>
     op \<noteq> OpDelete \<and>
     (env_kind m \<in> {''Dashboard'', ''Layer''} \<or>
      env_kind m = ''ContextSpace'' \<and> jget ''isSandbox'' (env_spec m) = Some (JBool True))"
proof -
  have bool: "Option.bind (jget k v) as_bool = Some b \<longleftrightarrow> jget k v = Some (JBool b)" for k v b
    by (cases "jget k v") (auto elim: as_bool.elims)
  show ?thesis
    by (auto simp: classify_manifest_def classify_def RED_KINDS_def bool is_some_and_iff)
qed

end
