(* ===== verification/Plan.thy ===== *)
theory Plan
  imports Change
begin

text \<open>
  The reviewer's delta between two manifests and the JSON merge patch (\<open>src/plan.rs\<close>).

  \<open>serde_json::to_value\<close> of the metadata is jc-core's and the argument \<open>meta_value\<close>; \<open>None\<close>
  is a serialisation error. Objects are ordered maps, so the sort of the entries by key is the
  order they have.
\<close>

subsection \<open>Definitions\<close>

record field_change =
  fc_path :: string
  fc_from :: "json option"
  fc_to :: "json option"

record plan_diff =
  pd_summary :: plan_summary
  pd_fields :: "field_change list"

definition empty_diff :: plan_diff where
  "empty_diff = \<lparr>pd_summary = new_summary 0 0 0, pd_fields = []\<rparr>"

definition is_empty_diff :: "plan_diff \<Rightarrow> bool" where
  "is_empty_diff d \<longleftrightarrow> pd_fields d = []"

definition restarts_stream :: "string \<Rightarrow> plan_diff \<Rightarrow> bool" where
  "restarts_stream kind d \<longleftrightarrow>
     kind = ''Pipeline'' \<and>
     list_ex (\<lambda>f. (fc_path f = ''spec'' \<or> starts_with ''spec.'' (fc_path f)) \<and>
       fc_path f \<noteq> ''spec.enabled'') (pd_fields d)"

definition member_path :: "string \<Rightarrow> string \<Rightarrow> string" where
  "member_path path key = path @ ''.'' @ key"

definition element_path :: "string \<Rightarrow> nat \<Rightarrow> string" where
  "element_path path i = path @ ''['' @ show_nat i @ '']''"

fun collect_leaves :: "string \<Rightarrow> json \<Rightarrow> (string \<times> json) list"
  and member_leaves :: "string \<Rightarrow> (string \<times> json) list \<Rightarrow> (string \<times> json) list"
  and element_leaves :: "string \<Rightarrow> nat \<Rightarrow> json list \<Rightarrow> (string \<times> json) list" where
  "collect_leaves prefix (JObject m) =
     (if m = [] then
        if prefix \<noteq> ''metadata'' \<and> prefix \<noteq> ''spec'' then [(prefix, JObject m)] else []
      else member_leaves prefix m)"
| "collect_leaves prefix (JArray xs) =
     (if xs = [] then [(prefix, JArray xs)] else element_leaves prefix 0 xs)"
| "collect_leaves prefix v = [(prefix, v)]"
| "member_leaves prefix [] = []"
| "member_leaves prefix ((k, v) # m) = collect_leaves (member_path prefix k) v @ member_leaves prefix m"
| "element_leaves prefix i [] = []"
| "element_leaves prefix i (v # vs) = collect_leaves (element_path prefix i) v @ element_leaves prefix (Suc i) vs"

definition removed_fields :: "(string \<times> json) list \<Rightarrow> field_change list" where
  "removed_fields leaves = map (\<lambda>(p, v). \<lparr>fc_path = p, fc_from = Some v, fc_to = None\<rparr>) leaves"

definition added_fields :: "(string \<times> json) list \<Rightarrow> field_change list" where
  "added_fields leaves = map (\<lambda>(p, v). \<lparr>fc_path = p, fc_from = None, fc_to = Some v\<rparr>) leaves"

lemma member_size: "bt_get m k = Some v \<Longrightarrow> size v < size (JObject m)"
  by (induction m) (auto split: if_splits)

lemma element_size: "v \<in> set vs \<Longrightarrow> size v < size (JArray vs)"
  by (induction vs) auto

function diff_values :: "string \<Rightarrow> json \<Rightarrow> json \<Rightarrow> field_change list" where
  "diff_values path cur des =
     (if cur = des then []
      else
        (case (cur, des) of
           (JObject c, JObject d) \<Rightarrow>
             concat (map (\<lambda>key.
               (case (bt_get c key, bt_get d key) of
                  (Some x, Some y) \<Rightarrow> diff_values (member_path path key) x y
                | (Some x, None) \<Rightarrow> removed_fields (collect_leaves (member_path path key) x)
                | (None, Some y) \<Rightarrow> added_fields (collect_leaves (member_path path key) y)
                | (None, None) \<Rightarrow> []))
               (bt_set (map fst c @ map fst d)))
         | (JArray c, JArray d) \<Rightarrow>
             let min_len = min (length c) (length d)
             in concat (map (\<lambda>(i, x, y). diff_values (element_path path i) x y)
                  (enumerate 0 (zip c d))) @
                concat (map (\<lambda>(i, x). removed_fields (collect_leaves (element_path path i) x))
                  (drop min_len (enumerate 0 c))) @
                concat (map (\<lambda>(i, y). added_fields (collect_leaves (element_path path i) y))
                  (drop min_len (enumerate 0 d)))
         | _ \<Rightarrow> [\<lparr>fc_path = path, fc_from = Some cur, fc_to = Some des\<rparr>]))"
  by pat_completeness auto
termination
proof (relation "measure (\<lambda>(_, cur, _). size cur)", goal_cases)
  case (2 path cur des x y c d n e i p v w)
  then have "i < length c" "v = c ! i" by (auto simp: in_set_enumerate_eq)
  then have "v \<in> set c" by simp
  with 2 show ?case using element_size [of v c] by auto
next
  case 3
  then show ?case using member_size by auto
qed simp

declare diff_values.simps [simp del]

definition envelope_leaves :: "(object_meta \<Rightarrow> json option) \<Rightarrow> envelope \<Rightarrow> (string \<times> json) list" where
  "envelope_leaves meta_value env =
     (case meta_value (metadata env) of
        None \<Rightarrow> []
      | Some v \<Rightarrow> collect_leaves ''metadata'' v) @ collect_leaves ''spec'' (env_spec env)"

definition diff :: "(object_meta \<Rightarrow> json option) \<Rightarrow> envelope option \<Rightarrow> envelope option \<Rightarrow> plan_diff" where
  "diff meta_value current desired =
     (case (current, desired) of
        (None, None) \<Rightarrow> empty_diff
      | (None, Some des) \<Rightarrow>
          \<lparr>pd_summary = new_summary 1 0 0, pd_fields = added_fields (envelope_leaves meta_value des)\<rparr>
      | (Some cur, None) \<Rightarrow>
          \<lparr>pd_summary = new_summary 0 0 1, pd_fields = removed_fields (envelope_leaves meta_value cur)\<rparr>
      | (Some cur, Some des) \<Rightarrow>
          let fields =
                diff_values ''metadata'' (unwrap_or JNull (meta_value (metadata cur)))
                  (unwrap_or JNull (meta_value (metadata des))) @
                diff_values ''spec'' (env_spec cur) (env_spec des)
          in \<lparr>pd_summary = new_summary 0 (if fields = [] then 0 else 1) 0, pd_fields = fields\<rparr>)"

fun merge_patch :: "json \<Rightarrow> json \<Rightarrow> json"
  and merge_members :: "(string \<times> json) list \<Rightarrow> (string \<times> json) list \<Rightarrow> (string \<times> json) list" where
  "merge_patch target (JObject p) =
     JObject (merge_members (case target of JObject t \<Rightarrow> t | _ \<Rightarrow> []) p)"
| "merge_patch target patch = patch"
| "merge_members t [] = t"
| "merge_members t ((key, v) # p) =
     merge_members
       (if v = JNull then bt_remove key t
        else bt_insert key (merge_patch (unwrap_or JNull (bt_get t key)) v) t) p"

subsection \<open>Lemmas\<close>

text \<open>A JSON value as \<open>serde_json\<close> holds it: every object an ordered map.\<close>

fun json_wf :: "json \<Rightarrow> bool" where
  "json_wf (JObject m) \<longleftrightarrow> bt_wf m \<and> (\<forall>v \<in> snd ` set m. json_wf v)"
| "json_wf (JArray xs) \<longleftrightarrow> (\<forall>v \<in> set xs. json_wf v)"
| "json_wf _ \<longleftrightarrow> True"

lemma json_wf_get: "json_wf (JObject m) \<Longrightarrow> bt_get m k = Some v \<Longrightarrow> json_wf v"
  by (auto simp: bt_get_def dest!: map_of_SomeD)

lemma json_wf_insert: "json_wf (JObject m) \<Longrightarrow> json_wf v \<Longrightarrow> json_wf (JObject (bt_insert k v m))"
proof -
  have "e \<in> set (bt_insert k v m) \<Longrightarrow> e = (k, v) \<or> e \<in> set m" for e
    by (induction k v m rule: bt_insert.induct) (auto split: if_splits)
  then show "json_wf (JObject m) \<Longrightarrow> json_wf v \<Longrightarrow> json_wf (JObject (bt_insert k v m))"
    by (auto simp: bt_wf_insert) force
qed

lemma json_wf_remove: "json_wf (JObject m) \<Longrightarrow> json_wf (JObject (bt_remove k m))"
  by (auto simp: bt_wf_remove) (auto simp: bt_remove_def)

lemma json_wf_empty [simp]: "json_wf (JObject [])"
  by simp

lemma merge_wf:
  "json_wf t \<Longrightarrow> json_wf p \<Longrightarrow> json_wf (merge_patch t p)"
  "json_wf (JObject tm) \<Longrightarrow> (\<forall>v \<in> snd ` set pm. json_wf v) \<Longrightarrow> json_wf (JObject (merge_members tm pm))"
proof (induction t p and tm pm rule: merge_patch_merge_members.induct)
  case (1 target p)
  have "json_wf (JObject (case target of JObject t \<Rightarrow> t | _ \<Rightarrow> []))"
    using "1.prems"(1) by (cases target) (simp_all del: json_wf.simps(1))
  then show ?case using 1 by (simp del: json_wf.simps(1)) simp
next
  case (4 t key v p)
  have "json_wf (unwrap_or JNull (bt_get t key))"
    using json_wf_get [OF "4.prems"(1)] by (cases "bt_get t key") (simp_all add: unwrap_or_def)
  with 4 show ?case
    by (simp add: json_wf_insert json_wf_remove del: json_wf.simps(1))
qed (simp_all del: json_wf.simps(1))

text \<open>What a merge patch leaves of each member (RFC 7386).\<close>

lemma merge_members_get:
  assumes "distinct (map fst p)"
  shows "bt_get (merge_members t p) k =
    (case map_of p k of
       None \<Rightarrow> bt_get t k
     | Some v \<Rightarrow> if v = JNull then None else Some (merge_patch (unwrap_or JNull (bt_get t k)) v))"
  using assms
proof (induction p arbitrary: t)
  case (Cons e p)
  obtain key v where e: "e = (key, v)" by (cases e)
  show ?case
  proof (cases "k = key")
    case True
    then have "map_of p k = None" using Cons.prems e by (simp add: map_of_eq_None_iff)
    then show ?thesis using Cons e True by (simp add: bt_simps)
  next
    case False
    then show ?thesis using Cons e by (cases "map_of p k") (simp_all add: bt_simps)
  qed
qed simp

lemma merge_patch_twice: "json_wf t \<Longrightarrow> json_wf p \<Longrightarrow> merge_patch (merge_patch t p) p = merge_patch t p"
proof (induction p arbitrary: t rule: measure_induct_rule [of size])
  case (less p)
  show ?case
  proof (cases p)
    case (JObject pm)
    define t0 where "t0 = (case t of JObject m \<Rightarrow> m | _ \<Rightarrow> [])"
    have t0: "json_wf (JObject t0)"
      using less.prems(1) by (cases t) (simp_all add: t0_def del: json_wf.simps(1))
    have vals: "\<forall>v \<in> snd ` set pm. json_wf v" and keys: "bt_wf pm"
      using less.prems(2) JObject by simp_all
    then have dist: "distinct (map fst pm)" by (simp add: bt_wf_distinct)
    let ?m = "merge_members t0 pm"
    have wf: "json_wf (JObject ?m)" by (rule merge_wf(2) [OF t0 vals])
    have "merge_members ?m pm = ?m"
    proof (rule bt.entries_extensional)
      show "bt_get (merge_members ?m pm) k = bt_get ?m k" for k
      proof (cases "map_of pm k")
        case (Some v)
        then have v: "bt_get pm k = Some v" by (simp add: bt_get_def)
        have "merge_patch (merge_patch x v) v = merge_patch x v" if "json_wf x" for x
          using less.IH [of v x] member_size [OF v] that JObject json_wf_get [OF _ v] less.prems(2) by simp
        moreover have "json_wf (unwrap_or JNull (bt_get t0 k))"
          using json_wf_get [OF t0] by (cases "bt_get t0 k") (simp_all add: unwrap_or_def)
        ultimately show ?thesis
          using Some by (simp add: merge_members_get [OF dist] unwrap_or_def)
      qed (simp add: merge_members_get [OF dist])
      show "bt_wf (merge_members ?m pm)" using merge_wf(2) [OF wf vals] by simp
      show "bt_wf ?m" using wf by simp
    qed
    then show ?thesis using JObject by (simp add: t0_def)
  qed simp_all
qed

text \<open>Below a path: the path itself, or a member or an element of it.\<close>

definition below :: "string \<Rightarrow> string \<Rightarrow> bool" where
  "below p q \<longleftrightarrow> (\<exists>rest. q = p @ rest \<and> (rest = [] \<or> hd rest \<in> {CHR ''.'', CHR ''[''}))"

lemma below_refl [simp]: "below p p"
  by (simp add: below_def)

lemma below_member: "below (member_path p k) q \<Longrightarrow> below p q"
  by (auto simp: below_def member_path_def)

lemma below_element: "below (element_path p i) q \<Longrightarrow> below p q"
  by (auto simp: below_def element_path_def)

lemma leaves_below:
  "l \<in> set (collect_leaves p v) \<Longrightarrow> below p (fst l)"
  "l \<in> set (member_leaves p m) \<Longrightarrow> below p (fst l)"
  "l \<in> set (element_leaves p i xs) \<Longrightarrow> below p (fst l)"
proof (induction p v and p m and p i xs rule: collect_leaves_member_leaves_element_leaves.induct)
  case (5 prefix k v m)
  then show ?case using below_member by auto
next
  case (7 prefix i v vs)
  then show ?case using below_element by auto
qed (auto split: if_splits)

lemma child_path_not_root: "member_path p k \<notin> {''metadata'', ''spec''}" "element_path p i \<notin> {''metadata'', ''spec''}"
proof -
  have "CHR ''.'' \<in> set (member_path p k)" "CHR ''['' \<in> set (element_path p i)"
    by (simp_all add: member_path_def element_path_def)
  then show "member_path p k \<notin> {''metadata'', ''spec''}" "element_path p i \<notin> {''metadata'', ''spec''}"
    by auto
qed

lemma leaves_not_Nil:
  "p \<notin> {''metadata'', ''spec''} \<Longrightarrow> collect_leaves p v \<noteq> []"
  "m \<noteq> [] \<Longrightarrow> member_leaves p m \<noteq> []"
  "xs \<noteq> [] \<Longrightarrow> element_leaves p i xs \<noteq> []"
  by (induction p v and p m and p i xs rule: collect_leaves_member_leaves_element_leaves.induct)
     (simp_all add: child_path_not_root [simplified])

lemma field_lists_Nil [simp]: "removed_fields ls = [] \<longleftrightarrow> ls = []" "added_fields ls = [] \<longleftrightarrow> ls = []"
  by (simp_all add: removed_fields_def added_fields_def)

text \<open>What one key of two objects and one position of two arrays contribute.\<close>

definition diff_member ::
    "string \<Rightarrow> (string \<times> json) list \<Rightarrow> (string \<times> json) list \<Rightarrow> string \<Rightarrow> field_change list" where
  "diff_member p c d key =
     (case (bt_get c key, bt_get d key) of
        (Some x, Some y) \<Rightarrow> diff_values (member_path p key) x y
      | (Some x, None) \<Rightarrow> removed_fields (collect_leaves (member_path p key) x)
      | (None, Some y) \<Rightarrow> added_fields (collect_leaves (member_path p key) y)
      | (None, None) \<Rightarrow> [])"

lemma diff_values_same [simp]: "diff_values p c c = []"
  by (subst diff_values.simps) simp

lemma diff_values_objects:
  "c \<noteq> d \<Longrightarrow> diff_values p (JObject c) (JObject d) =
     concat (map (diff_member p c d) (bt_set (map fst c @ map fst d)))"
  by (subst diff_values.simps) (simp add: diff_member_def [abs_def])

lemma diff_values_arrays:
  "c \<noteq> d \<Longrightarrow> diff_values p (JArray c) (JArray d) =
     concat (map (\<lambda>(i, x, y). diff_values (element_path p i) x y) (enumerate 0 (zip c d))) @
     concat (map (\<lambda>(i, x). removed_fields (collect_leaves (element_path p i) x))
       (drop (min (length c) (length d)) (enumerate 0 c))) @
     concat (map (\<lambda>(i, y). added_fields (collect_leaves (element_path p i) y))
       (drop (min (length c) (length d)) (enumerate 0 d)))"
  by (subst diff_values.simps) (simp add: Let_def)

lemma diff_values_other:
  assumes "c \<noteq> d" and "\<nexists>cm dm. c = JObject cm \<and> d = JObject dm" and "\<nexists>xs ys. c = JArray xs \<and> d = JArray ys"
  shows "diff_values p c d = [\<lparr>fc_path = p, fc_from = Some c, fc_to = Some d\<rparr>]"
  using assms by (subst diff_values.simps) (auto split: json.splits)

lemma field_below:
  "f \<in> set (removed_fields (collect_leaves q v)) \<Longrightarrow> below q (fc_path f)"
  "f \<in> set (added_fields (collect_leaves q v)) \<Longrightarrow> below q (fc_path f)"
  using leaves_below(1) [of _ q v] by (auto simp: removed_fields_def added_fields_def)

lemma diff_values_below: "f \<in> set (diff_values p c d) \<Longrightarrow> below p (fc_path f)"
proof (induction c arbitrary: p d rule: measure_induct_rule [of size])
  case (less c)
  have ne: "c \<noteq> d" using less.prems by auto
  consider (objects) cm dm where "c = JObject cm" "d = JObject dm"
    | (arrays) xs ys where "c = JArray xs" "d = JArray ys"
    | (other) "\<nexists>cm dm. c = JObject cm \<and> d = JObject dm" "\<nexists>xs ys. c = JArray xs \<and> d = JArray ys"
    by blast
  then show ?case
  proof cases
    case objects
    then obtain key where "f \<in> set (diff_member p cm dm key)"
      using less.prems ne by (auto simp: diff_values_objects)
    moreover have "below q (fc_path f)" if "bt_get cm key = Some x" "f \<in> set (diff_values q x y)" for q x y
      using less.IH [OF _ that(2)] member_size [OF that(1)] objects(1) by simp
    ultimately have "below (member_path p key) (fc_path f)"
      using field_below by (auto simp: diff_member_def split: option.splits)
    then show ?thesis by (rule below_member)
  next
    case arrays
    have "below (element_path p i) (fc_path f)"
      if "(i, x, y) \<in> set (enumerate 0 (zip xs ys))" "f \<in> set (diff_values (element_path p i) x y)" for i x y
    proof -
      have "x \<in> set xs" using that(1) by (auto simp: in_set_enumerate_eq)
      then show ?thesis using less.IH that(2) element_size arrays(1) by blast
    qed
    then have "\<exists>i. below (element_path p i) (fc_path f)"
      using less.prems ne arrays field_below
      by (auto simp: diff_values_arrays dest!: in_set_dropD) blast+
    then show ?thesis using below_element by blast
  next
    case other
    then show ?thesis using less.prems ne by (simp add: diff_values_other)
  qed
qed

lemma diff_member_not_Nil:
  assumes "bt_get c key \<noteq> bt_get d key"
    and "\<And>x y q. bt_get c key = Some x \<Longrightarrow> bt_get d key = Some y \<Longrightarrow> x \<noteq> y \<Longrightarrow> diff_values q x y \<noteq> []"
  shows "diff_member p c d key \<noteq> []"
  using assms leaves_not_Nil(1) [OF child_path_not_root(1)]
  by (auto simp: diff_member_def split: option.splits)

lemma objects_differ:
  assumes "bt_wf c" and "bt_wf d" and "c \<noteq> d"
  obtains key where "key \<in> set (bt_set (map fst c @ map fst d))" "bt_get c key \<noteq> bt_get d key"
proof -
  obtain key where key: "bt_get c key \<noteq> bt_get d key"
    using assms bt.entries_extensional by blast
  then have "key \<in> set (map fst c @ map fst d)"
    by (metis UnCI bt_get_def list.set_map map_of_eq_None_iff set_append)
  with key that show thesis by simp
qed

lemma diff_values_Nil:
  assumes "json_wf c" and "json_wf d" and "c \<noteq> d"
  shows "diff_values p c d \<noteq> []"
  using assms
proof (induction c arbitrary: p d rule: measure_induct_rule [of size])
  case (less c)
  consider (objects) cm dm where "c = JObject cm" "d = JObject dm"
    | (arrays) xs ys where "c = JArray xs" "d = JArray ys"
    | (other) "\<nexists>cm dm. c = JObject cm \<and> d = JObject dm" "\<nexists>xs ys. c = JArray xs \<and> d = JArray ys"
    by blast
  then show ?case
  proof cases
    case objects
    then have ne: "cm \<noteq> dm" and wf: "bt_wf cm" "bt_wf dm" using less.prems by auto
    obtain key where key: "key \<in> set (bt_set (map fst cm @ map fst dm))" "bt_get cm key \<noteq> bt_get dm key"
      using objects_differ [OF wf ne] .
    have "diff_member p cm dm key \<noteq> []"
    proof (rule diff_member_not_Nil [OF key(2)])
      fix x y q
      assume xy: "bt_get cm key = Some x" "bt_get dm key = Some y" "x \<noteq> y"
      then have "json_wf x" "json_wf y" using json_wf_get less.prems(1,2) objects by blast+
      then show "diff_values q x y \<noteq> []" using less.IH member_size [OF xy(1)] objects(1) xy(3) by blast
    qed
    with key(1) show ?thesis using objects ne by (auto simp: diff_values_objects)
  next
    case arrays
    then have ne: "xs \<noteq> ys" using less.prems by simp
    show ?thesis
    proof (cases "length xs = length ys")
      case True
      then obtain i where i: "i < length xs" "xs ! i \<noteq> ys ! i" using ne nth_equalityI by blast
      then have "(i, xs ! i, ys ! i) \<in> set (enumerate 0 (zip xs ys))"
        using True by (simp add: in_set_enumerate_eq)
      moreover have "diff_values (element_path p i) (xs ! i) (ys ! i) \<noteq> []"
        using less.IH [of "xs ! i" "ys ! i"] element_size [of "xs ! i" xs] i less.prems(1,2) arrays True by simp
      ultimately show ?thesis using arrays ne by (force simp: diff_values_arrays)
    next
      case False
      define n where "n = min (length xs) (length ys)"
      have leaf: "collect_leaves (element_path p i) v \<noteq> []" for i v
        using leaves_not_Nil(1) [OF child_path_not_root(2)] .
      have "drop n (enumerate 0 xs) \<noteq> [] \<or> drop n (enumerate 0 ys) \<noteq> []"
        using False by (auto simp: n_def min_def split: if_splits)
      moreover have "concat (map (\<lambda>(i, x). removed_fields (collect_leaves (element_path p i) x)) zs) \<noteq> []"
        "concat (map (\<lambda>(i, x). added_fields (collect_leaves (element_path p i) x)) zs) \<noteq> []"
        if "zs \<noteq> []" for zs
        using that leaf by (cases zs; auto)+
      ultimately show ?thesis
        unfolding arrays diff_values_arrays [OF ne] n_def [symmetric] by blast
    qed
  next
    case other
    then show ?thesis using less.prems by (simp add: diff_values_other)
  qed
qed

subsection \<open>Properties\<close>

text \<open>A plan is empty exactly when nothing would change: the delta of two manifests
  has no field exactly when their metadata and their specs are the same, and it then counts no
  update; otherwise it counts one.\<close>

theorem plan_is_empty_iff_unchanged:
  assumes "meta_value (metadata cur) = Some cm" and "meta_value (metadata des) = Some dm"
    and "json_wf cm" and "json_wf dm" and "json_wf (env_spec cur)" and "json_wf (env_spec des)"
  shows "(is_empty_diff (diff meta_value (Some cur) (Some des)) \<longleftrightarrow>
      cm = dm \<and> env_spec cur = env_spec des) \<and>
    pd_summary (diff meta_value (Some cur) (Some des)) =
      new_summary 0 (if cm = dm \<and> env_spec cur = env_spec des then 0 else 1) 0"
proof -
  have nil: "diff_values p x y = [] \<longleftrightarrow> x = y" if "json_wf x" "json_wf y" for p x y
    using diff_values_Nil [OF that] by auto
  show ?thesis
    using assms by (simp add: diff_def Let_def is_empty_diff_def unwrap_or_def nil)
qed

definition demo_meta :: "object_meta \<Rightarrow> json option" where
  "demo_meta meta = Some (JObject [(''name'', JString (meta_name meta))])"

definition demo_pipeline :: "bool \<Rightarrow> string \<Rightarrow> envelope" where
  "demo_pipeline enabled source =
     demo_env ''bikes'' ''Pipeline'' ''feed''
       (JObject [(''enabled'', JBool enabled), (''source'', JString source)])"

theorem plan_is_empty_iff_unchanged_witness:
  "\<not> is_empty_diff (diff demo_meta (Some (demo_pipeline True ''a'')) (Some (demo_pipeline False ''a'')))"
proof -
  have "json_wf (the (demo_meta (metadata (demo_pipeline b s))))" "json_wf (env_spec (demo_pipeline b s))"
    "demo_meta (metadata (demo_pipeline b s)) = Some (the (demo_meta (metadata (demo_pipeline b s))))" for b s
    by code_simp+
  moreover have "env_spec (demo_pipeline True ''a'') \<noteq> env_spec (demo_pipeline False ''a'')" by code_simp
  ultimately show ?thesis
    using plan_is_empty_iff_unchanged [of demo_meta "demo_pipeline True ''a''" _ "demo_pipeline False ''a''"]
    by blast
qed

text \<open>A restart is announced when there is one: a plan of a Pipeline warns of a restart
  whenever some member of the spec other than \<open>enabled\<close> changes, and never when the spec is the
  same.\<close>

theorem stream_restart_is_announced:
  assumes "env_spec cur = JObject c" and "env_spec des = JObject d" and "json_wf (JObject c)"
    and "json_wf (JObject d)"
  shows "(if \<exists>k. k \<noteq> ''enabled'' \<and> bt_get c k \<noteq> bt_get d k
      then restarts_stream ''Pipeline'' (diff meta_value (Some cur) (Some des)) else True) \<and>
    (if c = d then \<not> restarts_stream ''Pipeline'' (diff meta_value (Some cur) (Some des)) else True)"
proof -
  let ?fields = "pd_fields (diff meta_value (Some cur) (Some des))"
  have spec: "set (diff_values ''spec'' (JObject c) (JObject d)) \<subseteq> set ?fields"
    using assms by (auto simp: diff_def Let_def)
  have "\<exists>f \<in> set ?fields. starts_with ''spec.'' (fc_path f) \<and> fc_path f \<noteq> ''spec.enabled''"
    if k: "k \<noteq> ''enabled''" "bt_get c k \<noteq> bt_get d k" for k
  proof -
    have "diff_member ''spec'' c d k \<noteq> []"
      using k(2) diff_values_Nil json_wf_get [OF assms(3)] json_wf_get [OF assms(4)]
      by (intro diff_member_not_Nil) blast+
    then obtain f where f: "f \<in> set (diff_member ''spec'' c d k)" by (meson list.set_sel(1))
    have "k \<in> set (bt_set (map fst c @ map fst d))"
      using k(2) by (metis UnCI bt_get_def bt_set_set list.set_map map_of_eq_None_iff set_append)
    moreover have ne: "c \<noteq> d" using k(2) by blast
    ultimately have "f \<in> set (diff_values ''spec'' (JObject c) (JObject d))"
      using f unfolding diff_values_objects [OF ne] by auto
    then have "f \<in> set ?fields" using spec by blast
    moreover have "below (member_path ''spec'' k) (fc_path f)"
      using f diff_values_below field_below by (auto simp: diff_member_def split: option.splits)
    then obtain rest where rest: "fc_path f = ''spec.'' @ k @ rest"
        "rest = [] \<or> hd rest \<in> {CHR ''.'', CHR ''[''}"
      by (auto simp: below_def member_path_def)
    moreover have "k @ rest \<noteq> ''enabled''"
    proof
      assume eq: "k @ rest = ''enabled''"
      then have "set rest \<subseteq> set ''enabled''" by (metis Un_upper2 set_append)
      moreover have "rest \<noteq> []" using eq k(1) by auto
      ultimately show False using rest(2) by (cases rest) auto
    qed
    ultimately show ?thesis by (intro bexI [of _ f]) (auto simp: starts_with_def)
  qed
  moreover have "\<not> restarts_stream ''Pipeline'' (diff meta_value (Some cur) (Some des))" if "c = d"
  proof -
    have "below ''metadata'' (fc_path f)" if "f \<in> set ?fields" for f
      using that \<open>c = d\<close> assms(1,2) diff_values_below by (auto simp: diff_def Let_def)
    then show ?thesis
      by (force simp: restarts_stream_def list_ex_iff below_def starts_with_def)
  qed
  ultimately show ?thesis by (auto simp: restarts_stream_def list_ex_iff)
qed

theorem stream_restart_is_announced_witness:
  "restarts_stream ''Pipeline'' (diff demo_meta (Some (demo_pipeline True ''a'')) (Some (demo_pipeline False ''b'')))"
proof -
  have "\<exists>k. k \<noteq> ''enabled'' \<and>
      bt_get [(''enabled'', JBool True), (''source'', JString ''a'')] k \<noteq>
      bt_get [(''enabled'', JBool False), (''source'', JString ''b'')] k"
    by (intro exI [of _ "''source''"]) simp
  moreover have "json_wf (JObject [(''enabled'', JBool b), (''source'', JString s)])" for b s by code_simp
  moreover have "env_spec (demo_pipeline b s) = JObject [(''enabled'', JBool b), (''source'', JString s)]" for b s
    by (simp add: demo_pipeline_def demo_env_def)
  ultimately show ?thesis
    using stream_restart_is_announced [of "demo_pipeline True ''a''" _ "demo_pipeline False ''b''"] by presburger
qed

text \<open>A merge patch does what RFC 7386 says, member by member, and applying it again
  changes nothing.\<close>

theorem merge_patch_by_member:
  assumes "json_wf (JObject t)" and "json_wf (JObject p)"
  shows "(\<exists>m. merge_patch (JObject t) (JObject p) = JObject m \<and> json_wf (JObject m) \<and>
      (\<forall>k. bt_get m k = (case bt_get p k of
         None \<Rightarrow> bt_get t k
       | Some JNull \<Rightarrow> None
       | Some v \<Rightarrow> Some (merge_patch (unwrap_or JNull (bt_get t k)) v)))) \<and>
    merge_patch (merge_patch (JObject t) (JObject p)) (JObject p) = merge_patch (JObject t) (JObject p)"
proof -
  have dist: "distinct (map fst p)" using assms(2) by (simp add: bt_wf_distinct)
  have "bt_get (merge_members t p) k = (case bt_get p k of
         None \<Rightarrow> bt_get t k
       | Some JNull \<Rightarrow> None
       | Some v \<Rightarrow> Some (merge_patch (unwrap_or JNull (bt_get t k)) v))" for k
    using merge_members_get [OF dist, of t k]
    by (cases "bt_get p k"; cases "the (bt_get p k)") (simp_all add: bt_get_def)
  moreover have "json_wf (JObject (merge_members t p))"
    using merge_wf(1) [OF assms] by (simp del: json_wf.simps)
  ultimately show ?thesis using merge_patch_twice [OF assms] by (simp del: json_wf.simps)
qed

theorem merge_patch_by_member_witness:
  "merge_patch (merge_patch (JObject [(''a'', JNull), (''b'', JBool True)]) (JObject [(''b'', JNull)]))
      (JObject [(''b'', JNull)]) =
   merge_patch (JObject [(''a'', JNull), (''b'', JBool True)]) (JObject [(''b'', JNull)])"
proof -
  have "json_wf (JObject [(''a'', JNull), (''b'', JBool True)])" "json_wf (JObject [(''b'', JNull)])"
    by code_simp+
  from merge_patch_by_member [OF this] show ?thesis by blast
qed

end
