(* ===== verification/Merge.thy ===== *)
theory Merge
  imports Plan
begin

text \<open>
  The three-way merge of two JSON documents with their common base (\<open>merge3\<close> of
  \<open>src/plan.rs\<close>).

  A member that is absent is \<open>None\<close>. The conflicts the code pushes into one vector are returned
  in the order it pushes them. \<open>pick\<close> names the side a person kept, by path.
\<close>

subsection \<open>Definitions\<close>

datatype side = Ours | Theirs

record field_conflict =
  cf_path :: string
  cf_ours :: json
  cf_theirs :: json
  cf_base :: json

definition child_path :: "string \<Rightarrow> string \<Rightarrow> string" where
  "child_path path key = (if path = [] then key else path @ ''.'' @ key)"

definition merged_members :: "(string \<times> json option) list \<Rightarrow> (string \<times> json) list" where
  "merged_members rows =
     fold (\<lambda>(key, merged) out. case merged of None \<Rightarrow> out | Some v \<Rightarrow> bt_insert key v out) rows []"

function merge_at ::
    "(string \<Rightarrow> side option) \<Rightarrow> string \<Rightarrow> json option \<Rightarrow> json option \<Rightarrow> json option \<Rightarrow>
     json option \<times> field_conflict list" where
  "merge_at pick path base ours theirs =
     (if ours = theirs \<or> theirs = base then (ours, [])
      else if ours = base then (theirs, [])
      else
        (case (ours, theirs) of
           (Some (JObject om), Some (JObject tm)) \<Rightarrow>
             let rows =
               map (\<lambda>key. (key, merge_at pick (child_path path key)
                     (Option.bind base (jget key)) (bt_get om key) (bt_get tm key)))
                 (bt_set (map fst om @ map fst tm))
             in (Some (JObject (merged_members (map (\<lambda>(key, r). (key, fst r)) rows))),
                 concat (map (\<lambda>(key, r). snd r) rows))
         | _ \<Rightarrow>
             (case pick path of
                Some Ours \<Rightarrow> (ours, [])
              | Some Theirs \<Rightarrow> (theirs, [])
              | None \<Rightarrow>
                  (ours,
                   [\<lparr>cf_path = path, cf_ours = unwrap_or JNull ours,
                     cf_theirs = unwrap_or JNull theirs, cf_base = unwrap_or JNull base\<rparr>]))))"
  by pat_completeness auto
termination
  by (relation "measure (\<lambda>(_, _, _, ours, _). case ours of None \<Rightarrow> 0 | Some v \<Rightarrow> size v)")
     (auto split: option.splits dest: member_size)

declare merge_at.simps [simp del]

definition merge3 ::
    "json option \<Rightarrow> json \<Rightarrow> json \<Rightarrow> (string \<Rightarrow> side option) \<Rightarrow> field_conflict list + json" where
  "merge3 base ours theirs pick =
     (let (merged, conflicts) = merge_at pick [] base (Some ours) (Some theirs)
      in if conflicts = [] then Inr (unwrap_or JNull merged) else Inl conflicts)"

subsection \<open>Lemmas\<close>

text \<open>The value at a path of member names.\<close>

fun at :: "string list \<Rightarrow> json option \<Rightarrow> json option" where
  "at [] v = v"
| "at (k # ks) v = at ks (Option.bind v (jget k))"

text \<open>The path the merge reports for a list of member names below a path.\<close>

fun reported :: "string \<Rightarrow> string list \<Rightarrow> string" where
  "reported path [] = path"
| "reported path (k # ks) = reported (child_path path k) ks"

lemma at_None [simp]: "at ks None = None"
  by (induction ks) simp_all

lemma merged_members_get:
  assumes "distinct (map fst rows)"
  shows "bt_get (merged_members rows) k = Option.bind (map_of rows k) (\<lambda>v. v)"
proof -
  have "bt_get (fold (\<lambda>(key, merged) out. case merged of None \<Rightarrow> out | Some v \<Rightarrow> bt_insert key v out) rows out) k =
      (case map_of rows k of Some (Some v) \<Rightarrow> Some v | _ \<Rightarrow> bt_get out k)" for out
    using assms
  proof (induction rows arbitrary: out)
    case (Cons e rows)
    obtain key m where e: "e = (key, m)" by (cases e)
    show ?case
    proof (cases "k = key")
      case True
      then have "map_of rows k = None" using Cons.prems e by (simp add: map_of_eq_None_iff)
      then show ?thesis using Cons e True by (cases m) (simp_all add: bt_simps)
    next
      case False
      then show ?thesis using Cons e by (cases m) (simp_all add: bt_simps split: option.splits)
    qed
  qed simp
  then show ?thesis unfolding merged_members_def by (simp split: option.splits)
qed

lemma map_of_keyed: "map_of (map (\<lambda>k. (k, f k)) ks) k = (if k \<in> set ks then Some (f k) else None)"
  by (induction ks) auto

text \<open>The branch where both sides are objects, member by member.\<close>

lemma merge_at_objects:
  fixes pick path base om tm
  assumes "Some (JObject om) \<noteq> Some (JObject tm)" and "Some (JObject tm) \<noteq> base" and "Some (JObject om) \<noteq> base"
  defines "r \<equiv> \<lambda>key. merge_at pick (child_path path key) (Option.bind base (jget key)) (bt_get om key) (bt_get tm key)"
  shows "\<exists>m. merge_at pick path base (Some (JObject om)) (Some (JObject tm)) =
      (Some (JObject m), concat (map (\<lambda>key. snd (r key)) (bt_set (map fst om @ map fst tm)))) \<and>
    (\<forall>key. bt_get m key = fst (r key))"
proof -
  let ?ks = "bt_set (map fst om @ map fst tm)"
  let ?rows = "map (\<lambda>key. (key, fst (r key))) ?ks"
  have dist: "distinct (map fst ?rows)"
    using bt_set_sorted [of "map fst om @ map fst tm"] by (simp add: o_def strict_sorted_iff)
  have "bt_get (merged_members ?rows) key = fst (r key)" for key
  proof (cases "key \<in> set ?ks")
    case True
    then show ?thesis by (simp only: merged_members_get [OF dist] map_of_keyed) simp
  next
    case False
    then have "bt_get om key = None" "bt_get tm key = None"
      by (auto simp: bt_get_def map_of_eq_None_iff)
    then have "fst (r key) = None" by (simp add: r_def merge_at.simps)
    with False show ?thesis by (simp only: merged_members_get [OF dist] map_of_keyed) simp
  qed
  moreover have "merge_at pick path base (Some (JObject om)) (Some (JObject tm)) =
      (Some (JObject (merged_members ?rows)), concat (map (\<lambda>key. snd (r key)) ?ks))"
    using assms(1-3) by (subst merge_at.simps) (simp add: r_def o_def Let_def)
  ultimately show ?thesis by blast
qed

lemma object_keys:
  "key \<in> set (bt_set (map fst om @ map fst tm)) \<longleftrightarrow> bt_get om key \<noteq> None \<or> bt_get tm key \<noteq> None"
  by (auto simp: bt_get_def map_of_eq_None_iff)

text \<open>The three ways a merge ends, as one induction principle over the documents.\<close>

lemma merge_at_cases:
  fixes pick base
  obtains (ours) "ours = theirs \<or> theirs = base" "merge_at pick path base ours theirs = (ours, [])"
  | (theirs) "ours = base" "merge_at pick path base ours theirs = (theirs, [])"
  | (objects) om tm where "ours = Some (JObject om)" "theirs = Some (JObject tm)" "ours \<noteq> theirs" "theirs \<noteq> base" "ours \<noteq> base"
  | (conflict) "ours \<noteq> theirs" "theirs \<noteq> base" "ours \<noteq> base"
      "\<nexists>om tm. ours = Some (JObject om) \<and> theirs = Some (JObject tm)"
      "merge_at pick path base ours theirs =
        (case pick path of
           Some Ours \<Rightarrow> (ours, [])
         | Some Theirs \<Rightarrow> (theirs, [])
         | None \<Rightarrow> (ours, [\<lparr>cf_path = path, cf_ours = unwrap_or JNull ours,
                     cf_theirs = unwrap_or JNull theirs, cf_base = unwrap_or JNull base\<rparr>]))"
proof (cases "ours = theirs \<or> theirs = base \<or> ours = base")
  case True
  then show ?thesis
  proof (cases "ours = theirs \<or> theirs = base")
    case True
    then show ?thesis by (intro ours) (simp_all add: merge_at.simps)
  next
    case False
    with \<open>ours = theirs \<or> theirs = base \<or> ours = base\<close> show ?thesis
      by (intro theirs) (auto simp: merge_at.simps)
  qed
next
  case False
  show ?thesis
  proof (cases "\<exists>om tm. ours = Some (JObject om) \<and> theirs = Some (JObject tm)")
    case True
    then show ?thesis using False objects by blast
  next
    case nobj: False
    show ?thesis
    proof (rule conflict)
      show "merge_at pick path base ours theirs =
        (case pick path of
           Some Ours \<Rightarrow> (ours, [])
         | Some Theirs \<Rightarrow> (theirs, [])
         | None \<Rightarrow> (ours, [\<lparr>cf_path = path, cf_ours = unwrap_or JNull ours,
                     cf_theirs = unwrap_or JNull theirs, cf_base = unwrap_or JNull base\<rparr>]))"
        using False nobj
        by (subst merge_at.simps, cases ours; cases theirs; cases "the ours"; cases "the theirs") simp_all
    qed (use False nobj in simp_all)
  qed
qed

lemma merge_induct [case_names merge]:
  assumes "\<And>path base ours theirs.
      (\<And>om tm key. ours = Some (JObject om) \<Longrightarrow> theirs = Some (JObject tm) \<Longrightarrow>
        P (child_path path key) (Option.bind base (jget key)) (bt_get om key) (bt_get tm key)) \<Longrightarrow>
      P path base ours theirs"
  shows "P path base ours theirs"
proof (induction "case ours of None \<Rightarrow> 0 | Some v \<Rightarrow> size v" arbitrary: path base ours theirs
    rule: less_induct)
  case less
  show ?case
  proof (rule assms)
    fix om tm key
    assume o: "ours = Some (JObject om)"
    show "P (child_path path key) (Option.bind base (jget key)) (bt_get om key) (bt_get tm key)"
      by (rule less) (use o member_size [of om key] in \<open>auto split: option.splits\<close>)
  qed
qed

text \<open>A merge nobody had to answer takes at every path the side that changed it.\<close>

lemma merge_at_path:
  assumes "snd (merge_at (\<lambda>_. None) path base ours theirs) = []"
  defines "m \<equiv> fst (merge_at (\<lambda>_. None) path base ours theirs)"
  shows "(at ks theirs = at ks base \<longrightarrow> at ks m = at ks ours) \<and>
    (at ks ours = at ks base \<longrightarrow> at ks m = at ks theirs) \<and>
    (at ks ours = at ks theirs \<longrightarrow> at ks m = at ks ours)"
  using assms(1) unfolding m_def
proof (induction path base ours theirs arbitrary: ks rule: merge_induct)
  case (merge path base ours theirs)
  show ?case
  proof (cases rule: merge_at_cases [of ours theirs base "\<lambda>_. None" path])
    case (objects om tm)
    let ?r = "\<lambda>key. merge_at (\<lambda>_. None) (child_path path key) (Option.bind base (jget key)) (bt_get om key) (bt_get tm key)"
    obtain mm where mm: "merge_at (\<lambda>_. None) path base ours theirs =
        (Some (JObject mm), concat (map (\<lambda>key. snd (?r key)) (bt_set (map fst om @ map fst tm))))"
        "\<And>key. bt_get mm key = fst (?r key)"
      using merge_at_objects [of om tm base] objects by blast
    show ?thesis
    proof (cases ks)
      case (Cons k ks')
      have "snd (?r k) = []"
      proof (cases "k \<in> set (bt_set (map fst om @ map fst tm))")
        case True
        then show ?thesis using merge.prems mm(1) by auto
      next
        case False
        then show ?thesis using object_keys [of k om tm] by (auto simp: merge_at.simps)
      qed
      from merge.IH [OF objects(1,2) this, of ks'] show ?thesis
        using mm objects Cons by simp
    qed (use objects in simp)
  qed (use merge.prems in auto)
qed

text \<open>What a listed conflict says.\<close>

definition conflict_at ::
    "string \<Rightarrow> json option \<Rightarrow> json option \<Rightarrow> json option \<Rightarrow> string list \<Rightarrow> field_conflict \<Rightarrow> bool" where
  "conflict_at path base ours theirs ks c \<longleftrightarrow>
     at ks ours \<noteq> at ks theirs \<and> at ks ours \<noteq> at ks base \<and> at ks theirs \<noteq> at ks base \<and>
     c = \<lparr>cf_path = reported path ks, cf_ours = unwrap_or JNull (at ks ours),
          cf_theirs = unwrap_or JNull (at ks theirs), cf_base = unwrap_or JNull (at ks base)\<rparr>"

lemma merge_at_conflicts:
  assumes "c \<in> set (snd (merge_at pick path base ours theirs))"
  shows "pick (cf_path c) = None \<and> (\<exists>ks. conflict_at path base ours theirs ks c)"
  using assms
proof (induction path base ours theirs rule: merge_induct)
  case (merge path base ours theirs)
  show ?case
  proof (cases rule: merge_at_cases [of ours theirs base pick path])
    case (objects om tm)
    then obtain key where key: "c \<in> set (snd (merge_at pick (child_path path key)
        (Option.bind base (jget key)) (bt_get om key) (bt_get tm key)))"
      using merge_at_objects [of om tm base pick path] merge.prems by auto
    from merge.IH [OF objects(1,2) this] obtain ks where "pick (cf_path c) = None"
        "conflict_at (child_path path key) (Option.bind base (jget key)) (bt_get om key) (bt_get tm key) ks c"
      by blast
    then have "conflict_at path base ours theirs (key # ks) c"
      using objects by (simp add: conflict_at_def)
    then show ?thesis using \<open>pick (cf_path c) = None\<close> by blast
  next
    case conflict
    then have "conflict_at path base ours theirs [] c" "pick (cf_path c) = None"
      using merge.prems by (auto simp: conflict_at_def split: option.splits side.splits)
    then show ?thesis by blast
  qed (use merge.prems in auto)
qed

text \<open>More answers leave fewer conflicts, and none where every listed one is answered.\<close>

lemma merge_at_more_answers:
  assumes "\<And>p s. pick p = Some s \<Longrightarrow> pick' p = Some s"
  shows "set (snd (merge_at pick' path base ours theirs)) \<subseteq> set (snd (merge_at pick path base ours theirs))"
proof (induction path base ours theirs rule: merge_induct)
  case (merge path base ours theirs)
  show ?case
  proof (cases rule: merge_at_cases [of ours theirs base pick path])
    case (objects om tm)
    let ?cs = "\<lambda>p. concat (map (\<lambda>key. snd (merge_at p (child_path path key) (Option.bind base (jget key))
        (bt_get om key) (bt_get tm key))) (bt_set (map fst om @ map fst tm)))"
    have "snd (merge_at p path base ours theirs) = ?cs p" for p
      using merge_at_objects [of om tm base p path] objects by auto
    moreover have "set (?cs pick') \<subseteq> set (?cs pick)"
      using merge.IH [OF objects(1,2)] by (auto simp only: set_concat set_map)
    ultimately show ?thesis by (simp only:)
  next
    case conflict
    note c = this
    show ?thesis
    proof (cases rule: merge_at_cases [of ours theirs base pick' path])
      case (objects om tm)
      then show ?thesis using c(4) by blast
    qed (use c assms in \<open>auto split: option.splits side.splits\<close>)
  qed (simp_all add: merge_at.simps)
qed

subsection \<open>Properties\<close>

text \<open>Property C32. A merge that succeeds without anybody's answer loses no edit: at every path, where
  theirs is as in the base the merge has ours, where ours is as in the base it has theirs, and
  where both sides agree it has what they agree on.\<close>

theorem merge3_keeps_both_edits:
  assumes "merge3 base ours theirs (\<lambda>_. None) = Inr m"
  shows "(if at ks (Some theirs) = at ks base then at ks (Some m) = at ks (Some ours) else True) \<and>
    (if at ks (Some ours) = at ks base then at ks (Some m) = at ks (Some theirs) else True) \<and>
    (if at ks (Some ours) = at ks (Some theirs) then at ks (Some m) = at ks (Some ours) else True)"
proof -
  let ?r = "merge_at (\<lambda>_. None) [] base (Some ours) (Some theirs)"
  have none: "snd ?r = []" and m: "m = unwrap_or JNull (fst ?r)"
    using assms by (auto simp: merge3_def split: prod.splits if_splits)
  have "fst ?r \<noteq> None"
  proof (cases rule: merge_at_cases [of "Some ours" "Some theirs" base "\<lambda>_. None" "[]"])
    case (objects om tm)
    then show ?thesis using merge_at_objects [of om tm base "\<lambda>_. None" "[]"] by auto
  qed auto
  then have "fst ?r = Some m" using m by (auto simp: unwrap_or_def)
  with merge_at_path [OF none, of ks] show ?thesis by simp
qed

definition demo_doc :: "string \<Rightarrow> string \<Rightarrow> json" where
  "demo_doc a b = JObject [(''spec'', JObject [(''a'', JString a), (''b'', JString b)])]"

lemma demo_merge:
  "merge3 (Some (demo_doc ''1'' ''1'')) (demo_doc ''2'' ''1'') (demo_doc ''1'' ''3'') (\<lambda>_. None) =
     Inr (demo_doc ''2'' ''3'')"
  by (simp add: merge3_def demo_doc_def merge_at.simps bt_set_def merged_members_def unwrap_or_def)

theorem merge3_keeps_both_edits_witness:
  "at [''spec'', ''a''] (Some (demo_doc ''2'' ''3'')) = Some (JString ''2'') \<and>
   at [''spec'', ''b''] (Some (demo_doc ''2'' ''3'')) = Some (JString ''3'')"
  using merge3_keeps_both_edits [OF demo_merge, of "[''spec'', ''a'']"]
    merge3_keeps_both_edits [OF demo_merge, of "[''spec'', ''b'']"]
  by (simp add: demo_doc_def)

text \<open>Property C33. No side wins by default and every refusal can be answered: each conflict a merge
  lists is a field nobody answered that both sides changed to different values, reported with its
  path and its three values, and answering the listed paths makes the merge succeed.\<close>

theorem merge3_conflicts_are_answerable:
  assumes "merge3 base ours theirs pick = Inl cs"
    and "\<And>p s. pick p = Some s \<Longrightarrow> pick' p = Some s"
    and "\<And>c. c \<in> set cs \<Longrightarrow> pick' (cf_path c) \<noteq> None"
  shows "cs \<noteq> [] \<and>
    list_all (\<lambda>c. pick (cf_path c) = None \<and>
      (\<exists>ks. conflict_at [] base (Some ours) (Some theirs) ks c)) cs \<and>
    (\<exists>m. merge3 base ours theirs pick' = Inr m)"
proof -
  let ?r = "\<lambda>p. merge_at p [] base (Some ours) (Some theirs)"
  have cs: "snd (?r pick) = cs" "cs \<noteq> []"
    using assms(1) by (auto simp: merge3_def split: prod.splits if_splits)
  have "snd (?r pick') = []"
  proof (rule ccontr)
    assume "snd (?r pick') \<noteq> []"
    then obtain c where c: "c \<in> set (snd (?r pick'))" by (cases "snd (?r pick')") auto
    then have "c \<in> set cs"
      using merge_at_more_answers [of pick pick' "[]" base "Some ours" "Some theirs"] assms(2) cs(1) by auto
    then show False using assms(3) [of c] merge_at_conflicts [OF c] by simp
  qed
  then have "\<exists>m. merge3 base ours theirs pick' = Inr m"
    by (cases "?r pick'") (simp add: merge3_def)
  moreover have "list_all (\<lambda>c. pick (cf_path c) = None \<and>
      (\<exists>ks. conflict_at [] base (Some ours) (Some theirs) ks c)) cs"
    using merge_at_conflicts [of _ pick "[]" base "Some ours" "Some theirs"] cs(1)
    by (auto simp: list_all_iff)
  ultimately show ?thesis using cs(2) by blast
qed

theorem merge3_conflicts_are_answerable_witness:
  "\<exists>cs. merge3 (Some (demo_doc ''1'' ''1'')) (demo_doc ''2'' ''1'') (demo_doc ''3'' ''1'') (\<lambda>_. None) = Inl cs \<and>
     (\<exists>m. merge3 (Some (demo_doc ''1'' ''1'')) (demo_doc ''2'' ''1'') (demo_doc ''3'' ''1'')
        (\<lambda>p. if p = ''spec.a'' then Some Theirs else None) = Inr m)"
proof -
  have "merge3 (Some (demo_doc ''1'' ''1'')) (demo_doc ''2'' ''1'') (demo_doc ''3'' ''1'') (\<lambda>_. None) =
      Inl [\<lparr>cf_path = ''spec.a'', cf_ours = JString ''2'', cf_theirs = JString ''3'', cf_base = JString ''1''\<rparr>]"
    by (simp add: merge3_def demo_doc_def merge_at.simps bt_set_def merged_members_def unwrap_or_def
        child_path_def)
  moreover from merge3_conflicts_are_answerable [OF this,
      of "\<lambda>p. if p = ''spec.a'' then Some Theirs else None"]
  have "\<exists>m. merge3 (Some (demo_doc ''1'' ''1'')) (demo_doc ''2'' ''1'') (demo_doc ''3'' ''1'')
        (\<lambda>p. if p = ''spec.a'' then Some Theirs else None) = Inr m" by simp
  ultimately show ?thesis by blast
qed

end
