(* ===== verification/Cache.thy ===== *)
theory Cache
  imports Prelude
begin

text \<open>
  The cache bounded by bytes (\<open>src/cache.rs\<close>): a least-recently-used map whose entries weigh what
  the caller says.

  The \<open>HashMap\<close> of entries is an association list with one entry per key, the \<open>BTreeMap\<close> of
  use order an ordered map from ticks. \<open>usize\<close> and \<open>u64\<close> arithmetic is checked: an operation
  that would wrap around or go below zero is \<open>None\<close>, and the properties show it never is.
  \<open>Instant::now()\<close> is the argument \<open>now\<close>, a \<open>Duration\<close> an integer of the same unit.
\<close>

subsection \<open>Definitions\<close>

record 'v entry =
  e_value :: 'v
  e_bytes :: nat
  e_tick :: nat
  e_at :: int

record ('k, 'v) byte_lru =
  max_bytes :: nat
  ttl :: "int option"
  lru_bytes :: nat
  tick :: nat
  entries :: "('k \<times> 'v entry) list"
  order :: "(nat, 'k) btree"

definition hm_remove :: "'k \<Rightarrow> ('k \<times> 'a) list \<Rightarrow> ('k \<times> 'a) list" where
  "hm_remove k m = filter (\<lambda>e. fst e \<noteq> k) m"

definition hm_insert :: "'k \<Rightarrow> 'a \<Rightarrow> ('k \<times> 'a) list \<Rightarrow> ('k \<times> 'a) list" where
  "hm_insert k v m = (k, v) # hm_remove k m"

definition new_lru :: "nat \<Rightarrow> int option \<Rightarrow> ('k, 'v) byte_lru" where
  "new_lru cap life =
     \<lparr>max_bytes = cap, ttl = life, lru_bytes = 0, tick = 0, entries = [], order = []\<rparr>"

definition lru_remove :: "'k \<Rightarrow> ('k, 'v) byte_lru \<Rightarrow> ('k, 'v) byte_lru option" where
  "lru_remove key s =
     (case map_of (entries s) key of
        None \<Rightarrow> Some s
      | Some gone \<Rightarrow>
          map_option (\<lambda>b. s\<lparr>entries := hm_remove key (entries s),
              order := bt_remove (e_tick gone) (order s), lru_bytes := b\<rparr>)
            (checked_sub (lru_bytes s) (e_bytes gone)))"

definition lru_get ::
    "int \<Rightarrow> 'k \<Rightarrow> ('k, 'v) byte_lru \<Rightarrow> ('v option \<times> ('k, 'v) byte_lru) option" where
  "lru_get now key s =
     (case map_of (entries s) key of
        None \<Rightarrow> Some (None, s)
      | Some entry \<Rightarrow>
          if is_some_and (\<lambda>life. life \<le> now - e_at entry) (ttl s)
          then map_option (\<lambda>s'. (None, s')) (lru_remove key s)
          else
            map_option (\<lambda>t. (Some (e_value entry),
                s\<lparr>tick := t,
                  order := bt_insert t key (bt_remove (e_tick entry) (order s)),
                  entries := hm_insert key (entry\<lparr>e_tick := t\<rparr>) (entries s)\<rparr>))
              (checked_add (tick s) 1))"

text \<open>The loop that evicts: the oldest tick first, until what is held fits.\<close>

fun evict ::
    "nat \<Rightarrow> nat \<Rightarrow> ('k \<times> 'v entry) list \<Rightarrow> (nat, 'k) btree \<Rightarrow>
     (nat \<times> ('k \<times> 'v entry) list \<times> (nat, 'k) btree) option" where
  "evict cap held es [] = Some (held, es, [])"
| "evict cap held es ((t, oldest) # ord) =
     (if held \<le> cap then Some (held, es, (t, oldest) # ord)
      else
        (case map_of es oldest of
           None \<Rightarrow> evict cap held es ord
         | Some gone \<Rightarrow>
             Option.bind (checked_sub held (e_bytes gone))
               (\<lambda>held'. evict cap held' (hm_remove oldest es) ord)))"

definition lru_insert ::
    "int \<Rightarrow> 'k \<Rightarrow> 'v \<Rightarrow> nat \<Rightarrow> ('k, 'v) byte_lru \<Rightarrow> ('k, 'v) byte_lru option" where
  "lru_insert now key v b s =
     Option.bind (lru_remove key s) (\<lambda>s.
       if b > max_bytes s then Some s
       else
         Option.bind (checked_add (tick s) 1) (\<lambda>t.
         Option.bind (checked_add (lru_bytes s) b) (\<lambda>held.
           map_option (\<lambda>(held', es, ord).
               s\<lparr>tick := t, lru_bytes := held', entries := es, order := ord\<rparr>)
             (evict (max_bytes s) held
               (hm_insert key \<lparr>e_value = v, e_bytes = b, e_tick = t, e_at = now\<rparr> (entries s))
               (bt_insert t key (order s))))))"

definition lru_len :: "('k, 'v) byte_lru \<Rightarrow> nat" where
  "lru_len s = length (entries s)"

subsection \<open>The abstract cache\<close>

text \<open>Rows of a key, its value, its weight and the time it was put in, the least recently used
  first. Inserting replaces the key's row and drops rows from the front until the rest fits.\<close>

type_synonym ('k, 'v) row = "'k \<times> 'v \<times> nat \<times> int"

definition weight :: "('k, 'v) row list \<Rightarrow> nat" where
  "weight rs = sum_list (map (\<lambda>(_, _, b, _). b) rs)"

fun drop_until_fits :: "nat \<Rightarrow> ('k, 'v) row list \<Rightarrow> ('k, 'v) row list" where
  "drop_until_fits cap [] = []"
| "drop_until_fits cap (r # rs) =
     (if weight (r # rs) \<le> cap then r # rs else drop_until_fits cap rs)"

definition spec_insert ::
    "nat \<Rightarrow> int \<Rightarrow> 'k \<Rightarrow> 'v \<Rightarrow> nat \<Rightarrow> ('k, 'v) row list \<Rightarrow> ('k, 'v) row list" where
  "spec_insert cap now key v b rs =
     (let others = filter (\<lambda>r. fst r \<noteq> key) rs
      in if b > cap then others else drop_until_fits cap (others @ [(key, v, b, now)]))"

definition spec_get ::
    "int option \<Rightarrow> int \<Rightarrow> 'k \<Rightarrow> ('k, 'v) row list \<Rightarrow> 'v option \<times> ('k, 'v) row list" where
  "spec_get life now key rs =
     (let others = filter (\<lambda>r. fst r \<noteq> key) rs
      in (case List.find (\<lambda>r. fst r = key) rs of
            None \<Rightarrow> (None, rs)
          | Some (k, v, b, at) \<Rightarrow>
              if is_some_and (\<lambda>l. l \<le> now - at) life then (None, others)
              else (Some v, others @ [(k, v, b, at)])))"

text \<open>What a cache holds, by its use order, and the invariant that makes the two maps one.\<close>

definition row_of :: "('k \<times> 'v entry) list \<Rightarrow> nat \<times> 'k \<Rightarrow> ('k, 'v) row" where
  "row_of es p =
     (let e = the (map_of es (snd p)) in (snd p, e_value e, e_bytes e, e_at e))"

definition rows_of :: "('k, 'v) byte_lru \<Rightarrow> ('k, 'v) row list" where
  "rows_of s = map (row_of (entries s)) (order s)"

text \<open>Each tick of the order is the tick of its key's entry, and every key is in the order.\<close>

definition linked :: "('k \<times> 'v entry) list \<Rightarrow> (nat, 'k) btree \<Rightarrow> bool" where
  "linked es ord \<longleftrightarrow>
     distinct (map fst es) \<and> bt_wf ord \<and> distinct (map snd ord) \<and>
     fst ` set es = snd ` set ord \<and>
     (\<forall>(t, k) \<in> set ord. \<exists>e. map_of es k = Some e \<and> e_tick e = t)"

definition lru_wf :: "('k, 'v) byte_lru \<Rightarrow> bool" where
  "lru_wf s \<longleftrightarrow>
     linked (entries s) (order s) \<and> (\<forall>t \<in> fst ` set (order s). t \<le> tick s) \<and>
     lru_bytes s = weight (rows_of s) \<and> lru_bytes s \<le> max_bytes s"

subsection \<open>Lemmas\<close>

lemma map_of_hm_remove: "map_of (hm_remove k m) j = (if j = k then None else map_of m j)"
  by (induction m) (auto simp: hm_remove_def)

lemma map_of_hm_insert: "map_of (hm_insert k v m) j = (if j = k then Some v else map_of m j)"
  by (simp add: hm_insert_def map_of_hm_remove)

lemma hm_remove_keys: "fst ` set (hm_remove k m) = fst ` set m - {k}"
  by (auto simp: hm_remove_def)

lemma hm_remove_distinct: "distinct (map fst m) \<Longrightarrow> distinct (map fst (hm_remove k m))"
  by (induction m) (auto simp: hm_remove_def)

lemma bt_insert_greatest: "(\<forall>e \<in> set m. fst e < k) \<Longrightarrow> bt_insert k v m = m @ [(k, v)]"
  by (induction m) auto

lemma fst_row_of [simp]: "fst (row_of es p) = snd p"
  by (simp add: row_of_def Let_def)

lemma row_of_remove: "snd p \<noteq> k \<Longrightarrow> row_of (hm_remove k es) p = row_of es p"
  by (simp add: row_of_def map_of_hm_remove)

lemma row_of_insert: "snd p \<noteq> k \<Longrightarrow> row_of (hm_insert k e es) p = row_of es p"
  by (simp add: row_of_def map_of_hm_insert)

lemma weight_simps [simp]:
  "weight [] = 0" "weight ((k, v, b, a) # rs) = b + weight rs" "weight (rs @ ss) = weight rs + weight ss"
  by (simp_all add: weight_def)

lemma weight_filter:
  "distinct (map fst rs) \<Longrightarrow> (key, v, b, a) \<in> set rs \<Longrightarrow>
   weight rs = b + weight (filter (\<lambda>r. fst r \<noteq> key) rs)"
proof (induction rs)
  case (Cons r rs)
  obtain k' v' b' a' where r: "r = (k', v', b', a')" by (cases r)
  show ?case
  proof (cases "k' = key")
    case True
    then have "filter (\<lambda>r. fst r \<noteq> key) rs = rs"
      using Cons.prems(1) r by (intro filter_True) (auto simp: image_iff)
    moreover have "(key, v, b, a) = r"
      using Cons.prems r True by (auto simp: image_iff)
    ultimately show ?thesis using r True by auto
  next
    case False
    then show ?thesis using Cons r by auto
  qed
qed simp

lemma find_unique:
  "distinct (map fst rs) \<Longrightarrow> r \<in> set rs \<Longrightarrow> List.find (\<lambda>x. fst x = fst r) rs = Some r"
  by (induction rs) (auto simp: image_iff)

lemma find_fst_None: "key \<notin> fst ` set rs \<Longrightarrow> List.find (\<lambda>x. fst x = key) rs = None"
  by (force simp: find_None_iff)

lemma linked_entry:
  assumes "linked es ord" and "map_of es key = Some e"
  shows "(e_tick e, key) \<in> set ord"
proof -
  have "key \<in> fst ` set es" using assms(2) by (metis domI dom_map_of_conv_image_fst)
  then obtain t where t: "(t, key) \<in> set ord" using assms(1) unfolding linked_def by auto
  then obtain e' where "map_of es key = Some e'" "e_tick e' = t" using assms(1) unfolding linked_def by blast
  with assms(2) t show ?thesis by simp
qed

lemma linked_order_remove:
  assumes "linked es ord" and "map_of es key = Some e"
  shows "bt_remove (e_tick e) ord = filter (\<lambda>p. snd p \<noteq> key) ord"
  unfolding bt_remove_def
proof (rule filter_cong [OF refl])
  fix p
  assume p: "p \<in> set ord"
  have d: "distinct (map fst ord)" using assms(1) by (simp add: linked_def bt_wf_distinct)
  have "snd p = key \<Longrightarrow> fst p = e_tick e" using assms p by (force simp: linked_def)
  moreover have "fst p = e_tick e \<Longrightarrow> snd p = key"
    using p linked_entry [OF assms] d by (metis eq_key_imp_eq_value prod.collapse)
  ultimately show "(fst p \<noteq> e_tick e) = (snd p \<noteq> key)" by blast
qed

lemma linked_remove:
  assumes "linked es ord"
  shows "linked (hm_remove key es) (filter (\<lambda>p. snd p \<noteq> key) ord)"
proof -
  have "distinct (map snd (filter (\<lambda>p. snd p \<noteq> key) ord))"
    using assms by (simp add: linked_def distinct_map_filter)
  moreover have "fst ` set (hm_remove key es) = snd ` set (filter (\<lambda>p. snd p \<noteq> key) ord)"
    using assms by (auto simp: linked_def hm_remove_keys)
  moreover have "\<forall>(t, k) \<in> set (filter (\<lambda>p. snd p \<noteq> key) ord). \<exists>e. map_of (hm_remove key es) k = Some e \<and> e_tick e = t"
    using assms by (auto simp: linked_def map_of_hm_remove)
  ultimately show ?thesis
    using assms by (simp add: linked_def hm_remove_distinct bt_wf_filter)
qed

lemma linked_insert:
  assumes "linked es ord" and "key \<notin> fst ` set es" and "\<forall>u \<in> fst ` set ord. u < e_tick e"
  shows "linked (hm_insert key e es) (ord @ [(e_tick e, key)])"
proof -
  have keep: "hm_remove key es = es"
    unfolding hm_remove_def using assms(2) by (intro filter_True) (auto simp: image_iff)
  have "bt_wf (ord @ [(e_tick e, key)])"
    using assms(1,3) by (auto simp: linked_def bt_wf_def sorted_wrt_append)
  moreover have "distinct (map snd (ord @ [(e_tick e, key)]))"
    using assms(1,2) by (auto simp: linked_def)
  moreover have "\<forall>(t, k) \<in> set (ord @ [(e_tick e, key)]). \<exists>e'. map_of (hm_insert key e es) k = Some e' \<and> e_tick e' = t"
    using assms(1,2) unfolding map_of_hm_insert linked_def by (auto simp: image_iff split: prod.splits)
  ultimately show ?thesis
    using assms(1,2) by (auto simp: linked_def hm_insert_def keep)
qed

lemma rows_distinct: "linked es ord \<Longrightarrow> distinct (map fst (map (row_of es) ord))"
  by (simp add: linked_def o_def)

lemma rows_remove:
  "map (row_of (hm_remove key es)) (filter (\<lambda>p. snd p \<noteq> key) ord) =
     filter (\<lambda>r. fst r \<noteq> key) (map (row_of es) ord)"
  by (simp add: filter_map o_def row_of_remove)

lemma rows_append:
  "key \<notin> snd ` set ord \<Longrightarrow>
   map (row_of (hm_insert key e es)) (ord @ [(t, key)]) =
     map (row_of es) ord @ [(key, e_value e, e_bytes e, e_at e)]"
  by (auto simp: row_of_insert image_iff) (simp add: row_of_def map_of_hm_insert)

text \<open>Removing takes the key's row out and its weight off.\<close>

lemma weight_remove:
  assumes "linked es ord" and "map_of es key = Some e"
  shows "weight (map (row_of es) ord) =
    e_bytes e + weight (filter (\<lambda>r. fst r \<noteq> key) (map (row_of es) ord))"
proof (rule weight_filter [OF rows_distinct [OF assms(1)]])
  have "row_of es (e_tick e, key) = (key, e_value e, e_bytes e, e_at e)"
    using assms(2) by (simp add: row_of_def)
  then show "(key, e_value e, e_bytes e, e_at e) \<in> set (map (row_of es) ord)"
    using linked_entry [OF assms] by force
qed

lemma lru_remove_refines:
  assumes "lru_wf s"
  shows "\<exists>s'. lru_remove key s = Some s' \<and> lru_wf s' \<and>
    rows_of s' = filter (\<lambda>r. fst r \<noteq> key) (rows_of s) \<and> key \<notin> fst ` set (entries s') \<and>
    max_bytes s' = max_bytes s \<and> ttl s' = ttl s \<and> tick s' = tick s"
proof (cases "map_of (entries s) key")
  case None
  then have gone: "key \<notin> fst ` set (entries s)" by (simp add: map_of_eq_None_iff)
  have "key \<notin> fst ` set (rows_of s)"
    using assms gone by (auto simp: lru_wf_def linked_def rows_of_def image_iff)
  then have "filter (\<lambda>r. fst r \<noteq> key) (rows_of s) = rows_of s"
    by (intro filter_True) (auto simp: image_iff)
  with None gone assms show ?thesis by (simp add: lru_remove_def)
next
  case (Some e)
  have linked: "linked (entries s) (order s)" using assms by (simp add: lru_wf_def)
  let ?s = "s\<lparr>entries := hm_remove key (entries s), order := filter (\<lambda>p. snd p \<noteq> key) (order s),
      lru_bytes := lru_bytes s - e_bytes e\<rparr>"
  have rows: "rows_of ?s = filter (\<lambda>r. fst r \<noteq> key) (rows_of s)"
    by (simp add: rows_of_def rows_remove)
  have w: "lru_bytes s = e_bytes e + weight (filter (\<lambda>r. fst r \<noteq> key) (rows_of s))"
    using assms weight_remove [OF linked Some] by (simp add: lru_wf_def rows_of_def)
  have "lru_remove key s = Some ?s"
    using Some w by (simp add: lru_remove_def checked_sub_def linked_order_remove [OF linked])
  moreover have "lru_wf ?s"
    using assms w rows linked_remove [OF linked] by (auto simp: lru_wf_def)
  ultimately show ?thesis using rows by (intro exI [of _ ?s]) (simp add: hm_remove_keys)
qed

lemma evict_refines:
  assumes "linked es ord" and "held = weight (map (row_of es) ord)"
  shows "\<exists>es' ord'. evict cap held es ord = Some (weight (map (row_of es') ord'), es', ord') \<and>
    linked es' ord' \<and> set ord' \<subseteq> set ord \<and> weight (map (row_of es') ord') \<le> cap \<and>
    map (row_of es') ord' = drop_until_fits cap (map (row_of es) ord)"
  using assms
proof (induction ord arbitrary: es held)
  case (Cons p ord)
  obtain t k where p: "p = (t, k)" by (cases p)
  show ?case
  proof (cases "held \<le> cap")
    case True
    then show ?thesis using Cons.prems p by (intro exI [of _ es] exI [of _ "(t, k) # ord"]) simp
  next
    case False
    obtain e where e: "map_of es k = Some e" using Cons.prems(1) p by (auto simp: linked_def)
    have others: "filter (\<lambda>q. snd q \<noteq> k) (p # ord) = ord"
      using Cons.prems(1) p by (auto simp: linked_def image_iff intro!: filter_True)
    have linked: "linked (hm_remove k es) ord" using linked_remove [OF Cons.prems(1), of k] others by simp
    have rows: "map (row_of (hm_remove k es)) ord = map (row_of es) ord"
      using Cons.prems(1) p by (auto simp: linked_def image_iff intro!: row_of_remove)
    have "row_of es p = (k, e_value e, e_bytes e, e_at e)" using p e by (simp add: row_of_def)
    then have held: "held = e_bytes e + weight (map (row_of es) ord)" using Cons.prems(2) by simp
    have "evict cap held es (p # ord) = evict cap (weight (map (row_of (hm_remove k es)) ord)) (hm_remove k es) ord"
      using False p e held unfolding rows by (simp add: checked_sub_def)
    moreover have "drop_until_fits cap (map (row_of es) (p # ord)) = drop_until_fits cap (map (row_of es) ord)"
      using False Cons.prems(2) by simp
    ultimately show ?thesis using Cons.IH [OF linked refl] rows by auto
  qed
qed (auto simp: linked_def)

lemma lru_append:
  assumes "lru_wf s" and "key \<notin> fst ` set (entries s)" and "e_tick e = Suc (tick s)"
  shows "linked (hm_insert key e (entries s)) (bt_insert (e_tick e) key (order s))"
    and "map (row_of (hm_insert key e (entries s))) (bt_insert (e_tick e) key (order s)) =
      rows_of s @ [(key, e_value e, e_bytes e, e_at e)]"
    and "\<forall>t \<in> fst ` set (bt_insert (e_tick e) key (order s)). t \<le> Suc (tick s)"
proof -
  have linked: "linked (entries s) (order s)" and old: "\<forall>t \<in> fst ` set (order s). t \<le> tick s"
    using assms(1) by (simp_all add: lru_wf_def)
  have order: "bt_insert (e_tick e) key (order s) = order s @ [(e_tick e, key)]"
    using old assms(3) by (intro bt_insert_greatest) (auto simp: less_Suc_eq_le)
  show "linked (hm_insert key e (entries s)) (bt_insert (e_tick e) key (order s))"
    unfolding order using linked assms(2,3) old by (intro linked_insert) (auto simp: less_Suc_eq_le)
  have "key \<notin> snd ` set (order s)" using linked assms(2) by (simp add: linked_def)
  then show "map (row_of (hm_insert key e (entries s))) (bt_insert (e_tick e) key (order s)) =
      rows_of s @ [(key, e_value e, e_bytes e, e_at e)]"
    unfolding order rows_of_def by (rule rows_append)
  show "\<forall>t \<in> fst ` set (bt_insert (e_tick e) key (order s)). t \<le> Suc (tick s)"
    unfolding order using old assms(3) by (auto simp: le_SucI)
qed

lemma lru_insert_refines:
  assumes "lru_wf s" and "max_bytes s < 2 ^ 63" and "Suc (tick s) < 2 ^ 64"
  shows "\<exists>s'. lru_insert now key v b s = Some s' \<and> lru_wf s' \<and>
    rows_of s' = spec_insert (max_bytes s) now key v b (rows_of s) \<and>
    max_bytes s' = max_bytes s \<and> ttl s' = ttl s \<and> tick s' \<le> Suc (tick s)"
proof -
  obtain s1 where s1: "lru_remove key s = Some s1" "lru_wf s1"
      "rows_of s1 = filter (\<lambda>r. fst r \<noteq> key) (rows_of s)" "key \<notin> fst ` set (entries s1)"
      "max_bytes s1 = max_bytes s" "ttl s1 = ttl s" "tick s1 = tick s"
    using lru_remove_refines [OF assms(1)] by blast
  show ?thesis
  proof (cases "b > max_bytes s")
    case True
    then show ?thesis using s1 by (intro exI [of _ s1]) (simp add: lru_insert_def spec_insert_def Let_def)
  next
    case False
    let ?e = "\<lparr>e_value = v, e_bytes = b, e_tick = Suc (tick s), e_at = now\<rparr>"
    note app = lru_append [OF s1(2,4), of ?e]
    have held: "lru_bytes s1 + b = weight (rows_of s1 @ [(key, v, b, now)])"
      using s1(2) by (simp add: lru_wf_def)
    obtain es ord where ev: "evict (max_bytes s1) (lru_bytes s1 + b) (hm_insert key ?e (entries s1))
          (bt_insert (Suc (tick s)) key (order s1)) = Some (weight (map (row_of es) ord), es, ord)"
        "linked es ord" "set ord \<subseteq> set (bt_insert (Suc (tick s)) key (order s1))"
        "weight (map (row_of es) ord) \<le> max_bytes s1"
        "map (row_of es) ord = drop_until_fits (max_bytes s1) (rows_of s1 @ [(key, v, b, now)])"
      using evict_refines [OF app(1), of "lru_bytes s1 + b" "max_bytes s1"] app(2) held s1(7) by auto
    let ?s = "s1\<lparr>tick := Suc (tick s), lru_bytes := weight (map (row_of es) ord), entries := es, order := ord\<rparr>"
    have "checked_add (tick s) 1 = Some (Suc (tick s))" "checked_add (lru_bytes s1) b = Some (lru_bytes s1 + b)"
      using assms(2,3) s1(2,5) False by (auto simp: checked_add_def lru_wf_def)
    then have "lru_insert now key v b s = Some ?s"
      using False s1(1,5,7) ev(1) by (simp add: lru_insert_def)
    moreover have "lru_wf ?s"
      using ev app(3) s1(5,7) by (auto simp: lru_wf_def rows_of_def)
    moreover have "rows_of ?s = spec_insert (max_bytes s) now key v b (rows_of s)"
      using ev(5) s1(3,5) False by (simp add: rows_of_def spec_insert_def Let_def)
    ultimately show ?thesis using s1(5-7) by (intro exI [of _ ?s]) simp
  qed
qed

lemma hm_insert_again: "hm_insert key e (hm_remove key es) = hm_insert key e es"
  by (simp add: hm_insert_def hm_remove_def)

lemma lru_get_refines:
  assumes "lru_wf s" and "Suc (tick s) < 2 ^ 64"
  shows "\<exists>r s'. lru_get now key s = Some (r, s') \<and> lru_wf s' \<and>
    (r, rows_of s') = spec_get (ttl s) now key (rows_of s) \<and>
    max_bytes s' = max_bytes s \<and> ttl s' = ttl s \<and> tick s' \<le> Suc (tick s)"
proof (cases "map_of (entries s) key")
  case None
  then have "key \<notin> fst ` set (rows_of s)"
    using assms(1) by (auto simp: lru_wf_def linked_def rows_of_def image_iff map_of_eq_None_iff)
  with None assms(1) show ?thesis
    by (simp add: lru_get_def spec_get_def find_fst_None Let_def)
next
  case (Some e)
  have linked: "linked (entries s) (order s)" using assms(1) by (simp add: lru_wf_def)
  have "row_of (entries s) (e_tick e, key) = (key, e_value e, e_bytes e, e_at e)"
    using Some by (simp add: row_of_def)
  then have "(key, e_value e, e_bytes e, e_at e) \<in> set (rows_of s)"
    using linked_entry [OF linked Some] by (force simp: rows_of_def)
  then have find: "List.find (\<lambda>r. fst r = key) (rows_of s) = Some (key, e_value e, e_bytes e, e_at e)"
    using find_unique [OF rows_distinct [OF linked]] by (fastforce simp: rows_of_def)
  obtain s1 where s1: "lru_remove key s = Some s1" "lru_wf s1"
      "rows_of s1 = filter (\<lambda>r. fst r \<noteq> key) (rows_of s)" "key \<notin> fst ` set (entries s1)"
      "max_bytes s1 = max_bytes s" "ttl s1 = ttl s" "tick s1 = tick s"
    using lru_remove_refines [OF assms(1)] by blast
  show ?thesis
  proof (cases "is_some_and (\<lambda>life. life \<le> now - e_at e) (ttl s)")
    case True
    then show ?thesis using Some find s1 by (simp add: lru_get_def spec_get_def Let_def)
  next
    case False
    let ?e = "e\<lparr>e_tick := Suc (tick s)\<rparr>"
    note app = lru_append [OF s1(2,4), of ?e]
    have parts: "entries s1 = hm_remove key (entries s)" "order s1 = bt_remove (e_tick e) (order s)"
      using s1(1) Some by (auto simp: lru_remove_def split: option.splits)
    let ?s = "s\<lparr>tick := Suc (tick s), order := bt_insert (Suc (tick s)) key (bt_remove (e_tick e) (order s)),
      entries := hm_insert key ?e (entries s)\<rparr>"
    have get: "lru_get now key s = Some (Some (e_value e), ?s)"
      using Some False assms(2) by (simp add: lru_get_def checked_add_def)
    have rows: "rows_of ?s = rows_of s1 @ [(key, e_value e, e_bytes e, e_at e)]"
      using app(2) s1(7) parts by (simp add: rows_of_def hm_insert_again)
    have "weight (rows_of ?s) = lru_bytes s"
      using assms(1) rows s1(3) weight_remove [OF linked Some] by (simp add: lru_wf_def rows_of_def)
    then have "lru_wf ?s"
      using assms(1) app(1,3) s1(7) parts by (simp add: lru_wf_def hm_insert_again)
    with get rows find False s1(3) show ?thesis by (simp add: spec_get_def Let_def)
  qed
qed

lemma drop_until_fits_last:
  "weight [r] \<le> cap \<Longrightarrow> \<exists>ys. drop_until_fits cap (xs @ [r]) = ys @ [r] \<and> set ys \<subseteq> set xs"
proof (induction xs)
  case (Cons x xs)
  then obtain ys where "drop_until_fits cap (xs @ [r]) = ys @ [r]" "set ys \<subseteq> set xs" by auto
  then show ?case by (cases "weight (x # xs @ [r]) \<le> cap") auto
qed simp

text \<open>The states a cache of some capacity reaches in at most so many operations.\<close>

inductive lru_reach :: "nat \<Rightarrow> int option \<Rightarrow> nat \<Rightarrow> ('k, 'v) byte_lru \<Rightarrow> bool" for cap life where
  lru_start: "lru_reach cap life 0 (new_lru cap life)"
| lru_insert_step: "lru_reach cap life n s \<Longrightarrow> lru_insert now key v b s = Some s' \<Longrightarrow> lru_reach cap life (Suc n) s'"
| lru_get_step: "lru_reach cap life n s \<Longrightarrow> lru_get now key s = Some (r, s') \<Longrightarrow> lru_reach cap life (Suc n) s'"

lemma lru_reach_wf:
  assumes "lru_reach cap life n s" and "cap < 2 ^ 63" and "n < 2 ^ 64"
  shows "lru_wf s \<and> max_bytes s = cap \<and> ttl s = life \<and> tick s \<le> n"
  using assms
proof (induction rule: lru_reach.induct)
  case lru_start
  then show ?case by (simp add: new_lru_def lru_wf_def linked_def rows_of_def)
next
  case (lru_insert_step n s now key v b s')
  then show ?case using lru_insert_refines [of s now key v b] by auto
next
  case (lru_get_step n s now key r s')
  then show ?case using lru_get_refines [of s now key] by auto
qed

subsection \<open>Properties\<close>

text \<open>Property C25. The cache is a least-recently-used list within its bytes: inserting and reading
  do to the rows in use order what the abstract cache does, and neither ever overflows a counter
  or takes more off the byte count than it holds.\<close>

theorem cache_refines_lru_list:
  assumes "lru_wf s" and "max_bytes s < 2 ^ 63" and "Suc (tick s) < 2 ^ 64"
  shows "(\<exists>s'. lru_insert now key v b s = Some s' \<and> lru_wf s' \<and>
      rows_of s' = spec_insert (max_bytes s) now key v b (rows_of s)) \<and>
    (\<exists>r s'. lru_get now key s = Some (r, s') \<and> lru_wf s' \<and>
      (r, rows_of s') = spec_get (ttl s) now key (rows_of s))"
  using lru_insert_refines [OF assms, of now key v b] lru_get_refines [OF assms(1,3), of now key] by auto

theorem cache_refines_lru_list_witness:
  "\<exists>s'. lru_insert 0 ''k'' True 3 (new_lru 10 None :: (string, bool) byte_lru) = Some s' \<and> lru_wf s' \<and>
     rows_of s' = spec_insert 10 0 ''k'' True 3 (rows_of (new_lru 10 None))"
proof -
  have "lru_wf (new_lru 10 None :: (string, bool) byte_lru)"
    by (simp add: new_lru_def lru_wf_def linked_def rows_of_def)
  from cache_refines_lru_list [OF this, of 0 "''k''" True 3] show ?thesis
    by (simp add: new_lru_def)
qed

text \<open>A use of the cache is a list of operations, run in order; \<open>None\<close> when a counter overflows.\<close>

datatype ('k, 'v) cache_op = Insert int 'k 'v nat | Get int 'k

fun run_cache :: "('k, 'v) cache_op list \<Rightarrow> ('k, 'v) byte_lru \<Rightarrow> ('k, 'v) byte_lru option" where
  "run_cache [] s = Some s"
| "run_cache (Insert now key v b # ops) s = Option.bind (lru_insert now key v b s) (run_cache ops)"
| "run_cache (Get now key # ops) s = Option.bind (lru_get now key s) (\<lambda>(_, s'). run_cache ops s')"

lemma run_cache_total:
  assumes "lru_reach cap life n s" and "cap < 2 ^ 63" and "n + length ops < 2 ^ 64"
  shows "\<exists>s'. run_cache ops s = Some s' \<and> lru_reach cap life (n + length ops) s'"
  using assms(1,3)
proof (induction ops arbitrary: n s)
  case (Cons op ops)
  have wf: "lru_wf s" "max_bytes s < 2 ^ 63" "Suc (tick s) < 2 ^ 64"
    using lru_reach_wf [OF Cons.prems(1) assms(2)] Cons.prems(2) assms(2) by auto
  obtain s' where s': "run_cache (op # ops) s = run_cache ops s'" "lru_reach cap life (Suc n) s'"
  proof (cases op)
    case (Insert now key v b)
    then show thesis
      using lru_insert_refines [OF wf, of now key v b] lru_insert_step [OF Cons.prems(1)] that by fastforce
  next
    case (Get now key)
    then show thesis
      using lru_get_refines [OF wf(1,3), of now key] lru_get_step [OF Cons.prems(1)] that by fastforce
  qed
  then show ?case using Cons.IH [of "Suc n" s'] Cons.prems(2) by simp
qed simp

text \<open>Property C34. A cache never holds more than its capacity: whatever list of fewer than \<open>2 ^ 64\<close>
  inserts and reads is run from the empty cache, no counter overflows or goes below zero on the way,
  what is held at the end weighs at most the capacity, and the count it reports is what its entries
  weigh.\<close>

theorem cache_within_budget:
  assumes "cap < 2 ^ 63" and "length ops < 2 ^ 64"
  shows "\<exists>s. run_cache ops (new_lru cap life) = Some s \<and>
    lru_bytes s \<le> cap \<and> lru_bytes s = weight (rows_of s) \<and> length (rows_of s) = lru_len s"
proof -
  obtain s where s: "run_cache ops (new_lru cap life) = Some s" "lru_reach cap life (length ops) s"
    using run_cache_total [OF lru_start assms(1), of ops life] assms(2) by auto
  have wf: "lru_wf s" "max_bytes s = cap" using lru_reach_wf [OF s(2) assms] by auto
  then have "distinct (map fst (entries s))" "distinct (map snd (order s))"
    "fst ` set (entries s) = snd ` set (order s)"
    by (simp_all add: lru_wf_def linked_def)
  then have "length (order s) = length (entries s)"
    by (metis distinct_card length_map list.set_map)
  with wf s(1) show ?thesis by (simp add: lru_wf_def lru_len_def rows_of_def)
qed

theorem cache_within_budget_witness:
  "\<exists>s. run_cache [Insert 0 ''k'' True 3, Get 1 ''k'', Insert 2 ''l'' False 8] (new_lru 10 None) = Some s \<and>
    lru_bytes s \<le> 10 \<and> lru_bytes s = weight (rows_of s) \<and> length (rows_of s) = lru_len s"
  by (rule cache_within_budget) simp_all

text \<open>What was just put in is answered: an entry no heavier than the capacity is never
  the one evicted to make room for it, and it is read back until it expires.\<close>

theorem cached_value_is_read_back:
  assumes "lru_reach cap life n s" and "cap < 2 ^ 63" and "Suc (Suc n) < 2 ^ 64" and "b \<le> cap"
    and "is_none_or (\<lambda>l. later - now < l) life"
  shows "\<exists>s' s''. lru_insert now key v b s = Some s' \<and> lru_get later key s' = Some (Some v, s'')"
proof -
  have wf: "lru_wf s" "max_bytes s = cap" "ttl s = life" "tick s \<le> n"
    using lru_reach_wf [OF assms(1,2)] assms(3) by auto
  obtain s' where s': "lru_insert now key v b s = Some s'"
      "rows_of s' = spec_insert cap now key v b (rows_of s)"
    using lru_insert_refines [of s now key v b] wf assms(2,3) by auto
  have reach: "lru_reach cap life (Suc n) s'" using lru_insert_step [OF assms(1) s'(1)] .
  then have wf': "lru_wf s'" "ttl s' = life" and tick: "Suc (tick s') < 2 ^ 64"
    using lru_reach_wf [OF reach assms(2)] assms(3) by auto
  obtain ys where ys: "rows_of s' = ys @ [(key, v, b, now)]" "key \<notin> fst ` set ys"
    using drop_until_fits_last [of "(key, v, b, now)" cap "filter (\<lambda>r. fst r \<noteq> key) (rows_of s)"] assms(4) s'(2)
    by (auto simp: spec_insert_def Let_def)
  have dist: "distinct (map fst (rows_of s'))"
    unfolding rows_of_def using wf'(1) by (intro rows_distinct) (simp add: lru_wf_def)
  then have "List.find (\<lambda>x. fst x = key) (rows_of s') = Some (key, v, b, now)"
    using find_unique [OF dist, of "(key, v, b, now)"] ys(1) by simp
  then have "fst (spec_get life later key (rows_of s')) = Some v"
    using assms(5) by (auto simp: spec_get_def Let_def is_some_and_iff is_none_or_iff)
  moreover obtain r s'' where get: "lru_get later key s' = Some (r, s'')"
      "(r, rows_of s'') = spec_get life later key (rows_of s')"
    using lru_get_refines [OF wf'(1), of later key] wf'(2) tick by auto
  ultimately have "r = Some v" by (metis fst_conv)
  with s'(1) get(1) show ?thesis by blast
qed

theorem cached_value_is_read_back_witness:
  "\<exists>s' s''. lru_insert 0 ''k'' True 3 (new_lru 10 (Some 60)) = Some s' \<and>
     lru_get 59 ''k'' s' = Some (Some True, s'')"
  by (rule cached_value_is_read_back [OF lru_start]) (simp_all add: is_none_or_def)

end
