(* ===== verification/Stall.thy ===== *)
theory Stall
  imports Prelude
begin

text \<open>
  The watch for streams that take records in and land none (\<open>src/reconciler/stall.rs\<close>).

  The samples behind the mutex are a map from project and pipeline; the lock is sequential here,
  each call one step. Instants are integers of nanoseconds. Counters are \<open>u64\<close>: the sums and the
  difference are checked, \<open>None\<close> being an overflow. Reading YAML is the argument
  \<open>parse_yaml\<close>.
\<close>

subsection \<open>Definitions\<close>

record pipeline_metrics =
  m_received :: "nat option"
  m_sent :: "nat option"
  m_errors :: "nat option"
  m_rejected :: "nat option"

definition WINDOW :: int where
  "WINDOW = 10 * 60 * 1000000000"

record sample =
  sm_written :: nat
  sm_received :: nat
  sm_since :: int
  sm_received_since :: nat

type_synonym stall_watch = "string \<times> string \<Rightarrow> sample option"

definition new_watch :: stall_watch where
  "new_watch = (\<lambda>_. None)"

definition written_of :: "nat \<Rightarrow> pipeline_metrics \<Rightarrow> nat option" where
  "written_of sent metrics =
     Option.bind (checked_add sent (unwrap_or 0 (m_rejected metrics)))
       (\<lambda>n. checked_add n (unwrap_or 0 (m_errors metrics)))"

definition stall_message :: "nat \<Rightarrow> int \<Rightarrow> string" where
  "stall_message taken quiet =
     ''the stream took '' @ show_nat taken @ '' record(s) in over the last '' @
     show_nat (nat (quiet div 1000000000 div 60)) @
     '' minute(s) and sent, rejected or failed none of them; the source delivers and nothing lands, the runner'' @
     apostrophe @ ''s log names the reason''"

definition observe ::
    "stall_watch \<Rightarrow> string \<Rightarrow> string \<Rightarrow> pipeline_metrics \<Rightarrow> int \<Rightarrow> (string option \<times> stall_watch) option" where
  "observe samples project pipeline metrics now =
     (case (m_received metrics, m_sent metrics) of
        (Some received, Some sent) \<Rightarrow>
          Option.bind (written_of sent metrics) (\<lambda>written.
            let key = (project, pipeline);
                fresh = \<lparr>sm_written = written, sm_received = received, sm_since = now,
                         sm_received_since = received\<rparr>;
                restart = Some (None, samples(key \<mapsto> fresh))
            in (case samples key of
                  None \<Rightarrow> restart
                | Some held \<Rightarrow>
                    if sm_written held = written \<and> sm_received held \<le> received then
                      map_option (\<lambda>taken.
                        let quiet = max 0 (now - sm_since held)
                        in (if taken > 0 \<and> quiet \<ge> WINDOW then Some (stall_message taken quiet) else None,
                            samples(key \<mapsto> held\<lparr>sm_received := received\<rparr>)))
                        (checked_sub received (sm_received_since held))
                    else restart))
      | _ \<Rightarrow> Some (None, samples))"

definition retain :: "(string \<times> string) set \<Rightarrow> stall_watch \<Rightarrow> stall_watch" where
  "retain live samples = (\<lambda>key. if key \<in> live then samples key else None)"

definition writes_through_processors :: "(string \<Rightarrow> json option) \<Rightarrow> string \<Rightarrow> bool" where
  "writes_through_processors parse_yaml bento =
     unwrap_or False
       (Option.bind (parse_yaml bento) (\<lambda>config.
        Option.bind (Option.bind (pointer [''pipeline'', ''processors''] config) as_array) (\<lambda>ps.
          if ps = [] then None
          else map_option (\<lambda>mapping. concat (split_whitespace mapping) = ''root=deleted()'')
            (get_str ''mapping'' (last ps)))))"

subsection \<open>Lemmas\<close>

text \<open>The count a watch began with is never above the last one seen.\<close>

definition watch_wf :: "stall_watch \<Rightarrow> bool" where
  "watch_wf samples \<longleftrightarrow> (\<forall>key s. samples key = Some s \<longrightarrow> sm_received_since s \<le> sm_received s)"

lemma watch_wf_update:
  "watch_wf samples \<Longrightarrow> sm_received_since s \<le> sm_received s \<Longrightarrow> watch_wf (samples(key \<mapsto> s))"
  by (simp add: watch_wf_def)

lemma watch_wf_held: "watch_wf samples \<Longrightarrow> samples key = Some s \<Longrightarrow> sm_received_since s \<le> sm_received s"
  unfolding watch_wf_def by blast

lemma observe_total:
  assumes "watch_wf samples"
    and "\<And>sent. m_sent metrics = Some sent \<Longrightarrow> written_of sent metrics \<noteq> None"
  shows "\<exists>r samples'. observe samples project pipeline metrics now = Some (r, samples') \<and> watch_wf samples'"
proof (cases "m_received metrics")
  case (Some received)
  show ?thesis
  proof (cases "m_sent metrics")
    case sent: (Some sent)
    then obtain w where w: "written_of sent metrics = Some w" using assms(2) by blast
    show ?thesis
    proof (cases "samples (project, pipeline)")
      case None
      then show ?thesis
        using assms(1) Some sent w by (simp add: observe_def Let_def watch_wf_update)
    next
      case held: (Some held)
      from watch_wf_held [OF assms(1) held] show ?thesis
        using assms(1) Some sent w held
        by (simp add: observe_def Let_def checked_sub_def watch_wf_update)
    qed
  qed (use assms(1) Some in \<open>simp add: observe_def\<close>)
qed (use assms(1) in \<open>simp add: observe_def\<close>)

text \<open>A stream read while nothing moved: every reading has the same \<open>written\<close>, and \<open>received\<close>
  never falls.\<close>

definition reads :: "nat \<Rightarrow> nat \<Rightarrow> pipeline_metrics \<Rightarrow> bool" where
  "reads w received metrics \<longleftrightarrow>
     m_received metrics = Some received \<and>
     (\<exists>sent. m_sent metrics = Some sent \<and> written_of sent metrics = Some w)"

fun observe_all ::
    "stall_watch \<Rightarrow> string \<Rightarrow> string \<Rightarrow> (pipeline_metrics \<times> int) list \<Rightarrow> stall_watch option" where
  "observe_all samples project pipeline [] = Some samples"
| "observe_all samples project pipeline ((metrics, now) # obs) =
     Option.bind (observe samples project pipeline metrics now)
       (\<lambda>(_, samples'). observe_all samples' project pipeline obs)"

fun steady :: "nat \<Rightarrow> nat \<Rightarrow> (pipeline_metrics \<times> int) list \<Rightarrow> nat \<Rightarrow> bool" where
  "steady w received [] last_received \<longleftrightarrow> received = last_received"
| "steady w received ((metrics, _) # obs) last_received \<longleftrightarrow>
     (\<exists>r \<ge> received. reads w r metrics \<and> steady w r obs last_received)"

lemma observe_steady:
  assumes "samples (project, pipeline) = Some s" and "sm_written s = w" and "sm_received s \<le> r"
    and "sm_received_since s \<le> sm_received s" and "reads w r metrics"
  shows "observe samples project pipeline metrics now =
    Some (if r > sm_received_since s \<and> now - sm_since s \<ge> WINDOW
          then Some (stall_message (r - sm_received_since s) (now - sm_since s)) else None,
          samples((project, pipeline) \<mapsto> s\<lparr>sm_received := r\<rparr>))"
  using assms by (auto simp: observe_def reads_def Let_def checked_sub_def WINDOW_def)

lemma observe_all_steady:
  assumes "samples (project, pipeline) = Some s" and "sm_written s = w"
    and "sm_received_since s \<le> sm_received s" and "steady w (sm_received s) obs last_received"
  shows "\<exists>samples'. observe_all samples project pipeline obs = Some samples' \<and>
    samples' (project, pipeline) = Some (s\<lparr>sm_received := last_received\<rparr>) \<and>
    sm_received_since s \<le> last_received"
  using assms
proof (induction obs arbitrary: samples s)
  case (Cons o1 obs)
  obtain metrics now where o1: "o1 = (metrics, now)" by (cases o1)
  then obtain r where r: "sm_received s \<le> r" "reads w r metrics" "steady w r obs last_received"
    using Cons.prems(4) by auto
  let ?s = "s\<lparr>sm_received := r\<rparr>"
  from observe_steady [of samples project pipeline s w r metrics now] Cons.prems r
  have "observe_all samples project pipeline (o1 # obs) =
      observe_all (samples((project, pipeline) \<mapsto> ?s)) project pipeline obs"
    using o1 by simp
  moreover have "\<exists>samples'. observe_all (samples((project, pipeline) \<mapsto> ?s)) project pipeline obs = Some samples' \<and>
      samples' (project, pipeline) = Some (?s\<lparr>sm_received := last_received\<rparr>) \<and>
      sm_received_since ?s \<le> last_received"
    using Cons.IH [of "samples((project, pipeline) \<mapsto> ?s)" ?s] Cons.prems(2,3) r
    by (simp del: fun_upd_apply add: fun_upd_same)
  ultimately show ?case by simp
qed simp

subsection \<open>Properties\<close>

text \<open>Property C35. A stall is reported exactly when there is one: a stream watched from some reading
  on, whose written count has not moved and whose received count has not fallen in any reading
  since, is called stalled at a reading exactly when it took records in since the first and the
  first is at least ten minutes back. No subtraction goes below zero on the way.\<close>

theorem stall_reported_exactly:
  assumes "samples (project, pipeline) = None" and "reads w r0 metrics0"
    and "steady w r0 obs r1" and "r1 \<le> r" and "reads w r metrics"
  shows "\<exists>samples' samples''. observe_all samples project pipeline ((metrics0, start) # obs) = Some samples' \<and>
    observe samples' project pipeline metrics now =
      Some (if r > r0 \<and> now - start \<ge> WINDOW then Some (stall_message (r - r0) (now - start)) else None,
            samples'')"
proof -
  let ?fresh = "\<lparr>sm_written = w, sm_received = r0, sm_since = start, sm_received_since = r0\<rparr>"
  have first: "observe samples project pipeline metrics0 start =
      Some (None, samples((project, pipeline) \<mapsto> ?fresh))"
    using assms(1,2) by (auto simp: observe_def reads_def Let_def)
  obtain samples' where s': "observe_all (samples((project, pipeline) \<mapsto> ?fresh)) project pipeline obs = Some samples'"
      "samples' (project, pipeline) = Some (?fresh\<lparr>sm_received := r1\<rparr>)" "r0 \<le> r1"
    using observe_all_steady [of "samples((project, pipeline) \<mapsto> ?fresh)" project pipeline ?fresh w obs r1]
      assms(3) by auto
  with first show ?thesis
    using observe_steady [of samples' project pipeline "?fresh\<lparr>sm_received := r1\<rparr>" w r metrics now]
      assms(4,5) by auto
qed

definition demo_reading :: "nat \<Rightarrow> nat \<Rightarrow> pipeline_metrics" where
  "demo_reading received sent =
     \<lparr>m_received = Some received, m_sent = Some sent, m_errors = None, m_rejected = Some 2\<rparr>"

lemma demo_reads: "reads 7 r (demo_reading r 5)"
  by (simp add: reads_def demo_reading_def written_of_def checked_add_def unwrap_or_def)

theorem stall_reported_exactly_witness:
  "\<exists>samples' samples''. observe_all new_watch ''p'' ''s'' [(demo_reading 10 5, 0), (demo_reading 12 5, 60)] =
       Some samples' \<and>
     observe samples' ''p'' ''s'' (demo_reading 40 5) WINDOW =
       Some (Some (stall_message 30 WINDOW), samples'')"
proof -
  have "steady 7 10 [(demo_reading 12 5, 60)] 12" using demo_reads [of 12] by auto
  from stall_reported_exactly [OF _ demo_reads this _ demo_reads, of new_watch "''p''" "''s''" 40 0 WINDOW]
  show ?thesis by (simp add: new_watch_def)
qed

text \<open>A reading that moved, or a counter that fell back, starts the watch over, and a
  runner that does not export \<open>received\<close> or \<open>sent\<close> is never called stalled.\<close>

theorem watch_starts_over:
  assumes "samples (project, pipeline) = Some s" and "reads w r metrics"
    and "sm_written s \<noteq> w \<or> r < sm_received s"
  shows "observe samples project pipeline metrics now =
      Some (None, samples((project, pipeline) \<mapsto>
        \<lparr>sm_written = w, sm_received = r, sm_since = now, sm_received_since = r\<rparr>)) \<and>
    observe samples project pipeline (metrics\<lparr>m_received := None\<rparr>) now = Some (None, samples) \<and>
    observe samples project pipeline (metrics\<lparr>m_sent := None\<rparr>) now = Some (None, samples)"
  using assms by (auto simp: observe_def reads_def Let_def split: option.splits)

theorem watch_starts_over_witness:
  "observe (new_watch((''p'', ''s'') \<mapsto>
       \<lparr>sm_written = 6, sm_received = 9, sm_since = 0, sm_received_since = 9\<rparr>)) ''p'' ''s'' (demo_reading 10 5) 60 =
     Some (None, new_watch((''p'', ''s'') \<mapsto>
       \<lparr>sm_written = 7, sm_received = 10, sm_since = 60, sm_received_since = 10\<rparr>))"
  using watch_starts_over [OF _ demo_reads, of "new_watch((''p'', ''s'') \<mapsto>
       \<lparr>sm_written = 6, sm_received = 9, sm_since = 0, sm_received_since = 9\<rparr>)" "''p''" "''s''" _ 10 60]
  by simp

end
