(* ===== verification/ListFilter.thy ===== *)
theory ListFilter
  imports Resource
begin

text \<open>
  The list filter and the order of a listing (\<open>src/resource/filter.rs\<close>).

  The vector of characters with their byte positions and an index into it are the list of the
  characters still to read; the parser's tokens and its index are the list of the tokens still to
  read. Floating point is the argument \<open>fl\<close>: \<open>as_f64\<close> of a JSON number (by the text it prints),
  \<open>str::parse\<close> and \<open>partial_cmp\<close> of \<open>f64\<close>.
\<close>

subsection \<open>Tokens\<close>

definition MAX_LEN :: nat where
  "MAX_LEN = 2000"

definition MAX_DEPTH :: nat where
  "MAX_DEPTH = 32"

record filter_error =
  fe_position :: nat
  fe_message :: string

definition filter_err :: "nat \<Rightarrow> string \<Rightarrow> filter_error + 'a" where
  "filter_err position message = Inl \<lparr>fe_position = position, fe_message = message\<rparr>"

definition filter_error_text :: "filter_error \<Rightarrow> string" where
  "filter_error_text e = ''filter at position '' @ show_nat (fe_position e) @ '': '' @ fe_message e"

datatype op = Eq | Ne | Lt | Le | Gt | Ge | Has

datatype expr =
    And expr expr
  | Or expr expr
  | Not expr
  | Cmp (cmp_path: "string list") (cmp_op: op) (cmp_value: "string option")

datatype tok = TOpen | TClose | TOp op | TAnd | TOr | TNot | TWord string bool

type_synonym located = "(nat \<times> string) list"

fun char_indices_from :: "nat \<Rightarrow> string list \<Rightarrow> located" where
  "char_indices_from n [] = []"
| "char_indices_from n (ch # chs) = (n, ch) # char_indices_from (n + length ch) chs"

definition char_indices :: "string \<Rightarrow> located" where
  "char_indices text = char_indices_from 0 (rchars text)"

fun quoted :: "nat \<Rightarrow> string \<Rightarrow> located \<Rightarrow> filter_error + (string \<times> located)" where
  "quoted pos word [] = filter_err pos ''the quoted string is not closed''"
| "quoted pos word ((p, c) # chars) =
     (if c = [CHR 0x22] then Inr (word, chars)
      else if c = [CHR 0x5C] then
        (case chars of
           [] \<Rightarrow> filter_err pos ''the quoted string is not closed''
         | (q, escaped) # chars' \<Rightarrow> quoted pos (word @ escaped) chars')
      else quoted pos (word @ c) chars)"

definition SPECIAL :: "string list" where
  "SPECIAL = [''('', '')'', ''='', ''!'', ''<'', ''>'', '':'', [CHR 0x22]]"

fun bare :: "string \<Rightarrow> located \<Rightarrow> string \<times> located" where
  "bare word [] = (word, [])"
| "bare word ((p, c) # chars) =
     (if is_whitespace c \<or> c \<in> set SPECIAL then (word, (p, c) # chars)
      else bare (word @ c) chars)"

definition word_tok :: "string \<Rightarrow> tok" where
  "word_tok word =
     (if word = ''AND'' then TAnd else if word = ''OR'' then TOr else if word = ''NOT'' then TNot
      else TWord word False)"

definition next_is :: "string \<Rightarrow> located \<Rightarrow> bool" where
  "next_is c chars = (case chars of [] \<Rightarrow> False | (_, d) # _ \<Rightarrow> d = c)"

lemma quoted_length: "quoted pos word chars = Inr (w, rest) \<Longrightarrow> length rest < length chars"
proof (induction "length chars" arbitrary: chars word rule: less_induct)
  case less
  show ?case
  proof (cases chars)
    case (Cons x xs)
    obtain p c where x: "x = (p, c)" by (cases x)
    show ?thesis
    proof (cases "c = [CHR 0x5C]")
      case True
      then show ?thesis
        using less.prems Cons x less.hyps [of "tl xs"] by (cases xs) (fastforce simp: filter_err_def)+
    next
      case False
      then show ?thesis
        using less.prems Cons x less.hyps [of xs] by (fastforce split: if_splits)
    qed
  qed (use less.prems in \<open>simp add: filter_err_def\<close>)
qed

lemma bare_length: "(w, rest) = bare word chars \<Longrightarrow> length rest < Suc (length chars)"
  by (induction word chars rule: bare.induct) (auto split: if_splits)

definition push :: "nat \<Rightarrow> tok \<Rightarrow> filter_error + (nat \<times> tok) list \<Rightarrow> filter_error + (nat \<times> tok) list" where
  "push pos t r = (case r of Inl e \<Rightarrow> Inl e | Inr ts \<Rightarrow> Inr ((pos, t) # ts))"

function tokens_from :: "located \<Rightarrow> filter_error + (nat \<times> tok) list" where
  "tokens_from [] = Inr []"
| "tokens_from ((pos, c) # chars) =
     (if is_whitespace c then tokens_from chars
      else if c = ''('' then push pos TOpen (tokens_from chars)
      else if c = '')'' then push pos TClose (tokens_from chars)
      else if c = ''='' then push pos (TOp Eq) (tokens_from chars)
      else if c = '':'' then push pos (TOp Has) (tokens_from chars)
      else if c = ''!'' \<and> next_is ''='' chars then push pos (TOp Ne) (tokens_from (tl chars))
      else if c = ''<'' then
        (if next_is ''='' chars then push pos (TOp Le) (tokens_from (tl chars)) else push pos (TOp Lt) (tokens_from chars))
      else if c = ''>'' then
        (if next_is ''='' chars then push pos (TOp Ge) (tokens_from (tl chars)) else push pos (TOp Gt) (tokens_from chars))
      else if c = [CHR 0x22] then
        (case quoted pos [] chars of
              Inl e \<Rightarrow> Inl e
            | Inr (word, rest) \<Rightarrow> push pos (TWord word True) (tokens_from rest))
      else if c = ''!'' then filter_err pos ''`!` is only part of `!=`; negate with NOT''
      else (case bare [] ((pos, c) # chars) of (word, rest) \<Rightarrow> push pos (word_tok word) (tokens_from rest)))"
  by pat_completeness auto
termination
  by (relation "measure length") (auto simp: SPECIAL_def dest: quoted_length bare_length)

declare tokens_from.simps(2) [simp del]

definition tokens :: "string \<Rightarrow> filter_error + (nat \<times> tok) list" where
  "tokens text = tokens_from (char_indices text)"

subsection \<open>The parser\<close>

text \<open>\<open>labels.team\<close> is \<open>metadata.labels.team\<close>; every other field is its dotted path.\<close>

definition field_path :: "string \<Rightarrow> string list option" where
  "field_path field =
     (let parts = str_split (CHR ''.'') field
      in if [] \<in> set parts then None
         else Some (if parts \<noteq> [] \<and> hd parts = ''labels'' then ''metadata'' # parts else parts))"

definition has_combinator :: "json \<Rightarrow> bool" where
  "has_combinator node = list_ex (\<lambda>c. jget c node \<noteq> None) [''allOf'', ''anyOf'', ''oneOf'']"

definition is_open :: "json \<Rightarrow> bool" where
  "is_open node =
     (case jget ''type'' node of
        None \<Rightarrow> True
      | Some (JString t) \<Rightarrow> t = ''object''
      | Some (JArray types) \<Rightarrow> list_ex (\<lambda>t. t = JString ''object'') types
      | Some _ \<Rightarrow> False)"

text \<open>\<open>has_path\<close>, with the hops still to go: the code starts at 0 hops and stops above 64, so the
  recursion is entered with \<open>hops_left = 64 - hops + 1\<close> and answers false at 0.\<close>

fun has_path :: "nat \<Rightarrow> json \<Rightarrow> json \<Rightarrow> string list \<Rightarrow> bool" where
  "has_path 0 root node path = False"
| "has_path (Suc hops_left) root node path =
     (case path of
        [] \<Rightarrow> True
      | head # rest \<Rightarrow>
          (case get_str ''$ref'' node of
             Some target \<Rightarrow>
               is_some_and (\<lambda>d. has_path hops_left root d path)
                 (Option.bind (or_else (jget ''definitions'' root) (jget ''$defs'' root))
                   (jget (last (str_split (CHR ''/'') target))))
           | None \<Rightarrow>
               if list_ex (\<lambda>combinator.
                    is_some_and (list_ex (\<lambda>b. has_path hops_left root b path)) (get_array combinator node))
                    [''allOf'', ''anyOf'', ''oneOf''] then True
               else if is_some_and (\<lambda>items. has_path hops_left root items path) (jget ''items'' node) then True
               else
                 (case Option.bind (jget ''properties'' node) (jget head) of
                    Some child \<Rightarrow> has_path hops_left root child rest
                  | None \<Rightarrow>
                      (case jget ''additionalProperties'' node of
                         Some (JBool b) \<Rightarrow> b
                       | Some (JObject m) \<Rightarrow> has_path hops_left root (JObject m) rest
                       | _ \<Rightarrow>
                           jget ''properties'' node = None \<and> \<not> has_combinator node \<and>
                           jget ''items'' node = None \<and> jget ''$ref'' node = None \<and> is_open node))))"

definition known :: "json option \<Rightarrow> string list \<Rightarrow> bool" where
  "known schema path =
     (case schema of
        Some s \<Rightarrow> has_path 65 s s path
      | None \<Rightarrow>
          (case path of
             [] \<Rightarrow> False
           | head # _ \<Rightarrow> head \<in> {''metadata'', ''spec'', ''status'', ''kind'', ''apiVersion''}))"

type_synonym toks = "(nat \<times> tok) list"

text \<open>The position of the next token, the end of the text when there is none.\<close>

definition tok_pos :: "nat \<Rightarrow> toks \<Rightarrow> nat" where
  "tok_pos end_pos toks = (case toks of [] \<Rightarrow> end_pos | (p, _) # _ \<Rightarrow> p)"

definition peek :: "toks \<Rightarrow> tok option" where
  "peek toks = (case toks of [] \<Rightarrow> None | (_, t) # _ \<Rightarrow> Some t)"

definition backtick :: "string \<Rightarrow> string" where
  "backtick s = ''`'' @ s @ ''`''"

definition restriction :: "json option \<Rightarrow> nat \<Rightarrow> toks \<Rightarrow> filter_error + (expr \<times> toks)" where
  "restriction schema end_pos toks =
     (let start = tok_pos end_pos toks in
      case peek toks of
        Some (TWord field False) \<Rightarrow>
          (let toks1 = tl toks in
           case peek toks1 of
             Some (TOp op) \<Rightarrow>
               (let toks2 = tl toks1 in
                case peek toks2 of
                  Some (TWord word is_quoted) \<Rightarrow>
                    (let v = (if is_quoted \<or> word \<noteq> ''*'' then Some word else None) in
                     if v = None \<and> op \<noteq> Has then
                       filter_err start (''`*` means present only after `:`, as '' @ backtick (field @ '':*''))
                     else
                       (case field_path field of
                          None \<Rightarrow> filter_err start (backtick field @ '' is not a field: use a dotted path such as spec.space'')
                        | Some path \<Rightarrow>
                            if \<not> known schema path then
                              filter_err start (backtick field @ '' is not a field of this kind; read its schema with jc_schema_get'')
                            else Inr (Cmp path op v, tl toks2)))
                | _ \<Rightarrow> filter_err (tok_pos end_pos toks2) (backtick field @ '' needs a value after its operator''))
           | _ \<Rightarrow> filter_err (tok_pos end_pos toks1) (backtick field @ '' needs an operator: = != < <= > >= or :''))
      | _ \<Rightarrow> filter_err start ''expected a field such as metadata.name or labels.team'')"

lemma restriction_length: "restriction schema end_pos toks = Inr (e, rest) \<Longrightarrow> length rest < length toks"
  by (cases toks; cases "tl toks"; cases "tl (tl toks)")
     (auto simp: restriction_def filter_err_def peek_def Let_def
       split: tok.splits bool.splits option.splits if_splits)

text \<open>The loops of \<open>expr\<close>, \<open>seq\<close> and \<open>factor\<close> are the functions named \<open>rest\<close>, with the left
  operand as the accumulator.\<close>

function parse_expr :: "json option \<Rightarrow> nat \<Rightarrow> nat \<Rightarrow> toks \<Rightarrow> filter_error + (expr \<times> toks)"
  and expr_rest :: "json option \<Rightarrow> nat \<Rightarrow> nat \<Rightarrow> expr \<Rightarrow> toks \<Rightarrow> filter_error + (expr \<times> toks)"
  and parse_seq :: "json option \<Rightarrow> nat \<Rightarrow> nat \<Rightarrow> toks \<Rightarrow> filter_error + (expr \<times> toks)"
  and seq_rest :: "json option \<Rightarrow> nat \<Rightarrow> nat \<Rightarrow> expr \<Rightarrow> toks \<Rightarrow> filter_error + (expr \<times> toks)"
  and parse_factor :: "json option \<Rightarrow> nat \<Rightarrow> nat \<Rightarrow> toks \<Rightarrow> filter_error + (expr \<times> toks)"
  and factor_rest :: "json option \<Rightarrow> nat \<Rightarrow> nat \<Rightarrow> expr \<Rightarrow> toks \<Rightarrow> filter_error + (expr \<times> toks)"
  and parse_term :: "json option \<Rightarrow> nat \<Rightarrow> nat \<Rightarrow> toks \<Rightarrow> filter_error + (expr \<times> toks)" where
  "parse_expr schema end_pos depth toks =
     (if depth > MAX_DEPTH then filter_err (tok_pos end_pos toks) ''the filter nests too deep''
      else
        (case parse_seq schema end_pos depth toks of
           Inl e \<Rightarrow> Inl e
         | Inr (left, toks') \<Rightarrow> expr_rest schema end_pos depth left toks'))"
| "expr_rest schema end_pos depth left toks =
     (case toks of
        (_, TAnd) # toks1 \<Rightarrow>
          (case parse_seq schema end_pos depth toks1 of
             Inl e \<Rightarrow> Inl e
           | Inr (right, toks') \<Rightarrow> expr_rest schema end_pos depth (And left right) toks')
      | _ \<Rightarrow> Inr (left, toks))"
| "parse_seq schema end_pos depth toks =
     (case parse_factor schema end_pos depth toks of
        Inl e \<Rightarrow> Inl e
      | Inr (left, toks') \<Rightarrow> seq_rest schema end_pos depth left toks')"
| "seq_rest schema end_pos depth left toks =
     (if (case peek toks of
            Some (TWord _ _) \<Rightarrow> True | Some TOpen \<Rightarrow> True | Some TNot \<Rightarrow> True | _ \<Rightarrow> False) then
        (case parse_factor schema end_pos depth toks of
           Inl e \<Rightarrow> Inl e
         | Inr (right, toks') \<Rightarrow> seq_rest schema end_pos depth (And left right) toks')
      else Inr (left, toks))"
| "parse_factor schema end_pos depth toks =
     (case parse_term schema end_pos depth toks of
        Inl e \<Rightarrow> Inl e
      | Inr (left, toks') \<Rightarrow> factor_rest schema end_pos depth left toks')"
| "factor_rest schema end_pos depth left toks =
     (case toks of
        (_, TOr) # toks1 \<Rightarrow>
          (case parse_term schema end_pos depth toks1 of
             Inl e \<Rightarrow> Inl e
           | Inr (right, toks') \<Rightarrow> factor_rest schema end_pos depth (Or left right) toks')
      | _ \<Rightarrow> Inr (left, toks))"
| "parse_term schema end_pos depth toks =
     (case toks of
        (_, TNot) # toks1 \<Rightarrow>
          (case parse_term schema end_pos (depth + 1) toks1 of
             Inl e \<Rightarrow> Inl e
           | Inr (e, toks') \<Rightarrow> Inr (Not e, toks'))
      | (p, TOpen) # toks1 \<Rightarrow>
          (case parse_expr schema end_pos (depth + 1) toks1 of
             Inl e \<Rightarrow> Inl e
           | Inr (inner, toks') \<Rightarrow>
               if peek toks' \<noteq> Some TClose then filter_err p ''the parenthesis is not closed''
               else Inr (inner, tl toks'))
      | _ \<Rightarrow> restriction schema end_pos toks)"
  by pat_completeness auto

text \<open>Every operand takes a token, which is what makes the loops end.\<close>

termination
proof -
  have consumes:
    "parse_expr_expr_rest_parse_seq_seq_rest_parse_factor_factor_rest_parse_term_dom (Inl (Inl (a0, a1, a2, a3))) \<Longrightarrow>
       \<forall>e r. parse_expr a0 a1 a2 a3 = Inr (e, r) \<longrightarrow> length r < length a3"
    "parse_expr_expr_rest_parse_seq_seq_rest_parse_factor_factor_rest_parse_term_dom (Inl (Inr (Inl (a4, a5, a6, a7, a8)))) \<Longrightarrow>
       \<forall>e r. expr_rest a4 a5 a6 a7 a8 = Inr (e, r) \<longrightarrow> length r \<le> length a8"
    "parse_expr_expr_rest_parse_seq_seq_rest_parse_factor_factor_rest_parse_term_dom (Inl (Inr (Inr (a9, a10, a11, a12)))) \<Longrightarrow>
       \<forall>e r. parse_seq a9 a10 a11 a12 = Inr (e, r) \<longrightarrow> length r < length a12"
    "parse_expr_expr_rest_parse_seq_seq_rest_parse_factor_factor_rest_parse_term_dom (Inr (Inl (Inl (a13, a14, a15, a16, a17)))) \<Longrightarrow>
       \<forall>e r. seq_rest a13 a14 a15 a16 a17 = Inr (e, r) \<longrightarrow> length r \<le> length a17"
    "parse_expr_expr_rest_parse_seq_seq_rest_parse_factor_factor_rest_parse_term_dom (Inr (Inl (Inr (a18, a19, a20, a21)))) \<Longrightarrow>
       \<forall>e r. parse_factor a18 a19 a20 a21 = Inr (e, r) \<longrightarrow> length r < length a21"
    "parse_expr_expr_rest_parse_seq_seq_rest_parse_factor_factor_rest_parse_term_dom (Inr (Inr (Inl (a22, a23, a24, a25, a26)))) \<Longrightarrow>
       \<forall>e r. factor_rest a22 a23 a24 a25 a26 = Inr (e, r) \<longrightarrow> length r \<le> length a26"
    "parse_expr_expr_rest_parse_seq_seq_rest_parse_factor_factor_rest_parse_term_dom (Inr (Inr (Inr (a27, a28, a29, a30)))) \<Longrightarrow>
       \<forall>e r. parse_term a27 a28 a29 a30 = Inr (e, r) \<longrightarrow> length r < length a30"
    for a0 a1 a2 a3 a4 a5 a6 a7 a8 a9 a10 a11 a12 a13 a14 a15 a16 a17 a18 a19 a20 a21 a22 a23 a24 a25 a26 a27 a28 a29 a30
  proof (induction rule: parse_expr_expr_rest_parse_seq_seq_rest_parse_factor_factor_rest_parse_term.pinduct)
    case (1 schema end_pos depth toks)
    then show ?case
      by (fastforce simp: parse_expr.psimps filter_err_def split: if_splits sum.splits)
  next
    case (2 schema end_pos depth left toks)
    then show ?case
      by (fastforce simp: expr_rest.psimps split: list.splits prod.splits tok.splits sum.splits)
  next
    case (3 schema end_pos depth toks)
    then show ?case
      by (fastforce simp: parse_seq.psimps split: sum.splits)
  next
    case (4 schema end_pos depth left toks)
    then show ?case
      by (fastforce simp: seq_rest.psimps split: if_splits sum.splits)
  next
    case (5 schema end_pos depth toks)
    then show ?case
      by (fastforce simp: parse_factor.psimps split: sum.splits)
  next
    case (6 schema end_pos depth left toks)
    then show ?case
      by (fastforce simp: factor_rest.psimps split: list.splits prod.splits tok.splits sum.splits)
  next
    case (7 schema end_pos depth toks)
    then show ?case
      by (fastforce simp: parse_term.psimps filter_err_def dest: restriction_length
          split: list.splits prod.splits tok.splits sum.splits if_splits)
  qed
  show ?thesis
    by (relation "measure (\<lambda>x. case x of
      Inl (Inl (_, _, _, toks)) \<Rightarrow> 4 * length toks + 3
    | Inl (Inr (Inl (_, _, _, _, toks))) \<Rightarrow> 4 * length toks
    | Inl (Inr (Inr (_, _, _, toks))) \<Rightarrow> 4 * length toks + 2
    | Inr (Inl (Inl (_, _, _, _, toks))) \<Rightarrow> 4 * length toks + 2
    | Inr (Inl (Inr (_, _, _, toks))) \<Rightarrow> 4 * length toks + 1
    | Inr (Inr (Inl (_, _, _, _, toks))) \<Rightarrow> 4 * length toks
    | Inr (Inr (Inr (_, _, _, toks))) \<Rightarrow> 4 * length toks)")
       (fastforce dest: consumes)+
qed

declare parse_expr.simps [simp del] expr_rest.simps [simp del] parse_seq.simps [simp del]
  seq_rest.simps [simp del] parse_factor.simps [simp del] factor_rest.simps [simp del]
  parse_term.simps [simp del]

definition parse_filter :: "json option \<Rightarrow> string \<Rightarrow> filter_error + expr" where
  "parse_filter schema text =
     (if length text > MAX_LEN then
        filter_err MAX_LEN (''a filter is at most '' @ show_nat MAX_LEN @ '' characters'')
      else
        and_then (tokens text) (\<lambda>toks.
          if toks = [] then filter_err 0 ''the filter is empty; leave it out to list everything''
          else and_then (parse_expr schema (length text) 0 toks) (\<lambda>(e, rest).
            if rest \<noteq> [] then
              filter_err (tok_pos (length text) rest) ''unexpected text; join terms with AND or OR''
            else Inr e)))"

subsection \<open>Matching\<close>

datatype ordering = Less | Equal | Greater

record 'f float_ops =
  num_f64 :: "string \<Rightarrow> 'f option"
  parse_f64 :: "string \<Rightarrow> 'f option"
  partial_cmp :: "'f \<Rightarrow> 'f \<Rightarrow> ordering option"

definition as_f64 :: "'f float_ops \<Rightarrow> json \<Rightarrow> 'f option" where
  "as_f64 fl v = (case v of JNumber n \<Rightarrow> num_f64 fl n | _ \<Rightarrow> None)"

definition str_cmp :: "string \<Rightarrow> string \<Rightarrow> ordering" where
  "str_cmp a b = (if a < b then Less else if a = b then Equal else Greater)"

fun text_of :: "json \<Rightarrow> string option" where
  "text_of (JString s) = Some s"
| "text_of (JNumber n) = Some n"
| "text_of (JBool b) = Some (if b then ''true'' else ''false'')"
| "text_of _ = None"

definition compare :: "'f float_ops \<Rightarrow> json \<Rightarrow> string \<Rightarrow> ordering option" where
  "compare fl v want =
     (case (as_f64 fl v, parse_f64 fl want) of
        (Some a, Some b) \<Rightarrow> partial_cmp fl a b
      | _ \<Rightarrow> map_option (\<lambda>t. str_cmp t want) (text_of v))"

definition step_into :: "string \<Rightarrow> json \<Rightarrow> json list" where
  "step_into segment v =
     (case v of
        JArray items \<Rightarrow> List.map_filter (jget segment) items
      | other \<Rightarrow> (case jget segment other of None \<Rightarrow> [] | Some x \<Rightarrow> [x]))"

definition values_at :: "json \<Rightarrow> string list \<Rightarrow> json list" where
  "values_at doc path =
     filter (\<lambda>v. v \<noteq> JNull)
       (concat (map (\<lambda>v. case v of JArray items \<Rightarrow> items | other \<Rightarrow> [other])
         (foldl (\<lambda>current segment. concat (map (step_into segment) current)) [doc] path)))"

fun eval_cmp :: "'f float_ops \<Rightarrow> op \<Rightarrow> string option \<Rightarrow> json list \<Rightarrow> bool" where
  "eval_cmp fl Has None found = (found \<noteq> [])"
| "eval_cmp fl Has (Some want) found =
     list_ex (\<lambda>v. case v of
                  JObject m \<Rightarrow> bt_get m want \<noteq> None
                | other \<Rightarrow> text_of other = Some want) found"
| "eval_cmp fl Ne (Some want) found = (\<not> list_ex (\<lambda>v. text_of v = Some want) found)"
| "eval_cmp fl op (Some want) found =
     list_ex (\<lambda>v.
       let order = compare fl v want in
       (case op of
          Eq \<Rightarrow> order = Some Equal
        | Lt \<Rightarrow> order = Some Less
        | Le \<Rightarrow> order = Some Less \<or> order = Some Equal
        | Gt \<Rightarrow> order = Some Greater
        | _ \<Rightarrow> order = Some Greater \<or> order = Some Equal)) found"
| "eval_cmp fl op None found = False"

fun eval :: "'f float_ops \<Rightarrow> expr \<Rightarrow> json \<Rightarrow> bool" where
  "eval fl (And a b) doc = (eval fl a doc \<and> eval fl b doc)"
| "eval fl (Or a b) doc = (eval fl a doc \<or> eval fl b doc)"
| "eval fl (Not a) doc = (\<not> eval fl a doc)"
| "eval fl (Cmp path op v) doc = eval_cmp fl op v (values_at doc path)"

subsection \<open>Order\<close>

record order_by =
  ob_path :: "string list"
  ob_descending :: bool

definition default_order :: order_by where
  "default_order = \<lparr>ob_path = [''metadata'', ''name''], ob_descending = False\<rparr>"

definition parse_order :: "json option \<Rightarrow> string \<Rightarrow> filter_error + order_by" where
  "parse_order schema text =
     (case split_whitespace text of
        [] \<Rightarrow> Inr default_order
      | field # words \<Rightarrow>
          and_then
            (case words of
               [] \<Rightarrow> Inr False
             | w # _ \<Rightarrow>
                 if w = ''asc'' then Inr False
                 else if w = ''desc'' then Inr True
                 else filter_err (length field + 1) (backtick w @ '' is not asc or desc''))
            (\<lambda>descending.
              if length words > 1 then
                filter_err 0 ''orderBy takes one field, optionally followed by desc''
              else
                (case field_path field of
                   Some p \<Rightarrow>
                     if known schema p then Inr \<lparr>ob_path = p, ob_descending = descending\<rparr>
                     else filter_err 0 (backtick field @ '' is not a field of this kind'')
                 | None \<Rightarrow> filter_err 0 (backtick field @ '' is not a field of this kind''))))"

definition by_name_alone :: order_by where
  "by_name_alone = \<lparr>ob_path = [], ob_descending = False\<rparr>"

definition key_of :: "order_by \<Rightarrow> json \<Rightarrow> json" where
  "key_of order doc =
     (if ob_path order = [] then JNull
      else (case values_at doc (ob_path order) of [] \<Rightarrow> JNull | v # _ \<Rightarrow> v))"

fun reverse_ordering :: "ordering \<Rightarrow> ordering" where
  "reverse_ordering Less = Greater"
| "reverse_ordering Equal = Equal"
| "reverse_ordering Greater = Less"

definition then_cmp :: "ordering \<Rightarrow> ordering \<Rightarrow> ordering" where
  "then_cmp a b = (if a = Equal then b else a)"

text \<open>\<open>Ord\<close> of an \<open>Option\<close>: \<open>None\<close> is below every \<open>Some\<close>.\<close>

fun opt_cmp :: "string option \<Rightarrow> string option \<Rightarrow> ordering" where
  "opt_cmp None None = Equal"
| "opt_cmp None (Some b) = Less"
| "opt_cmp (Some a) None = Greater"
| "opt_cmp (Some a) (Some b) = str_cmp a b"

definition key_cmp :: "'f float_ops \<Rightarrow> json \<Rightarrow> json \<Rightarrow> ordering" where
  "key_cmp fl x y =
     (case (as_f64 fl x, as_f64 fl y) of
        (Some a, Some b) \<Rightarrow> unwrap_or Equal (partial_cmp fl a b)
      | _ \<Rightarrow> opt_cmp (text_of x) (text_of y))"

definition order_cmp :: "'f float_ops \<Rightarrow> order_by \<Rightarrow> json \<times> string \<Rightarrow> json \<times> string \<Rightarrow> ordering" where
  "order_cmp fl order a b =
     (if fst a = JNull \<and> fst b \<noteq> JNull then Greater
      else if fst a \<noteq> JNull \<and> fst b = JNull then Less
      else
        let keys = (if fst a = JNull \<and> fst b = JNull then Equal else key_cmp fl (fst a) (fst b))
        in then_cmp (if ob_descending order then reverse_ordering keys else keys) (str_cmp (snd a) (snd b)))"

end
