(* ===== verification/FilterGrammar.thy ===== *)
theory FilterGrammar
  imports ListFilter
begin

text \<open>
  What the filter parser of \<open>src/resource/filter.rs\<close> accepts: every expression over the fields of
  a kind has a text that parses back to it, with parentheses only where the precedence needs them,
  and whatever parses names fields of the kind alone.
\<close>

subsection \<open>Printing\<close>

text \<open>The tokens of an expression where an \<open>expr\<close> (0), a \<open>factor\<close> (1) or a \<open>term\<close> (2) stands.\<close>

definition value_tok :: "string option \<Rightarrow> tok" where
  "value_tok v = (case v of None \<Rightarrow> TWord ''*'' False | Some w \<Rightarrow> TWord w True)"

fun pr :: "nat \<Rightarrow> expr \<Rightarrow> tok list" where
  "pr l (And a b) =
     (if l = 0 then pr 0 a @ TAnd # pr 1 b else TOpen # pr 0 a @ TAnd # pr 1 b @ [TClose])"
| "pr l (Or a b) =
     (if l \<le> 1 then pr 1 a @ TOr # pr 2 b else TOpen # pr 1 a @ TOr # pr 2 b @ [TClose])"
| "pr l (Not a) = TNot # pr 2 a"
| "pr l (Cmp path op v) = [TWord (str_join ''.'' path) False, TOp op, value_tok v]"

text \<open>Whether the nesting stays within the parser's limit, which it tests at parentheses.\<close>

fun fits :: "nat \<Rightarrow> nat \<Rightarrow> expr \<Rightarrow> bool" where
  "fits d l (And a b) =
     (if l = 0 then fits d 0 a \<and> fits d 1 b
      else d < MAX_DEPTH \<and> fits (d + 1) 0 a \<and> fits (d + 1) 1 b)"
| "fits d l (Or a b) =
     (if l \<le> 1 then fits d 1 a \<and> fits d 2 b
      else d < MAX_DEPTH \<and> fits (d + 1) 1 a \<and> fits (d + 1) 2 b)"
| "fits d l (Not a) = fits (d + 1) 2 a"
| "fits d l (Cmp path op v) = True"

text \<open>Fields as the parser writes them into an expression, and known to the kind.\<close>

definition path_ok :: "json option \<Rightarrow> string list \<Rightarrow> bool" where
  "path_ok schema path \<longleftrightarrow>
     path \<noteq> [] \<and> hd path \<noteq> ''labels'' \<and> list_all (\<lambda>p. p \<noteq> [] \<and> CHR ''.'' \<notin> set p) path \<and>
     known schema path"

fun expr_ok :: "json option \<Rightarrow> expr \<Rightarrow> bool" where
  "expr_ok schema (And a b) \<longleftrightarrow> expr_ok schema a \<and> expr_ok schema b"
| "expr_ok schema (Or a b) \<longleftrightarrow> expr_ok schema a \<and> expr_ok schema b"
| "expr_ok schema (Not a) \<longleftrightarrow> expr_ok schema a"
| "expr_ok schema (Cmp path op v) \<longleftrightarrow> path_ok schema path \<and> (v = None \<longrightarrow> op = Has)"

lemma split_of_join:
  "xs \<noteq> [] \<Longrightarrow> list_all (\<lambda>x. d \<notin> set x) xs \<Longrightarrow> str_split d (str_join [d] xs) = xs"
  by (induction "[d]" xs rule: str_join.induct) (simp_all add: str_split_no_delim str_split_append)

lemma field_path_join: "path_ok schema path \<Longrightarrow> field_path (str_join ''.'' path) = Some path"
  using split_of_join [of path "CHR ''.''"]
  by (auto simp: path_ok_def field_path_def list_all_iff)

subsection \<open>Parsing what is printed\<close>

definition stops :: "toks \<Rightarrow> bool" where
  "stops toks \<longleftrightarrow>
     (case peek toks of
        Some (TWord _ _) \<Rightarrow> False | Some TOpen \<Rightarrow> False | Some TNot \<Rightarrow> False | Some TOr \<Rightarrow> False
      | _ \<Rightarrow> True)"

lemma stops_and [simp]: "stops ((p, TAnd) # toks)" and stops_close [simp]: "stops ((p, TClose) # toks)"
  and stops_nil [simp]: "stops []"
  by (simp_all add: stops_def peek_def)

lemma seq_rest_stops: "stops vs \<Longrightarrow> seq_rest schema n d e vs = Inr (e, vs)"
  by (auto simp: seq_rest.simps stops_def split: option.splits tok.splits)

lemma factor_rest_stops: "stops vs \<Longrightarrow> factor_rest schema n d e vs = Inr (e, vs)"
  by (auto simp: factor_rest.simps stops_def peek_def split: list.splits tok.splits)

lemma factor_rest_other: "peek vs \<noteq> Some TOr \<Longrightarrow> factor_rest schema n d e vs = Inr (e, vs)"
  by (auto simp: factor_rest.simps peek_def split: list.splits tok.splits)

definition parses_expr where
  "parses_expr schema n e \<longleftrightarrow>
     (\<forall>d us vs. map snd us = pr 0 e \<longrightarrow> d \<le> MAX_DEPTH \<longrightarrow> fits d 0 e \<longrightarrow> stops vs \<longrightarrow>
        parse_expr schema n d (us @ vs) = expr_rest schema n d e vs)"

lemma parses_exprD:
  "parses_expr schema n e \<Longrightarrow> map snd us = pr 0 e \<Longrightarrow> d \<le> MAX_DEPTH \<Longrightarrow> fits d 0 e \<Longrightarrow> stops vs \<Longrightarrow>
   parse_expr schema n d (us @ vs) = expr_rest schema n d e vs"
  by (simp add: parses_expr_def)

definition parses_factor where
  "parses_factor schema n e \<longleftrightarrow>
     (\<forall>d us vs. map snd us = pr 1 e \<longrightarrow> fits d 1 e \<longrightarrow>
        parse_factor schema n d (us @ vs) = factor_rest schema n d e vs)"

definition parses_term where
  "parses_term schema n e \<longleftrightarrow>
     (\<forall>d us vs. map snd us = pr 2 e \<longrightarrow> fits d 2 e \<longrightarrow> parse_term schema n d (us @ vs) = Inr (e, vs))"

lemma factor_of_term:
  assumes "parses_term schema n e" and "pr 1 e = pr 2 e" and "\<And>d. fits d 1 e = fits d 2 e"
  shows "parses_factor schema n e"
  using assms by (simp add: parses_factor_def parses_term_def parse_factor.simps)

lemma expr_of_factor:
  assumes "parses_factor schema n e" and "pr 0 e = pr 1 e" and "\<And>d. fits d 0 e = fits d 1 e"
  shows "parses_expr schema n e"
  using assms
  by (simp add: parses_expr_def parses_factor_def parse_expr.simps parse_seq.simps factor_rest_stops seq_rest_stops)

lemma parse_seq_factor:
  assumes "parses_factor schema n e" and "map snd us = pr 1 e" and "fits d 1 e" and "stops vs"
  shows "parse_seq schema n d (us @ vs) = Inr (e, vs)"
  using assms by (simp add: parses_factor_def parse_seq.simps factor_rest_stops seq_rest_stops)

lemma term_of_expr:
  assumes "parses_expr schema n e" and "pr 2 e = TOpen # pr 0 e @ [TClose]"
    and "\<And>d. fits d 2 e \<Longrightarrow> d < MAX_DEPTH \<and> fits (d + 1) 0 e"
  shows "parses_term schema n e"
proof -
  have "parse_term schema n d (us @ vs) = Inr (e, vs)" if us: "map snd us = pr 2 e" and f: "fits d 2 e"
    for d us vs
  proof -
    obtain p q ws where ws: "us = (p, TOpen) # ws @ [(q, TClose)]" "map snd ws = pr 0 e"
      using us assms(2) by (auto simp: map_eq_append_conv map_eq_Cons_conv)
    then have "parse_expr schema n (d + 1) (ws @ (q, TClose) # vs) = Inr (e, (q, TClose) # vs)"
      using assms(1) assms(3) [OF f] by (simp add: parses_expr_def expr_rest.simps)
    then show ?thesis using ws by (simp add: parse_term.simps peek_def)
  qed
  then show ?thesis by (simp add: parses_term_def)
qed

lemma parse_printed:
  "expr_ok schema e \<Longrightarrow> parses_expr schema n e \<and> parses_factor schema n e \<and> parses_term schema n e"
proof (induction e)
  case (And a b)
  have "parse_expr schema n d (us @ vs) = expr_rest schema n d (And a b) vs"
    if us: "map snd us = pr 0 (And a b)" and d: "d \<le> MAX_DEPTH" "fits d 0 (And a b)" and vs: "stops vs"
    for d us vs
  proof -
    obtain ua p ub where u: "us = ua @ (p, TAnd) # ub" "map snd ua = pr 0 a" "map snd ub = pr 1 b"
      using us by (auto simp: map_eq_append_conv map_eq_Cons_conv)
    then have "parse_expr schema n d (us @ vs) = expr_rest schema n d a ((p, TAnd) # ub @ vs)"
      using And d by (simp add: parses_expr_def)
    also have "\<dots> = expr_rest schema n d (And a b) vs"
      using And d u vs parse_seq_factor [of schema n b ub d vs] by (subst expr_rest.simps) simp
    finally show ?thesis .
  qed
  then have e: "parses_expr schema n (And a b)" by (simp add: parses_expr_def)
  have t: "parses_term schema n (And a b)" by (rule term_of_expr [OF e]) auto
  show ?case using e t factor_of_term [OF t] by simp
next
  case (Or a b)
  have "parse_factor schema n d (us @ vs) = factor_rest schema n d (Or a b) vs"
    if us: "map snd us = pr 1 (Or a b)" and d: "fits d 1 (Or a b)" for d us vs
  proof -
    obtain ua p ub where u: "us = ua @ (p, TOr) # ub" "map snd ua = pr 1 a" "map snd ub = pr 2 b"
      using us by (auto simp: map_eq_append_conv map_eq_Cons_conv)
    then have "parse_factor schema n d (us @ vs) = factor_rest schema n d a ((p, TOr) # ub @ vs)"
      using Or d by (simp add: parses_factor_def)
    also have "\<dots> = factor_rest schema n d (Or a b) vs"
      using Or d u by (subst factor_rest.simps) (simp add: parses_term_def)
    finally show ?thesis .
  qed
  then have f: "parses_factor schema n (Or a b)" by (simp add: parses_factor_def)
  have e: "parses_expr schema n (Or a b)" by (rule expr_of_factor [OF f]) simp_all
  have "parses_term schema n (Or a b)" by (rule term_of_expr [OF e]) auto
  with e f show ?case by simp
next
  case (Not a)
  then have t: "parses_term schema n (Not a)"
    by (auto simp: parses_term_def map_eq_Cons_conv parse_term.simps)
  have f: "parses_factor schema n (Not a)" by (rule factor_of_term [OF t]) simp_all
  show ?case using t f expr_of_factor [OF f] by simp
next
  case (Cmp path op v)
  have t: "parses_term schema n (Cmp path op v)"
    using Cmp field_path_join [of schema path]
    by (auto simp: parses_term_def map_eq_Cons_conv parse_term.simps restriction_def peek_def
        value_tok_def path_ok_def split: option.splits)
  have f: "parses_factor schema n (Cmp path op v)" by (rule factor_of_term [OF t]) simp_all
  show ?case using t f expr_of_factor [OF f] by simp
qed

subsection \<open>The text of tokens\<close>

definition one_char :: "string \<Rightarrow> bool" where
  "one_char ch \<longleftrightarrow> ch \<noteq> [] \<and> length ch = utf8_len (hd ch)"

definition utf8_ok :: "string \<Rightarrow> bool" where
  "utf8_ok s \<longleftrightarrow> list_all one_char (rchars s)"

lemma rchars_concat: "list_all one_char chs \<Longrightarrow> rchars (concat chs) = chs"
proof (induction chs)
  case (Cons ch chs)
  obtain c cs where c: "ch = c # cs" "utf8_len c - 1 = length cs"
    using Cons.prems by (cases ch) (auto simp: one_char_def)
  with Cons show ?case by simp
qed simp

definition escaped :: "string \<Rightarrow> string list" where
  "escaped ch = (if ch = [CHR 0x22] \<or> ch = [CHR 0x5C] then [[CHR 0x5C], ch] else [ch])"

fun op_chars :: "op \<Rightarrow> string list" where
  "op_chars Eq = [''='']"
| "op_chars Ne = [''!'', ''='']"
| "op_chars Lt = [''<'']"
| "op_chars Le = [''<'', ''='']"
| "op_chars Gt = [''>'']"
| "op_chars Ge = [''>'', ''='']"
| "op_chars Has = ['':'']"

fun tok_chars :: "tok \<Rightarrow> string list" where
  "tok_chars TOpen = [''('']"
| "tok_chars TClose = ['')'']"
| "tok_chars (TOp op) = op_chars op"
| "tok_chars TAnd = [''A'', ''N'', ''D'']"
| "tok_chars TOr = [''O'', ''R'']"
| "tok_chars TNot = [''N'', ''O'', ''T'']"
| "tok_chars (TWord w is_quoted) =
     (if is_quoted then [CHR 0x22] # concat (map escaped (rchars w)) @ [[CHR 0x22]] else rchars w)"

definition toks_chars :: "tok list \<Rightarrow> string list" where
  "toks_chars ts = concat (map (\<lambda>t. tok_chars t @ ['' '']) ts)"

definition print_expr :: "expr \<Rightarrow> string" where
  "print_expr e = concat (toks_chars (pr 0 e))"

definition plain_char :: "string \<Rightarrow> bool" where
  "plain_char ch \<longleftrightarrow> \<not> is_whitespace ch \<and> ch \<notin> set SPECIAL"

fun tok_ok :: "tok \<Rightarrow> bool" where
  "tok_ok (TWord w is_quoted) \<longleftrightarrow>
     utf8_ok w \<and>
     (is_quoted \<or> w \<noteq> [] \<and> w \<notin> {''AND'', ''OR'', ''NOT''} \<and> list_all plain_char (rchars w))"
| "tok_ok _ \<longleftrightarrow> True"

lemma is_whitespace_space [simp]: "is_whitespace '' ''"
  by (simp add: is_whitespace_def unicode_ws_def)

lemma plain_letters:
  "plain_char ''A''" "plain_char ''N''" "plain_char ''D''" "plain_char ''O''" "plain_char ''R''" "plain_char ''T''"
  by (simp_all add: plain_char_def SPECIAL_def is_whitespace_def unicode_ws_def image_iff)

lemma special_not_whitespace: "c \<in> set SPECIAL \<Longrightarrow> \<not> is_whitespace c"
  by (auto simp: SPECIAL_def is_whitespace_def unicode_ws_def)

lemma bare_plain:
  assumes "list_all plain_char ws" and "map snd us = ws" and "\<not> plain_char c"
  shows "bare acc (us @ (p, c) # vs) = (acc @ concat ws, (p, c) # vs)"
  using assms
proof (induction ws arbitrary: us acc)
  case (Cons w ws)
  then show ?case by (auto simp: map_eq_Cons_conv plain_char_def)
qed (auto simp: plain_char_def)

lemma quoted_escaped:
  "map snd us = concat (map escaped ws) @ [[CHR 0x22]] \<Longrightarrow> quoted pos acc (us @ vs) = Inr (acc @ concat ws, vs)"
proof (induction ws arbitrary: us acc)
  case (Cons w ws)
  then show ?case by (auto simp: escaped_def map_eq_Cons_conv split: if_splits)
qed (auto simp: map_eq_Cons_conv)

lemma word_tok_plain:
  assumes "list_all plain_char ws" and "ws \<noteq> []" and "map snd us = ws"
  shows "\<exists>pos. tokens_from (us @ (p, '' '') # vs) = push pos (word_tok (concat ws)) (tokens_from ((p, '' '') # vs))"
proof -
  obtain pos c us' ws' where us: "us = (pos, c) # us'" "ws = c # ws'" "map snd us' = ws'"
    using assms by (cases ws) (auto simp: map_eq_Cons_conv)
  have c: "plain_char c" using assms(1) us by simp
  have "bare [] (us @ (p, '' '') # vs) = (concat ws, (p, '' '') # vs)"
    using bare_plain [OF assms(1,3), of "'' ''" "[]"] by (simp add: plain_char_def)
  then have "tokens_from (us @ (p, '' '') # vs) = push pos (word_tok (concat ws)) (tokens_from ((p, '' '') # vs))"
    using c us by (simp add: tokens_from.simps(2) plain_char_def SPECIAL_def)
  then show ?thesis by blast
qed

lemma tokens_skip_space: "tokens_from ((p, '' '') # vs) = tokens_from vs"
  by (simp add: tokens_from.simps(2))

lemma tokens_from_tok:
  assumes "tok_ok t" and "map snd us = tok_chars t"
  shows "\<exists>pos. tokens_from (us @ (p, '' '') # vs) = push pos t (tokens_from ((p, '' '') # vs))"
proof (cases t)
  case (TWord w q)
  show ?thesis
  proof (cases q)
    case True
    then obtain pos us' where us: "us = (pos, [CHR 0x22]) # us'"
        "map snd us' = concat (map escaped (rchars w)) @ [[CHR 0x22]]"
      using assms(2) TWord by (auto simp: map_eq_Cons_conv)
    then show ?thesis
      using quoted_escaped [OF us(2), of pos "[]" "(p, '' '') # vs"] True TWord
        special_not_whitespace [of "[CHR 0x22]"]
      by (simp add: tokens_from.simps(2) SPECIAL_def) blast
  next
    case False
    then have w: "rchars w \<noteq> []" "list_all plain_char (rchars w)" "word_tok w = TWord w False"
      using assms(1) TWord by (auto simp: word_tok_def elim: rchars.elims)
    then show ?thesis using word_tok_plain [OF w(2,1), of us p vs] assms(2) TWord False by simp
  qed
next
  case (TOp op)
  then show ?thesis
    using assms(2) special_not_whitespace
    by (cases op) (auto simp: map_eq_Cons_conv tokens_from.simps(2) next_is_def SPECIAL_def)
next
  case TAnd
  then show ?thesis
    using word_tok_plain [of "tok_chars t" us p vs] assms(2) by (simp add: plain_letters word_tok_def)
next
  case TOr
  then show ?thesis
    using word_tok_plain [of "tok_chars t" us p vs] assms(2) by (simp add: plain_letters word_tok_def)
next
  case TNot
  then show ?thesis
    using word_tok_plain [of "tok_chars t" us p vs] assms(2) by (simp add: plain_letters word_tok_def)
qed (use assms(2) special_not_whitespace in
      \<open>auto simp: map_eq_Cons_conv tokens_from.simps(2) SPECIAL_def\<close>)

lemma tokens_of_chars:
  "list_all tok_ok ts \<Longrightarrow> map snd chars = toks_chars ts \<Longrightarrow>
   \<exists>toks. tokens_from chars = Inr toks \<and> map snd toks = ts"
proof (induction ts arbitrary: chars)
  case (Cons t ts)
  obtain us p vs where c: "chars = us @ (p, '' '') # vs" "map snd us = tok_chars t" "map snd vs = toks_chars ts"
    using Cons.prems(2) by (auto simp: toks_chars_def map_eq_append_conv map_eq_Cons_conv)
  obtain pos where "tokens_from chars = push pos t (tokens_from vs)"
    using tokens_from_tok [OF _ c(2)] Cons.prems(1) c(1) tokens_skip_space by fastforce
  with Cons.IH [of vs] Cons.prems(1) c(3) show ?case by (auto simp: push_def)
qed (simp add: toks_chars_def)

lemma map_snd_char_indices: "map snd (char_indices_from n chs) = chs"
  by (induction chs arbitrary: n) simp_all

lemma one_char_ascii: "of_char c < (0xC0::nat) \<Longrightarrow> one_char [c]"
  by (simp add: one_char_def utf8_len_def)

lemma one_char_tok: "tok_ok t \<Longrightarrow> list_all one_char (tok_chars t)"
proof (cases t)
  case (TOp op)
  then show ?thesis by (cases op) (simp_all add: one_char_ascii)
qed (auto simp: one_char_ascii utf8_ok_def list_all_iff escaped_def)

lemma rchars_toks:
  assumes "list_all tok_ok ts"
  shows "rchars (concat (toks_chars ts)) = toks_chars ts"
proof (rule rchars_concat)
  show "list_all one_char (toks_chars ts)"
    using assms one_char_tok by (fastforce simp: toks_chars_def list_all_iff one_char_ascii)
qed

lemma pr_not_Nil [simp]: "pr l e \<noteq> []"
  by (cases e) simp_all

subsection \<open>What parses names fields of the kind\<close>

lemma field_path_ok: "field_path field = Some path \<Longrightarrow> known schema path \<Longrightarrow> path_ok schema path"
  using str_split_not_Nil [of "CHR ''.''" field] str_split_parts [of _ "CHR ''.''" field]
  by (auto simp: field_path_def path_ok_def list_all_iff Let_def split: if_splits)

lemma restriction_ok: "restriction schema n toks = Inr (e, rest) \<Longrightarrow> expr_ok schema e"
  by (auto simp: restriction_def filter_err_def Let_def field_path_ok
      split: tok.splits bool.splits option.splits if_splits)

lemma parse_ok:
  "parse_expr schema n d toks = Inr (e, r) \<Longrightarrow> expr_ok schema e"
  "expr_rest schema n d left toks = Inr (e, r) \<Longrightarrow> expr_ok schema left \<Longrightarrow> expr_ok schema e"
  "parse_seq schema n d toks = Inr (e, r) \<Longrightarrow> expr_ok schema e"
  "seq_rest schema n d left toks = Inr (e, r) \<Longrightarrow> expr_ok schema left \<Longrightarrow> expr_ok schema e"
  "parse_factor schema n d toks = Inr (e, r) \<Longrightarrow> expr_ok schema e"
  "factor_rest schema n d left toks = Inr (e, r) \<Longrightarrow> expr_ok schema left \<Longrightarrow> expr_ok schema e"
  "parse_term schema n d toks = Inr (e, r) \<Longrightarrow> expr_ok schema e"
proof (induction schema n d toks and schema n d left toks and schema n d toks and schema n d left toks
    and schema n d toks and schema n d left toks and schema n d toks arbitrary: e r and e r and e r and e r and e r and e r and e r
    rule: parse_expr_expr_rest_parse_seq_seq_rest_parse_factor_factor_rest_parse_term.induct)
  case (1 schema n d toks)
  then show ?case
    by (fastforce simp: parse_expr.simps [of schema n d toks] filter_err_def split: if_splits sum.splits)
next
  case (2 schema n d left toks)
  then show ?case
    by (fastforce simp: expr_rest.simps [of schema n d left toks]
        split: list.splits prod.splits tok.splits sum.splits)
next
  case (3 schema n d toks)
  then show ?case
    by (fastforce simp: parse_seq.simps [of schema n d toks] split: sum.splits)
next
  case (4 schema n d left toks)
  then show ?case
    by (fastforce simp: seq_rest.simps [of schema n d left toks] split: if_splits sum.splits)
next
  case (5 schema n d toks)
  then show ?case
    by (fastforce simp: parse_factor.simps [of schema n d toks] split: sum.splits)
next
  case (6 schema n d left toks)
  then show ?case
    by (fastforce simp: factor_rest.simps [of schema n d left toks]
        split: list.splits prod.splits tok.splits sum.splits)
next
  case (7 schema n d toks)
  then show ?case
    by (fastforce simp: parse_term.simps [of schema n d toks] filter_err_def dest: restriction_ok
        split: list.splits prod.splits tok.splits sum.splits if_splits)
qed

subsection \<open>Whole texts\<close>

lemma parse_printed_text:
  assumes "expr_ok schema e" and "list_all tok_ok (pr 0 e)"
    and "fits 0 0 e" and "length (print_expr e) \<le> MAX_LEN"
  shows "parse_filter schema (print_expr e) = Inr e"
proof -
  obtain toks where toks: "tokens (print_expr e) = Inr toks" "map snd toks = pr 0 e"
    using tokens_of_chars [OF assms(2), of "char_indices (print_expr e)"] rchars_toks [OF assms(2)]
    by (auto simp: tokens_def char_indices_def print_expr_def map_snd_char_indices)
  then have "parse_expr schema n 0 toks = Inr (e, [])" for n
    using parse_printed [OF assms(1), of n] assms(3) parses_exprD [of schema n e toks 0 "[]"]
    by (simp add: expr_rest.simps)
  moreover have "toks \<noteq> []" using toks(2) by (metis list.simps(8) pr_not_Nil)
  ultimately show ?thesis using toks assms(4) by (simp add: parse_filter_def)
qed

definition demo_filter :: expr where
  "demo_filter =
     And (Or (Cmp [''spec'', ''schedule''] Has None) (Not (Cmp [''metadata'', ''labels'', ''team''] Eq (Some ''AND''))))
       (Cmp [''status'', ''phase''] Ne (Some [CHR 0x22, CHR 0x5C]))"

lemma whitespace_byte: "is_whitespace [c] \<longleftrightarrow> c \<in> {CHR 0x09, CHR 0x0A, CHR 0x0B, CHR 0x0C, CHR 0x0D, CHR 0x20}"
  by (auto simp: is_whitespace_def unicode_ws_def)

lemma demo_filter_ok:
  "expr_ok None demo_filter" "fits 0 0 demo_filter"
  "list_all tok_ok (pr 0 demo_filter)" "length (print_expr demo_filter) \<le> MAX_LEN"
     apply (simp add: demo_filter_def path_ok_def known_def)
    apply (simp add: demo_filter_def)
   apply (simp add: demo_filter_def value_tok_def utf8_ok_def rchars_ascii one_char_def utf8_len_def
     plain_char_def whitespace_byte SPECIAL_def)
  apply (simp add: demo_filter_def print_expr_def toks_chars_def value_tok_def rchars_ascii utf8_len_def escaped_def MAX_LEN_def)
  done

subsection \<open>Properties\<close>

text \<open>Property C29. Every filter has a text: an expression over the kind's fields, printed with
  parentheses only where OR under NOT or AND under OR needs them, is parsed back as that very
  expression, however its values are spelled (quotes, backslashes, keywords and UTF-8 included),
  when the text is short enough and no parenthesis is deeper than the limit.\<close>

theorem filter_text_roundtrip:
  assumes "expr_ok schema e" and "list_all tok_ok (pr 0 e)"
    and "fits 0 0 e" and "length (print_expr e) \<le> MAX_LEN"
  shows "parse_filter schema (print_expr e) = Inr e"
  using assms by (rule parse_printed_text)

theorem filter_text_roundtrip_witness:
  "parse_filter None (print_expr demo_filter) = Inr demo_filter"
  by (rule filter_text_roundtrip [OF demo_filter_ok(1,3,2,4)])

text \<open>Property C36. A filter that parses asks only what its kind has: every comparison of it names a
  field of the kind's schema by a path with no empty part, and a comparison without a value is the
  test for presence.\<close>

theorem parsed_filter_names_known_fields:
  assumes "parse_filter schema text = Inr e"
  shows "expr_ok schema e"
  using assms parse_ok(1)
  by (fastforce simp: parse_filter_def filter_err_def and_then_Inr_iff split: if_splits prod.splits)

theorem parsed_filter_names_known_fields_witness: "expr_ok None demo_filter"
  by (rule parsed_filter_names_known_fields [OF parse_printed_text [OF demo_filter_ok(1,3,2,4)]])

subsection \<open>Corners\<close>

text \<open>The limit is tested at parentheses only: forty negations in a row are within it.\<close>

lemma fits_negations: "fits d 2 ((Not ^^ n) (Cmp path op v))"
  by (induction n arbitrary: d) simp_all

lemma pr_negations: "pr l ((Not ^^ n) (Cmp path op v)) = replicate n TNot @ pr l (Cmp path op v)"
  by (induction n arbitrary: l) simp_all

lemma expr_ok_negations: "expr_ok schema ((Not ^^ n) e) = expr_ok schema e"
  by (induction n) simp_all

lemma negations_are_not_limited:
  "parse_filter None (print_expr ((Not ^^ 40) (Cmp [''kind''] Has None))) = Inr ((Not ^^ 40) (Cmp [''kind''] Has None))"
proof (rule parse_printed_text)
  show "expr_ok None ((Not ^^ 40) (Cmp [''kind''] Has None))"
    by (simp only: expr_ok_negations) (simp add: path_ok_def known_def)
  show "list_all tok_ok (pr 0 ((Not ^^ 40) (Cmp [''kind''] Has None)))"
    by (simp only: pr_negations)
       (simp add: list_all_iff value_tok_def utf8_ok_def rchars_ascii one_char_def utf8_len_def plain_char_def
         whitespace_byte SPECIAL_def)
  show "fits 0 0 ((Not ^^ 40) (Cmp [''kind''] Has None))"
    using fits_negations [of 1 39] by (simp add: numeral_eq_Suc)
  have "length (concat (concat (replicate n [''N'', ''O'', ''T'', '' '']))) = 4 * n" for n
    by (induction n) simp_all
  then show "length (print_expr ((Not ^^ 40) (Cmp [''kind''] Has None))) \<le> MAX_LEN"
    by (simp add: print_expr_def toks_chars_def pr_negations map_replicate value_tok_def rchars_ascii
        utf8_len_def MAX_LEN_def)
qed

text \<open>\<open>=\<close> compares a number as a number and \<open>!=\<close> as text, so a manifest can satisfy both.\<close>

lemma equal_and_unequal:
  assumes "num_f64 fl ''1'' = Some a" and "parse_f64 fl ''1.0'' = Some b" and "partial_cmp fl a b = Some Equal"
  shows "eval fl (And (Cmp [''spec''] Eq (Some ''1.0'')) (Cmp [''spec''] Ne (Some ''1.0'')))
    (JObject [(''spec'', JNumber ''1'')])"
  using assms by (simp add: values_at_def step_into_def compare_def as_f64_def)

end
