(* ===== verification/Listing.thy ===== *)
theory Listing
  imports ListFilter Judgements
begin

text \<open>
  The list of one kind (\<open>src/api/list_query.rs\<close>, and \<open>list\<close>, \<open>Listing::of\<close> and
  \<open>Listing::page\<close> of \<open>src/api/resources.rs\<close>): its parameters, the search, the cursor, the
  filter, the order and the cut into pages.

  What other crates do is the record \<open>codec\<close>: URL-safe base64, the keyed hash of the process,
  the digest of a listing's parts and serde's reading and writing of the cursor's body. The
  query string comes decoded (\<open>form_urlencoded\<close>), \<open>lower\<close> is \<open>str::to_lowercase\<close> and
  \<open>to_value\<close> serialises a manifest. \<open>sort_by\<close> is stable; on a comparison that is not an order
  its result is unspecified in Rust, and the theorems below assume an order.
\<close>

subsection \<open>The parameters of a list\<close>

definition MAX_LIMIT :: nat where
  "MAX_LIMIT = 1000"

definition MAX_Q :: nat where
  "MAX_Q = 200"

record sort_param =
  sp_field :: string
  sp_descending :: bool

definition sort_order_by :: "sort_param \<Rightarrow> string" where
  "sort_order_by s = (if sp_descending s then sp_field s @ '' desc'' else sp_field s)"

record list_query =
  lq_limit :: "nat option"
  lq_cursor :: "string option"
  lq_sort :: "sort_param option"
  lq_q :: "string option"
  lq_count :: bool

definition refused :: "string \<Rightarrow> string \<Rightarrow> api_error" where
  "refused field message =
     Invalid (''the list parameter '' @ backtick field @ '' is not valid: '' @ message)
       [field @ '': '' @ message]"

definition LIST_PARAMETERS :: "string list" where
  "LIST_PARAMETERS = [''limit'', ''cursor'', ''sort'', ''orderBy'', ''q'', ''count'']"

fun seen_once ::
    "(string \<times> string) list \<Rightarrow> (string \<times> string) list \<Rightarrow> api_error + (string \<times> string) list" where
  "seen_once seen [] = Inr seen"
| "seen_once seen ((name, v) # raw) =
     (if name \<in> set LIST_PARAMETERS then
        if name \<in> fst ` set seen then Inl (refused name ''send it once'')
        else seen_once (seen @ [(name, v)]) raw
      else seen_once seen raw)"

text \<open>\<open>str::parse\<close> of a \<open>usize\<close>: digits, after at most one plus sign, below \<open>2 ^ 64\<close>.\<close>

definition parse_usize :: "string \<Rightarrow> nat option" where
  "parse_usize s =
     (let ds = (case s of c # cs \<Rightarrow> if c = CHR ''+'' then cs else s | [] \<Rightarrow> s)
      in if ds \<noteq> [] \<and> list_all is_ascii_digit ds \<and> digits_value ds < 2 ^ 64
         then Some (digits_value ds) else None)"

definition field_ok :: "string \<Rightarrow> bool" where
  "field_ok field \<longleftrightarrow>
     field \<noteq> [] \<and>
     list_all (\<lambda>part. part \<noteq> [] \<and> list_all (\<lambda>c. is_ascii_alphanumeric c \<or> c = CHR ''_'') part)
       (str_split (CHR ''.'') field)"

definition sort_of :: "string \<Rightarrow> string \<Rightarrow> api_error + sort_param option" where
  "sort_of text name =
     (if text = [] then Inr None
      else
        let (field, descending) =
              (case strip_prefix ''-'' text of Some rest \<Rightarrow> (rest, True) | None \<Rightarrow> (text, False))
        in if \<not> field_ok field then
             Inl (refused name ''must be one field, `-` in front for descending, e.g. sort=-metadata.name'')
           else Inr (Some \<lparr>sp_field = field, sp_descending = descending\<rparr>))"

definition order_by_of :: "string \<Rightarrow> api_error + sort_param option" where
  "order_by_of text =
     (let field_with = (\<lambda>w descending.
            and_then (sort_of w ''orderBy'') (\<lambda>s.
              Inr (map_option (\<lambda>s. \<lparr>sp_field = sp_field s, sp_descending = descending\<rparr>) s)))
      in case split_whitespace text of
           [] \<Rightarrow> Inr None
         | [w] \<Rightarrow> field_with w False
         | [w, d] \<Rightarrow>
             if d = ''asc'' then field_with w False
             else if d = ''desc'' then field_with w True
             else Inl (refused ''orderBy''
               ''must be one field, optionally followed by asc or desc, e.g. orderBy=metadata.name desc'')
         | _ \<Rightarrow> Inl (refused ''orderBy''
               ''must be one field, optionally followed by asc or desc, e.g. orderBy=metadata.name desc''))"

definition parse_limit :: "string option \<Rightarrow> api_error + nat option" where
  "parse_limit l =
     (case l of
        None \<Rightarrow> Inr None
      | Some text \<Rightarrow>
          (case parse_usize text of
             Some n \<Rightarrow>
               if 1 \<le> n \<and> n \<le> MAX_LIMIT then Inr (Some n)
               else Inl (refused ''limit'' ''must be a whole number from 1 to 1000, e.g. limit=50'')
           | None \<Rightarrow> Inl (refused ''limit'' ''must be a whole number from 1 to 1000, e.g. limit=50'')))"

definition parse_list_query ::
    "(string \<Rightarrow> string) \<Rightarrow> (string \<times> string) list \<Rightarrow> api_error + list_query" where
  "parse_list_query lower raw =
     and_then (seen_once [] raw) (\<lambda>seen.
       let get = (\<lambda>name. map_option str_trim (map_of seen name)) in
       and_then (parse_limit (get ''limit'')) (\<lambda>lim.
       and_then
         (case (get ''sort'', get ''orderBy'') of
            (Some _, Some _) \<Rightarrow>
              Inl (refused ''orderBy'' ''send sort or orderBy, not both; sort replaces orderBy'')
          | (Some text, None) \<Rightarrow> sort_of text ''sort''
          | (None, Some text) \<Rightarrow> order_by_of text
          | (None, None) \<Rightarrow> Inr None) (\<lambda>srt.
       and_then
         (case get ''q'' of
            Some text \<Rightarrow>
              if length (rchars text) > MAX_Q then
                Inl (refused ''q'' ''must be at most 200 characters, e.g. q=air'')
              else if text \<noteq> [] then Inr (Some (lower text)) else Inr None
          | None \<Rightarrow> Inr None) (\<lambda>q.
       and_then
         (case get ''count'' of
            None \<Rightarrow> Inr False
          | Some c \<Rightarrow>
              if c = ''false'' then Inr False
              else if c = ''true'' then Inr True
              else Inl (refused ''count'' ''must be true or false, e.g. count=true'')) (\<lambda>count.
       Inr \<lparr>lq_limit = lim,
            lq_cursor = (case get ''cursor'' of None \<Rightarrow> None | Some c \<Rightarrow> if c = [] then None else Some c),
            lq_sort = srt, lq_q = q, lq_count = count\<rparr>)))))"

fun visit_text :: "json \<Rightarrow> string list" and visit_items :: "json list \<Rightarrow> string list"
  and visit_members :: "(string \<times> json) list \<Rightarrow> string list" where
  "visit_text (JString text) = [text]"
| "visit_text (JArray its) = visit_items its"
| "visit_text (JObject members) = visit_members members"
| "visit_text _ = []"
| "visit_items [] = []"
| "visit_items (v # vs) = visit_text v @ visit_items vs"
| "visit_members [] = []"
| "visit_members ((k, v) # m) = visit_text v @ visit_members m"

definition finds :: "(string \<Rightarrow> string) \<Rightarrow> list_query \<Rightarrow> json \<Rightarrow> bool" where
  "finds lower lq doc =
     (case lq_q lq of
        None \<Rightarrow> True
      | Some q \<Rightarrow>
          list_ex (\<lambda>place.
            (case pointer place doc of
               None \<Rightarrow> False
             | Some v \<Rightarrow> list_ex (\<lambda>text. str_contains q (lower text)) (visit_text v)))
            [[''metadata'', ''name''], [''metadata'', ''title''], [''metadata'', ''labels''], [''spec'']])"

subsection \<open>The cursor\<close>

record cursor_body =
  cb_query :: string
  cb_key :: json
  cb_name :: string

record codec =
  b64_encode :: "string \<Rightarrow> string"
  b64_decode :: "string \<Rightarrow> string option"
  cursor_mac :: "string \<Rightarrow> string"
  digest :: "string \<Rightarrow> string"
  body_to_vec :: "cursor_body \<Rightarrow> string"
  body_from_slice :: "string \<Rightarrow> cursor_body option"

definition listing_id :: "codec \<Rightarrow> list_query \<Rightarrow> string option list \<Rightarrow> string" where
  "listing_id cd lq parts =
     b64_encode cd (digest cd
       (concat (map (\<lambda>part. unwrap_or [] part @ [CHR 0x00])
         (parts @ [map_option sort_order_by (lq_sort lq), lq_q lq]))))"

definition seal :: "codec \<Rightarrow> string \<Rightarrow> json \<Rightarrow> string \<Rightarrow> string" where
  "seal cd lid key name =
     (let payload = b64_encode cd (body_to_vec cd \<lparr>cb_query = lid, cb_key = key, cb_name = name\<rparr>)
      in payload @ ''.'' @ b64_encode cd (cursor_mac cd payload))"

definition cursor_refused :: api_error where
  "cursor_refused = refused ''cursor''
     ''is not one this listing handed out: list again without cursor, with the same filter, sort and q''"

definition open_cursor :: "codec \<Rightarrow> string \<Rightarrow> string \<Rightarrow> api_error + (json \<times> string)" where
  "open_cursor cd text lid =
     (case split_once ''.'' text of
        None \<Rightarrow> Inl cursor_refused
      | Some (payload, tag) \<Rightarrow>
          (case b64_decode cd tag of
             None \<Rightarrow> Inl cursor_refused
           | Some tag \<Rightarrow>
               if tag \<noteq> cursor_mac cd payload then Inl cursor_refused
               else
                 (case Option.bind (b64_decode cd payload) (body_from_slice cd) of
                    None \<Rightarrow> Inl cursor_refused
                  | Some body \<Rightarrow>
                      if cb_query body \<noteq> lid then Inl cursor_refused
                      else Inr (cb_key body, cb_name body))))"

subsection \<open>One listing\<close>

record kind_list_query =
  kq_filter :: "string option"
  kq_label_selector :: "string option"
  kq_field_selector :: "string option"
  kq_continue :: "string option"
  kq_revision :: "string option"
  kq_workspace :: "string option"

record listing =
  ls_filter :: "expr option"
  ls_paging :: list_query
  ls_order :: order_by
  ls_after :: "(json \<times> string) option"
  ls_id :: string

definition listing_of ::
    "codec \<Rightarrow> json option \<Rightarrow> list_query \<Rightarrow> kind_list_query \<Rightarrow> string \<Rightarrow> order_by \<Rightarrow> string option list \<Rightarrow>
     api_error + listing" where
  "listing_of cd schema paging query kind fallback parts =
     (let filter_text = map_option str_trim (kq_filter query) in
      and_then
        (case filter_text of
           Some text \<Rightarrow>
             if text \<noteq> [] then
               (case parse_filter schema text of
                  Inl e \<Rightarrow> Inl (BadRequest (filter_error_text e))
                | Inr f \<Rightarrow> Inr (Some f))
             else Inr None
         | None \<Rightarrow> Inr None) (\<lambda>flt.
      and_then
        (case lq_sort paging of
           None \<Rightarrow> Inr fallback
         | Some srt \<Rightarrow>
             (case parse_order schema (sort_order_by srt) of
                Inl e \<Rightarrow>
                  Inl (Unprocessable
                    (''sort names '' @ backtick (sp_field srt) @ '', which a '' @ kind @ '' does not have'')
                    [''sort: '' @ fe_message e])
              | Inr order \<Rightarrow> Inr order)) (\<lambda>order.
      let lid = listing_id cd paging
            (parts @ [filter_text, kq_label_selector query, kq_field_selector query,
              kq_workspace query, kq_revision query]) in
      and_then
        (case (lq_cursor paging, kq_continue query) of
           (Some _, Some _) \<Rightarrow>
             Inl (BadRequest ''send cursor or continue, not both; cursor replaces continue'')
         | (None, Some _) \<Rightarrow>
             if order \<noteq> default_order then
               Inl (BadRequest ''continue pages by metadata.name only; page a sort with cursor'')
             else Inr None
         | (Some text, None) \<Rightarrow>
             (case open_cursor cd text lid of Inl e \<Rightarrow> Inl e | Inr after \<Rightarrow> Inr (Some after))
         | (None, None) \<Rightarrow> Inr None) (\<lambda>after.
      Inr \<lparr>ls_filter = flt, ls_paging = paging, ls_order = order, ls_after = after, ls_id = lid\<rparr>))))"

record resource_list =
  rl_continue :: "string option"
  rl_remaining :: "nat option"
  rl_items :: "envelope list"
  rl_next_cursor :: "string option"
  rl_total_count :: "nat option"

type_synonym row = "(json \<times> string) \<times> envelope"

fun insert_row :: "(json \<times> string \<Rightarrow> json \<times> string \<Rightarrow> ordering) \<Rightarrow> row \<Rightarrow> row list \<Rightarrow> row list" where
  "insert_row cmp r [] = [r]"
| "insert_row cmp r (s # rs) =
     (if cmp (fst r) (fst s) = Greater then s # insert_row cmp r rs else r # s # rs)"

definition sort_rows :: "(json \<times> string \<Rightarrow> json \<times> string \<Rightarrow> ordering) \<Rightarrow> row list \<Rightarrow> row list" where
  "sort_rows cmp rs = foldr (insert_row cmp) rs []"

text \<open>The rows of a listing: what its filter and its search keep, with the key and the name that
  breaks a tie.\<close>

definition listed_rows ::
    "'f float_ops \<Rightarrow> (string \<Rightarrow> string) \<Rightarrow> (envelope \<Rightarrow> string + json) \<Rightarrow> listing \<Rightarrow>
     (string \<times> envelope) list \<Rightarrow> row list" where
  "listed_rows fl lower to_value ls readable =
     List.map_filter (\<lambda>(tie, env).
       (case to_value env of
          Inl _ \<Rightarrow> None
        | Inr doc \<Rightarrow>
            if is_none_or (\<lambda>f. eval fl f doc) (ls_filter ls) \<and> finds lower (ls_paging ls) doc
            then Some ((key_of (ls_order ls) doc, tie), env) else None)) readable"

definition behind_cursor ::
    "(json \<times> string \<Rightarrow> json \<times> string \<Rightarrow> ordering) \<Rightarrow> (json \<times> string) option \<Rightarrow> row list \<Rightarrow> row list" where
  "behind_cursor cmp after ordered =
     (case after of None \<Rightarrow> ordered | Some a \<Rightarrow> filter (\<lambda>r. cmp (fst r) a = Greater) ordered)"

definition page ::
    "codec \<Rightarrow> 'f float_ops \<Rightarrow> (string \<Rightarrow> string) \<Rightarrow> (envelope \<Rightarrow> string + json) \<Rightarrow> listing \<Rightarrow>
     (string \<times> envelope) list \<Rightarrow> string option \<Rightarrow> resource_list" where
  "page cd fl lower to_value ls readable continue_with =
     (let cmp = order_cmp fl (ls_order ls);
          found = listed_rows fl lower to_value ls readable;
          total_count = (if lq_count (ls_paging ls) then Some (length found) else None);
          ordered = sort_rows cmp found;
          behind = behind_cursor cmp (ls_after ls) ordered;
          rest = (case continue_with of
                    None \<Rightarrow> behind
                  | Some token \<Rightarrow> filter (\<lambda>r. token < meta_name (metadata (snd r))) behind);
          total = length rest;
          lim = unwrap_or total (lq_limit (ls_paging ls));
          cut = take lim rest;
          more = total > lim;
          last_row = (if cut \<noteq> [] \<and> more then Some (last cut) else None)
      in \<lparr>rl_continue = map_option (\<lambda>r. meta_name (metadata (snd r))) last_row,
          rl_remaining = (if more then Some (total - lim) else None),
          rl_items = map snd cut,
          rl_next_cursor = map_option (\<lambda>r. seal cd (ls_id ls) (fst (fst r)) (snd (fst r))) last_row,
          rl_total_count = total_count\<rparr>)"

definition selector_error_text :: "selector_error \<Rightarrow> string" where
  "selector_error_text e =
     (case e of
        Malformed s \<Rightarrow> ''malformed selector: '' @ s
      | UnknownField s \<Rightarrow> ''unknown field: '' @ s)"

definition optional_selector ::
    "(string \<Rightarrow> selector_error + 'a) \<Rightarrow> string option \<Rightarrow> api_error + 'a option" where
  "optional_selector parse raw =
     (case raw of
        None \<Rightarrow> Inr None
      | Some text \<Rightarrow>
          if str_trim text \<noteq> [] then
            (case parse text of
               Inl e \<Rightarrow> Inl (BadRequest (selector_error_text e))
             | Inr sel \<Rightarrow> Inr (Some sel))
          else Inr None)"

text \<open>The handler. The caller's permissions are read from the same mirror as the list
  (\<open>permissions::for_request\<close>). \<open>mirror_in\<close> is the mirror with a workspace's branch over it and
  \<open>mirror_at\<close> the project at a revision; both read the forge, outside this model. \<open>paging\<close> is
  what the extractor made of the query string.\<close>

definition list_resources ::
    "jc_core \<Rightarrow> codec \<Rightarrow> 'f float_ops \<Rightarrow> (string \<Rightarrow> string) \<Rightarrow> (envelope \<Rightarrow> string + json) \<Rightarrow>
     (string \<Rightarrow> json option) \<Rightarrow> (mirror \<Rightarrow> string \<Rightarrow> api_error + mirror) \<Rightarrow>
     (mirror \<Rightarrow> string \<Rightarrow> api_error + mirror) \<Rightarrow> mirror \<Rightarrow> string \<Rightarrow> identity \<Rightarrow> int \<Rightarrow> string \<Rightarrow> string \<Rightarrow>
     api_error + list_query \<Rightarrow> kind_list_query \<Rightarrow> api_error + resource_list" where
  "list_resources jc cd fl lower to_value schema_of mirror_in mirror_at m boot identity now project plural paging query =
     (let not_found = NotFound (''plural '' @ apostrophe @ plural @ apostrophe @ '' not found in project '' @
            apostrophe @ project @ apostrophe) in
      case by_plural (jc_names jc) plural of
        None \<Rightarrow> Inl not_found
      | Some info \<Rightarrow>
          let eff = effective_of jc m boot identity project now in
          if \<not> may_read_some jc eff (ki_kind info) then Inl not_found
          else
            and_then paging (\<lambda>lq.
            and_then (optional_selector label_selector_parse (kq_label_selector query)) (\<lambda>labels.
            and_then (optional_selector field_selector_parse (kq_field_selector query)) (\<lambda>fields.
            and_then (listing_of cd (schema_of (ki_kind info)) lq query (ki_kind info) default_order
                [Some (id_subject identity), Some project, Some plural]) (\<lambda>ls.
            and_then
              (case (kq_workspace query, kq_revision query) of
                 (Some _, Some _) \<Rightarrow> Inl (BadRequest ''read a workspace or a revision, not both'')
               | (Some name, None) \<Rightarrow> mirror_in m name
               | (None, Some revision) \<Rightarrow> mirror_at m revision
               | (None, None) \<Rightarrow> Inr m) (\<lambda>source.
            let opts = \<lparr>label_selector = labels, field_selector = fields, limit = None, continue_token = None\<rparr>;
                readable = filter (may_read_envelope jc to_value eff (ki_kind info))
                  (items (list_page_of source project (ki_kind info) opts))
            in Inr (page cd fl lower to_value ls
                 (map (\<lambda>env. (meta_name (metadata env), env)) readable) (kq_continue query))))))))"

subsection \<open>Orders and pages\<close>

definition row_less :: "(json \<times> string \<Rightarrow> json \<times> string \<Rightarrow> ordering) \<Rightarrow> row \<Rightarrow> row \<Rightarrow> bool" where
  "row_less cmp a b \<longleftrightarrow> cmp (fst a) (fst b) = Less"

text \<open>What paging asks of a comparison: on the keys a listing holds it is an order, and rows of
  different names are never equal.\<close>

locale list_order =
  fixes cmp :: "json \<times> string \<Rightarrow> json \<times> string \<Rightarrow> ordering"
    and row_ok :: "json \<times> string \<Rightarrow> bool"
  assumes cmp_reverse: "row_ok a \<Longrightarrow> row_ok b \<Longrightarrow> cmp b a = reverse_ordering (cmp a b)"
    and cmp_trans: "row_ok a \<Longrightarrow> row_ok b \<Longrightarrow> row_ok c \<Longrightarrow>
      cmp a b = Less \<Longrightarrow> cmp b c = Less \<Longrightarrow> cmp a c = Less"
    and cmp_names: "row_ok a \<Longrightarrow> row_ok b \<Longrightarrow> cmp a b = Equal \<Longrightarrow> snd a = snd b"
begin

lemma set_insert_row: "set (insert_row cmp r rs) = insert r (set rs)"
  by (induction rs) auto

lemma set_sort_rows: "set (sort_rows cmp rs) = set rs"
  by (induction rs) (auto simp: sort_rows_def set_insert_row)

lemma length_sort_rows: "length (sort_rows cmp rs) = length rs"
proof -
  have "length (insert_row cmp r xs) = Suc (length xs)" for r xs by (induction xs) auto
  then show ?thesis by (induction rs) (simp_all add: sort_rows_def)
qed

lemma insert_row_sorted:
  assumes "sorted_wrt (row_less cmp) rs" and "row_ok (fst r)" and "\<And>s. s \<in> set rs \<Longrightarrow> row_ok (fst s)"
    and "\<And>s. s \<in> set rs \<Longrightarrow> snd (fst s) \<noteq> snd (fst r)"
  shows "sorted_wrt (row_less cmp) (insert_row cmp r rs)"
  using assms
proof (induction rs)
  case (Cons s rs)
  show ?case
  proof (cases "cmp (fst r) (fst s)")
    case Greater
    then have "row_less cmp s r" using cmp_reverse [of "fst r" "fst s"] Cons.prems by (simp add: row_less_def)
    with Greater Cons show ?thesis by (auto simp: set_insert_row)
  next
    case Less
    then have "row_less cmp r x" if "x \<in> set (s # rs)" for x
      using that Cons.prems cmp_trans [of "fst r" "fst s" "fst x"] by (auto simp: row_less_def)
    with Less Cons.prems show ?thesis by simp
  next
    case Equal
    then show ?thesis
      using cmp_names [of "fst r" "fst s"] Cons.prems(2) Cons.prems(3,4) [of s] by simp
  qed
qed simp

lemma sort_rows_sorted:
  assumes "\<And>r. r \<in> set rs \<Longrightarrow> row_ok (fst r)" and "distinct (map (\<lambda>r. snd (fst r)) rs)"
  shows "sorted_wrt (row_less cmp) (sort_rows cmp rs)"
  using assms
proof (induction rs)
  case (Cons r rs)
  have "sorted_wrt (row_less cmp) (insert_row cmp r (sort_rows cmp rs))"
  proof (rule insert_row_sorted)
    show "sorted_wrt (row_less cmp) (sort_rows cmp rs)" using Cons by simp
    show "row_ok (fst r)" using Cons.prems(1) by simp
    fix s assume "s \<in> set (sort_rows cmp rs)"
    then have s: "s \<in> set rs" by (simp add: set_sort_rows)
    then show "row_ok (fst s)" using Cons.prems(1) by simp
    from s have "snd (fst s) \<in> (\<lambda>r. snd (fst r)) ` set rs" by (rule imageI)
    moreover have "snd (fst r) \<notin> (\<lambda>r. snd (fst r)) ` set rs" using Cons.prems(2) by simp
    ultimately show "snd (fst s) \<noteq> snd (fst r)" by metis
  qed
  then show ?case by (simp add: sort_rows_def)
qed (simp add: sort_rows_def)

text \<open>What comes after a row of a sorted list is the rest of the list.\<close>

lemma filter_after:
  assumes "sorted_wrt (row_less cmp) xs" and "\<And>r. r \<in> set xs \<Longrightarrow> row_ok (fst r)" and "i < length xs"
  shows "filter (\<lambda>r. cmp (fst r) (fst (xs ! i)) = Greater) xs = drop (Suc i) xs"
proof -
  have lower: "cmp (fst r) (fst (xs ! i)) \<noteq> Greater" if mem: "r \<in> set (take (Suc i) xs)" for r
  proof -
    obtain j where "j < length (take (Suc i) xs)" "r = take (Suc i) xs ! j"
      using mem unfolding in_set_conv_nth by blast
    then have j: "j \<le> i" "r = xs ! j" by simp_all
    show ?thesis
    proof (cases "j = i")
      case True
      then show ?thesis
        using cmp_reverse [of "fst r" "fst r"] assms(2) [of r] assms(3) j
        by (cases "cmp (fst r) (fst r)") auto
    next
      case False
      then show ?thesis
        using j assms(3) sorted_wrt_nth_less [OF assms(1), of j i] by (simp add: row_less_def)
    qed
  qed
  have upper: "cmp (fst r) (fst (xs ! i)) = Greater" if mem: "r \<in> set (drop (Suc i) xs)" for r
  proof -
    obtain j where "j < length xs - Suc i" "r = xs ! (Suc i + j)"
      using mem by (auto simp: in_set_conv_nth)
    then have "row_less cmp (xs ! i) r" "r \<in> set xs"
      using sorted_wrt_nth_less [OF assms(1), of i "Suc i + j"] by auto
    then show ?thesis
      using cmp_reverse [of "fst (xs ! i)" "fst r"] assms(2,3) by (simp add: row_less_def)
  qed
  have "filter (\<lambda>r. cmp (fst r) (fst (xs ! i)) = Greater) (take (Suc i) xs @ drop (Suc i) xs) = drop (Suc i) xs"
    using lower upper by (simp add: filter_empty_conv filter_id_conv del: append_take_drop_id)
  then show ?thesis by simp
qed

end

text \<open>Rows whose keys are text, or that have none, in either direction: what a listing by name, and
  a sort by any text field, holds.\<close>

definition text_row :: "json \<times> string \<Rightarrow> bool" where
  "text_row a \<longleftrightarrow> fst a = JNull \<or> (\<exists>s. fst a = JString s)"

lemma reverse_str_cmp [simp]: "reverse_ordering (str_cmp a b) = str_cmp b a"
  by (auto simp: str_cmp_def)

lemma str_cmp_iff:
  "str_cmp a b = Less \<longleftrightarrow> a < b" "str_cmp a b = Equal \<longleftrightarrow> a = b" "str_cmp a b = Greater \<longleftrightarrow> b < a"
  by (auto simp: str_cmp_def)

lemma order_cmp_text:
  assumes "text_row a" and "text_row b"
  shows "order_cmp fl order a b =
    (case (fst a, fst b) of
       (JString s, JString t) \<Rightarrow>
         then_cmp (if ob_descending order then str_cmp t s else str_cmp s t) (str_cmp (snd a) (snd b))
     | (JString s, _) \<Rightarrow> Less
     | (_, JString t) \<Rightarrow> Greater
     | _ \<Rightarrow> str_cmp (snd a) (snd b))"
  using assms
  by (auto simp: text_row_def order_cmp_def key_cmp_def as_f64_def then_cmp_def Let_def)

interpretation text_order: list_order "order_cmp fl order" text_row for fl order
proof
  fix a b :: "json \<times> string"
  assume ok: "text_row a" "text_row b"
  show "order_cmp fl order b a = reverse_ordering (order_cmp fl order a b)"
    using ok by (auto simp: order_cmp_text) (auto simp: text_row_def then_cmp_def str_cmp_def)
  show "order_cmp fl order a b = Equal \<Longrightarrow> snd a = snd b"
    using ok by (auto simp: order_cmp_text) (auto simp: text_row_def then_cmp_def str_cmp_def split: if_splits)
next
  fix a b c :: "json \<times> string"
  assume ok: "text_row a" "text_row b" "text_row c"
  then show "order_cmp fl order a b = Less \<Longrightarrow> order_cmp fl order b c = Less \<Longrightarrow> order_cmp fl order a c = Less"
    by (auto simp: order_cmp_text) (auto simp: text_row_def then_cmp_def str_cmp_iff split: if_splits)
qed

text \<open>What the listing relies on of base64 and serde: what is written is read back (here of bodies
  with a text key or none), and no dot is in a base64 text.\<close>

definition codec_laws :: "codec \<Rightarrow> bool" where
  "codec_laws cd \<longleftrightarrow>
     (\<forall>s. b64_decode cd (b64_encode cd s) = Some s) \<and>
     (\<forall>s. CHR ''.'' \<notin> set (b64_encode cd s)) \<and>
     (\<forall>b. text_row (cb_key b, cb_name b) \<longrightarrow> body_from_slice cd (body_to_vec cd b) = Some b)"

lemma open_sealed:
  "codec_laws cd \<Longrightarrow> text_row (key, name) \<Longrightarrow> open_cursor cd (seal cd lid key name) lid' =
     (if lid = lid' then Inr (key, name) else Inl cursor_refused)"
  using split_once_char [of "CHR ''.''"]
  by (simp add: codec_laws_def open_cursor_def seal_def Let_def)

text \<open>Following the cursors from page to page, with fuel for the number of pages.\<close>

fun drain_listing ::
    "nat \<Rightarrow> codec \<Rightarrow> 'f float_ops \<Rightarrow> (string \<Rightarrow> string) \<Rightarrow> (envelope \<Rightarrow> string + json) \<Rightarrow> listing \<Rightarrow>
     (string \<times> envelope) list \<Rightarrow> envelope list" where
  "drain_listing 0 cd fl lower to_value ls readable = []"
| "drain_listing (Suc fuel) cd fl lower to_value ls readable =
     (let p = page cd fl lower to_value ls readable None
      in rl_items p @
         (case rl_next_cursor p of
            None \<Rightarrow> []
          | Some text \<Rightarrow>
              (case open_cursor cd text (ls_id ls) of
                 Inl _ \<Rightarrow> []
               | Inr after \<Rightarrow> drain_listing fuel cd fl lower to_value (ls\<lparr>ls_after := Some after\<rparr>) readable)))"

lemma listed_rows_after [simp]:
  "listed_rows fl lower to_value (ls\<lparr>ls_after := a\<rparr>) readable = listed_rows fl lower to_value ls readable"
  by (simp add: listed_rows_def cong: sum.case_cong if_cong)

text \<open>One page of a listing whose rows after the cursor are the list from position \<open>k\<close> on.\<close>

lemma page_from:
  assumes "behind_cursor (order_cmp fl (ls_order ls)) (ls_after ls) ordered = drop k ordered"
    and "ordered = sort_rows (order_cmp fl (ls_order ls)) (listed_rows fl lower to_value ls readable)"
    and "lq_limit (ls_paging ls) = Some lim" and "0 < lim"
  shows "rl_items (page cd fl lower to_value ls readable None) = map snd (take lim (drop k ordered))"
    and "rl_next_cursor (page cd fl lower to_value ls readable None) =
      (if k + lim < length ordered
       then Some (seal cd (ls_id ls) (fst (fst (ordered ! (k + lim - 1)))) (snd (fst (ordered ! (k + lim - 1)))))
       else None)"
proof -
  show "rl_items (page cd fl lower to_value ls readable None) = map snd (take lim (drop k ordered))"
    using assms(1,3,4) by (simp add: page_def Let_def unwrap_or_def assms(2) [symmetric])
  let ?y = "ordered ! (k + lim - 1)"
  have last: "last (take lim (drop k ordered)) = ?y" if "k + lim < length ordered"
    using that assms(4) by (subst last_conv_nth) auto
  have "rl_next_cursor (page cd fl lower to_value ls readable None) =
      map_option (\<lambda>r. seal cd (ls_id ls) (fst (fst r)) (snd (fst r)))
        (if take lim (drop k ordered) \<noteq> [] \<and> length (drop k ordered) > lim
         then Some (last (take lim (drop k ordered))) else None)"
    using assms(1,3) by (simp add: page_def Let_def unwrap_or_def assms(2) [symmetric])
  also have "\<dots> = (if k + lim < length ordered
      then Some (seal cd (ls_id ls) (fst (fst ?y)) (snd (fst ?y))) else None)"
  proof (cases "k + lim < length ordered")
    case True
    then have "length (drop k ordered) > lim" "take lim (drop k ordered) \<noteq> []" using assms(4) by auto
    with True last show ?thesis by (simp only: if_True HOL.simp_thms option.map)
  qed auto
  finally show "rl_next_cursor (page cd fl lower to_value ls readable None) =
      (if k + lim < length ordered
       then Some (seal cd (ls_id ls) (fst (fst ?y)) (snd (fst ?y))) else None)" .
qed

lemma drain_from:
  fixes fl order
  assumes "codec_laws cd"
    and "ordered = sort_rows (order_cmp fl order) found"
    and "\<And>r. r \<in> set found \<Longrightarrow> text_row (fst r)" and "distinct (map (\<lambda>r. snd (fst r)) found)"
    and "ls_order ls = order" and "listed_rows fl lower to_value ls readable = found"
    and "behind_cursor (order_cmp fl order) (ls_after ls) ordered = drop k ordered"
    and "lq_limit (ls_paging ls) = Some lim" and "0 < lim" and "length ordered < k + fuel"
  shows "drain_listing fuel cd fl lower to_value ls readable = map snd (drop k ordered)"
  using assms(5-8,10)
proof (induction fuel arbitrary: ls k)
  case (Suc fuel)
  have ord: "ordered = sort_rows (order_cmp fl (ls_order ls)) (listed_rows fl lower to_value ls readable)"
    using assms(2) Suc.prems by simp
  have rest: "behind_cursor (order_cmp fl (ls_order ls)) (ls_after ls) ordered = drop k ordered"
    using Suc.prems by simp
  note p = page_from [OF rest ord Suc.prems(4) assms(9)]
  show ?case
  proof (cases "k + lim < length ordered")
    case True
    let ?i = "k + lim - 1"
    let ?ls = "ls\<lparr>ls_after := Some (fst (ordered ! ?i))\<rparr>"
    have sorted: "sorted_wrt (row_less (order_cmp fl order)) ordered"
      using text_order.sort_rows_sorted [of found fl order] assms(2-4) by simp
    have "filter (\<lambda>r. order_cmp fl order (fst r) (fst (ordered ! ?i)) = Greater) ordered = drop (Suc ?i) ordered"
      using True assms(2,3) text_order.set_sort_rows [of fl order found]
      by (intro text_order.filter_after [OF sorted]) auto
    moreover have "Suc ?i = k + lim" using assms(9) by simp
    ultimately have "drain_listing fuel cd fl lower to_value ?ls readable = map snd (drop (k + lim) ordered)"
      using Suc.prems assms(9) by (intro Suc.IH) (auto simp: behind_cursor_def)
    moreover have "map snd (take lim (drop k ordered)) @ map snd (drop (k + lim) ordered) = map snd (drop k ordered)"
      by (metis add.commute append_take_drop_id drop_drop map_append)
    moreover have "ordered ! ?i \<in> set found"
      using True assms(2) text_order.set_sort_rows [of fl order found] nth_mem [of ?i ordered] by simp
    then have "text_row (fst (fst (ordered ! ?i)), snd (fst (ordered ! ?i)))" using assms(3) by simp
    note open_sealed [OF assms(1) this]
    ultimately show ?thesis using True p by (simp add: Let_def)
  next
    case False
    then show ?thesis using p by (simp add: Let_def)
  qed
qed simp

text \<open>A manifest the caller may not read leaves the rows the listing is made of unchanged.\<close>

lemma filter_bt_remove_refused:
  "bt_wf m \<Longrightarrow> bt_get m key = Some v \<Longrightarrow> \<not> P (key, v) \<Longrightarrow> filter P (bt_remove key m) = filter P m"
proof (induction m)
  case (Cons e m)
  have "bt_remove key m = m" if "fst e = key"
    using that Cons.prems(1) by (cases e) (auto simp: bt_remove_def bt_wf_Cons filter_id_conv)
  with Cons show ?case by (cases e) (auto simp: bt_remove_def bt_wf_Cons split: if_splits)
qed simp

lemma readable_remove:
  assumes "mirror_wf (jc_names jc) m" and "get m ns kind name = Some env" and "\<not> readable env"
    and "limit opts = None" and "continue_token opts = None"
  shows "filter readable (items (list_page_of (snd (remove (ResourceKey ns kind name) m)) ns' kind' opts)) =
    filter readable (items (list_page_of m ns' kind' opts))"
proof -
  let ?k = "ResourceKey ns kind name"
  have get: "bt_get (resources m) ?k = Some env" using assms(2) by (simp add: get_def)
  have wf: "bt_wf (resources m)" "bt_wf (resources (snd (remove ?k m)))"
    using assms(1) mirror_wf_remove [OF assms(1), of ?k] by (auto simp: mirror_wf_def)
  have "filter P (bt_remove ?k (resources m)) = filter P (resources m)" if "\<not> P (?k, env)" for P
    using filter_bt_remove_refused [OF wf(1) get] that by blast
  then show ?thesis
    using assms(3-5) wf
    by (simp add: list_page_of_def Let_def kind_where_eq remove_def filter_map o_def)
qed

lemma page_items:
  "set (rl_items (page cd fl lower to_value ls readable token)) \<subseteq> snd ` set readable"
proof -
  let ?cmp = "order_cmp fl (ls_order ls)" and ?found = "listed_rows fl lower to_value ls readable"
  have "set (insert_row ?cmp r rs) = insert r (set rs)" for r rs by (induction rs) auto
  then have sorted: "set (sort_rows ?cmp rs) = set rs" for rs
    by (induction rs) (simp_all add: sort_rows_def)
  let ?behind = "behind_cursor ?cmp (ls_after ls) (sort_rows ?cmp ?found)"
  let ?rest = "case token of None \<Rightarrow> ?behind | Some t \<Rightarrow> filter (\<lambda>r. t < meta_name (metadata (snd r))) ?behind"
  have rest: "set ?rest \<subseteq> set ?found"
    using sorted [of ?found] by (cases token; cases "ls_after ls") (auto simp: behind_cursor_def)
  obtain lim where items: "rl_items (page cd fl lower to_value ls readable token) = map snd (take lim ?rest)"
    by (simp add: page_def Let_def)
  have "set (take lim ?rest) \<subseteq> set ?found" by (rule subset_trans [OF set_take_subset rest])
  then have "set (rl_items (page cd fl lower to_value ls readable token)) \<subseteq> snd ` set ?found"
    unfolding items list.set_map by (rule image_mono)
  also have "\<dots> \<subseteq> snd ` set readable"
    by (force simp: listed_rows_def map_filter_Some_iff split: sum.splits if_splits)
  finally show ?thesis .
qed

text \<open>A field that holds numbers in some manifests and text in others is compared as numbers or as
  text pair by pair, which is not an order: 10 is below the text 5, that is below 9, and 9 is
  below 10.\<close>

lemma mixed_sort_is_cyclic:
  assumes "num_f64 fl ''9'' = Some a" and "num_f64 fl ''10'' = Some b" and "partial_cmp fl a b = Some Less"
    and "\<not> ob_descending order"
  shows "order_cmp fl order (JNumber ''10'', x) (JString ''5'', y) = Less \<and>
    order_cmp fl order (JString ''5'', y) (JNumber ''9'', z) = Less \<and>
    order_cmp fl order (JNumber ''9'', z) (JNumber ''10'', x) = Less"
  using assms
  by (simp add: order_cmp_def key_cmp_def as_f64_def then_cmp_def str_cmp_def unwrap_or_def)

text \<open>A cursor is opened only by the process that signed it and for the listing it names.\<close>

lemma open_cursor_signed:
  assumes "open_cursor cd text lid = Inr (key, name)"
  shows "\<exists>payload tag body. text = payload @ ''.'' @ tag \<and> b64_decode cd tag = Some (cursor_mac cd payload) \<and>
    Option.bind (b64_decode cd payload) (body_from_slice cd) = Some body \<and>
    cb_query body = lid \<and> cb_key body = key \<and> cb_name body = name"
  using assms
  by (fastforce simp: open_cursor_def dest: split_once_Some split: option.splits if_splits prod.splits)

subsection \<open>Properties\<close>

text \<open>Property C28. Following the cursors of a listing by a text field, from its first page to the
  last and whatever the page size, hands out every row of the listing exactly once and in its
  order: the pages together are the list without a limit, and the walk ends. The rows have
  distinct names, and the cursor's codecs read back what they wrote.\<close>

theorem cursor_walk_lists_every_row:
  assumes "codec_laws cd" and "ls_after ls = None"
    and "\<And>r. r \<in> set (listed_rows fl lower to_value ls readable) \<Longrightarrow> text_row (fst r)"
    and "distinct (map (\<lambda>r. snd (fst r)) (listed_rows fl lower to_value ls readable))"
    and "lq_limit (ls_paging ls) = Some lim" and "0 < lim"
    and "length (listed_rows fl lower to_value ls readable) < fuel"
  shows "drain_listing fuel cd fl lower to_value ls readable =
    map snd (sort_rows (order_cmp fl (ls_order ls)) (listed_rows fl lower to_value ls readable))"
  using drain_from [OF assms(1) refl assms(3,4) refl refl _ assms(5,6), of 0 fuel] assms(2,7)
    text_order.length_sort_rows [of fl "ls_order ls"]
  by (simp add: behind_cursor_def)

text \<open>A codec that keeps the laws: the bytes themselves with the dot written out, and strings with a
  mark before each byte and one at the end.\<close>

fun dotless :: "string \<Rightarrow> string" where
  "dotless [] = []"
| "dotless (c # s) = (if c = CHR ''.'' then ''-a'' else if c = CHR ''-'' then ''-b'' else [c]) @ dotless s"

fun dotted :: "string \<Rightarrow> string option" where
  "dotted [] = Some []"
| "dotted [c] = (if c = CHR ''-'' then None else Some [c])"
| "dotted (c # d # s) =
     (if c = CHR ''-'' then map_option (\<lambda>r. (if d = CHR ''a'' then CHR ''.'' else CHR ''-'') # r) (dotted s)
      else map_option (\<lambda>r. c # r) (dotted (d # s)))"

definition marked :: "string \<Rightarrow> string" where
  "marked s = concat (map (\<lambda>c. [CHR ''+'', c]) s) @ ''.''"

fun unmarked :: "string \<Rightarrow> (string \<times> string) option" where
  "unmarked (m # c # s) =
     (if m = CHR ''.'' then Some ([], c # s) else map_option (\<lambda>(a, r). (c # a, r)) (unmarked s))"
| "unmarked [m] = (if m = CHR ''.'' then Some ([], []) else None)"
| "unmarked [] = None"

definition demo_body :: "cursor_body \<Rightarrow> string" where
  "demo_body b = marked (cb_query b) @ marked (cb_name b) @
     (case cb_key b of JString s \<Rightarrow> marked s | _ \<Rightarrow> [])"

definition demo_unbody :: "string \<Rightarrow> cursor_body option" where
  "demo_unbody s =
     Option.bind (unmarked s) (\<lambda>(q, s).
     Option.bind (unmarked s) (\<lambda>(n, s).
       if s = [] then Some \<lparr>cb_query = q, cb_key = JNull, cb_name = n\<rparr>
       else map_option (\<lambda>(k, _). \<lparr>cb_query = q, cb_key = JString k, cb_name = n\<rparr>) (unmarked s)))"

definition demo_codec :: codec where
  "demo_codec = \<lparr>b64_encode = dotless, b64_decode = dotted, cursor_mac = (\<lambda>s. ''key'' @ s), digest = (\<lambda>s. s),
     body_to_vec = demo_body, body_from_slice = demo_unbody\<rparr>"

lemma dotted_dotless: "dotted (dotless s) = Some s"
proof (induction s)
  case (Cons c s)
  then show ?case by (cases "dotless s") auto
qed simp

lemma dotless_no_dot: "CHR ''.'' \<notin> set (dotless s)"
  by (induction s) auto

lemma unmarked_marked: "unmarked (marked s @ r) = Some (s, r)"
proof (induction s)
  case Nil
  then show ?case by (cases r) (simp_all add: marked_def)
next
  case (Cons c s)
  then show ?case by (simp add: marked_def)
qed

lemma marked_not_Nil [simp]: "marked s \<noteq> []"
  by (simp add: marked_def)

lemma demo_codec_laws: "codec_laws demo_codec"
proof -
  have "demo_unbody (demo_body b) = Some b" if "text_row (cb_key b, cb_name b)" for b
    using that unmarked_marked [of _ "[]"]
    by (cases b) (auto simp: text_row_def demo_body_def demo_unbody_def unmarked_marked)
  then show ?thesis
    by (simp add: codec_laws_def demo_codec_def dotted_dotless dotless_no_dot)
qed

definition demo_doc_of :: "envelope \<Rightarrow> string + json" where
  "demo_doc_of env = Inr (JObject [(''metadata'', JObject [(''name'', JString (meta_name (metadata env)))])])"

definition demo_listing :: listing where
  "demo_listing = \<lparr>ls_filter = None,
     ls_paging = \<lparr>lq_limit = Some 2, lq_cursor = None, lq_sort = None, lq_q = None, lq_count = False\<rparr>,
     ls_order = default_order, ls_after = None, ls_id = ''l''\<rparr>"

definition demo_floats :: "unit float_ops" where
  "demo_floats = \<lparr>num_f64 = (\<lambda>_. None), parse_f64 = (\<lambda>_. None), partial_cmp = (\<lambda>_ _. None)\<rparr>"

definition demo_readable :: "(string \<times> envelope) list" where
  "demo_readable = map (\<lambda>n. (n, demo_env ''p'' ''App'' n JNull)) [''c'', ''a'', ''b'']"

lemma demo_rows:
  "listed_rows demo_floats (\<lambda>s. s) demo_doc_of demo_listing demo_readable =
     map (\<lambda>n. ((JString n, n), demo_env ''p'' ''App'' n JNull)) [''c'', ''a'', ''b'']"
  by (simp add: listed_rows_def demo_listing_def demo_readable_def demo_doc_of_def finds_def key_of_def
      default_order_def values_at_def step_into_def demo_env_def is_none_or_def List.map_filter_simps)

theorem cursor_walk_lists_every_row_witness:
  "map (\<lambda>env. meta_name (metadata env))
     (drain_listing 4 demo_codec demo_floats (\<lambda>s. s) demo_doc_of demo_listing demo_readable) = [''a'', ''b'', ''c'']"
proof -
  have "drain_listing 4 demo_codec demo_floats (\<lambda>s. s) demo_doc_of demo_listing demo_readable =
      map snd (sort_rows (order_cmp demo_floats (ls_order demo_listing))
        (listed_rows demo_floats (\<lambda>s. s) demo_doc_of demo_listing demo_readable))"
    by (rule cursor_walk_lists_every_row [OF demo_codec_laws])
       (auto simp: demo_rows text_row_def, simp_all add: demo_listing_def)
  then show ?thesis
    by (simp only: demo_rows) (simp add: sort_rows_def order_cmp_def key_cmp_def as_f64_def then_cmp_def str_cmp_def
        demo_listing_def default_order_def demo_env_def)
qed

text \<open>What the permissions of a caller are read from: bindings, roles, accounts, Organizations,
  projects and spaces, and at the organization's own namespace the groups named elsewhere.\<close>

definition decides_access :: "string \<Rightarrow> string \<Rightarrow> bool" where
  "decides_access project kind \<longleftrightarrow>
     kind \<in> {''RoleBinding'', ''Role'', ''ServiceAccount'', ''Organization'', ''Project'', ''ContextSpace''} \<or>
     project = ORG_NAMESPACE \<and> kind \<in> {''Group'', ''Policy'', ''App''}"

text \<open>Two mirrors that hold the same manifests of a kind, by every way of reading them.\<close>

definition same_kind :: "mirror \<Rightarrow> mirror \<Rightarrow> string \<Rightarrow> bool" where
  "same_kind m m' kind \<longleftrightarrow>
     (\<forall>ns name. get m' ns kind name = get m ns kind name) \<and>
     (\<forall>ns. list_kind m' ns kind = list_kind m ns kind) \<and>
     (\<forall>P. matching m' (\<lambda>env. env_kind env = kind \<and> P env) = matching m (\<lambda>env. env_kind env = kind \<and> P env)) \<and>
     (\<forall>P. concat (map (\<lambda>ns. filter (P ns) (list_kind m' ns kind)) (namespaces m')) =
       concat (map (\<lambda>ns. filter (P ns) (list_kind m ns kind)) (namespaces m)))"

lemma namespaces_strict: "mirror_wf jc m \<Longrightarrow> sorted_wrt (<) (namespaces m)"
  unfolding namespaces_def
  by (intro dedup_sorted sorted_filter [where f = "\<lambda>x. x", simplified] namespaces_sorted) (simp add: mirror_wf_def)

lemma concat_over_fewer:
  assumes "sorted_wrt (<) xs" "sorted_wrt (<) ys" "set xs \<subseteq> set ys" "\<And>y. y \<in> set ys - set xs \<Longrightarrow> f y = []"
  shows "concat (map f xs) = concat (map f (ys :: 'a::linorder list))"
proof -
  have "sorted_wrt (<) (filter (\<lambda>y. y \<in> set xs) ys)" using assms(2) by (rule sorted_wrt_filter)
  moreover have "set (filter (\<lambda>y. y \<in> set xs) ys) = set xs" using assms(3) by auto
  ultimately have "xs = filter (\<lambda>y. y \<in> set xs) ys"
    using assms(1) by (metis strict_sorted_equal)
  then show ?thesis using concat_map_filter_Nil [of ys "\<lambda>y. y \<in> set xs" f] assms(4) by (metis DiffI)
qed

lemma same_kind_remove:
  assumes wf: "mirror_wf jc m" and get: "get m ns kind name = Some env" and other: "kind' \<noteq> kind"
  shows "same_kind m (snd (remove (ResourceKey ns kind name) m)) kind'"
proof -
  let ?k = "ResourceKey ns kind name"
  let ?m = "snd (remove ?k m)"
  have lists: "list_kind ?m a kind' = list_kind m a kind'" for a
    by (rule list_kind_remove_other [OF wf]) (simp add: other)
  have bt: "bt_wf (resources m)" using wf by (simp add: mirror_wf_def)
  have "env_kind env = kind"
    using mirror_wf_key [OF wf, of "(?k, env)"] iffD1 [OF mirror_get_mem [OF wf] get] by (simp add: envelope_key_def)
  then have "matching ?m (\<lambda>e. env_kind e = kind' \<and> P e) = matching m (\<lambda>e. env_kind e = kind' \<and> P e)" for P
    using filter_bt_remove_refused [OF bt, of ?k env "\<lambda>x. env_kind (snd x) = kind' \<and> P (snd x)"] get other
    by (simp add: matching_def remove_def get_def filter_map o_def)
  moreover have "concat (map (\<lambda>a. filter (P a) (list_kind ?m a kind')) (namespaces ?m)) =
      concat (map (\<lambda>a. filter (P a) (list_kind m a kind')) (namespaces m))" for P
  proof -
    have empty: "list_kind m a kind' = []" if "a \<in> set (namespaces m) - set (namespaces ?m)" for a
    proof (rule ccontr)
      assume "list_kind m a kind' \<noteq> []"
      then obtain e where "e \<in> set (list_kind ?m a kind')" unfolding lists by (metis hd_in_set)
      then obtain n where "get ?m a kind' n = Some e" using list_kind_mem [OF mirror_wf_remove [OF wf]] by blast
      from iffD1 [OF mirror_get_mem [OF mirror_wf_remove [OF wf]] this] that show False
        by (force simp: namespaces_def)
    qed
    have "set (namespaces ?m) \<subseteq> set (namespaces m)"
      by (auto simp: namespaces_def remove_def bt_remove_def)
    then show ?thesis unfolding lists
      by (intro concat_over_fewer namespaces_strict [OF mirror_wf_remove [OF wf]] namespaces_strict [OF wf])
         (simp_all add: empty)
  qed
  ultimately show ?thesis using other by (simp add: same_kind_def get_remove lists)
qed

lemma same_kindD:
  assumes "same_kind m m' kind"
  shows "get m' ns kind name = get m ns kind name" "list_kind m' ns kind = list_kind m ns kind"
    "matching m' (\<lambda>env. env_kind env = kind \<and> P env) = matching m (\<lambda>env. env_kind env = kind \<and> P env)"
    "concat (map (\<lambda>ns. filter (Q ns) (list_kind m' ns kind)) (namespaces m')) =
       concat (map (\<lambda>ns. filter (Q ns) (list_kind m ns kind)) (namespaces m))"
  using assms unfolding same_kind_def by blast+

lemma same_organizations:
  assumes "same_kind m m' ''Organization''"
  shows "organizations m' = organizations m" "installation_organization m' = installation_organization m"
  by (simp_all add: same_kindD [OF assms] organizations_def installation_organization_def)

lemma same_reaches:
  assumes "same_kind m m' ''Organization''" "same_kind m m' ''Project''"
  shows "organization_of m' = organization_of m" "organization_reaches m' = organization_reaches m"
proof -
  show of: "organization_of m' = organization_of m"
    by (intro ext) (simp add: organization_of_def same_organizations [OF assms(1)] same_kindD [OF assms(2)])
  show "organization_reaches m' = organization_reaches m"
    by (intro ext) (simp add: organization_reaches_def of same_organizations [OF assms(1)])
qed

lemma same_spaces: "same_kind m m' ''ContextSpace'' \<Longrightarrow> project_of_space m' = project_of_space m"
  by (intro ext) (simp add: project_of_space_def same_kindD)

lemma same_covers:
  assumes "same_kind m m' ''Organization''" "same_kind m m' ''Project''" "same_kind m m' ''ContextSpace''"
  shows "covers m' r s = covers m r s"
  by (cases r; cases s)
     (simp_all add: same_reaches(2) [OF assms(1,2)] same_spaces [OF assms(3)] same_kindD [OF assms(3)])

lemma same_roles:
  assumes "same_kind m m' ''Role''" "same_kind m m' ''ContextSpace''"
  shows "roles jc m' = roles jc m" "role_of jc m' = role_of jc m"
proof -
  show r: "roles jc m' = roles jc m" by (intro ext) (simp add: roles_def same_kindD [OF assms(1)])
  show "role_of jc m' = role_of jc m" by (intro ext) (simp add: role_of_def r same_spaces [OF assms(2)] split: option.split reach.split)
qed

lemma same_in_force:
  assumes "same_kind m m' ''Role''" "same_kind m m' ''ContextSpace''" "same_kind m m' ''ServiceAccount''"
    "same_kind m m' ''RoleBinding''"
  shows "in_force jc m' identity now = in_force jc m identity now"
proof -
  have "account_grants jc m' organization identity now = account_grants jc m organization identity now" for organization
    unfolding account_grants_def account_of_def same_kindD(4) [OF assms(3)] same_roles [OF assms(1,2)] by (rule refl)
  moreover have "binding_grants jc m' = binding_grants jc m"
    unfolding fun_eq_iff binding_grants_def same_roles [OF assms(1,2)] by blast
  ultimately show ?thesis
    by (simp add: in_force_def same_roles [OF assms(1,2)] kind_where_filter same_kindD [OF assms(4)])
qed

lemma same_narrowed:
  assumes "same_kind m m' ''Organization''" "same_kind m m' ''Project''" "same_kind m m' ''ContextSpace''"
    "same_kind m m' ''RoleBinding''" "same_kind m m' ''Group''" "same_kind m m' ''Policy''" "same_kind m m' ''App''"
  shows "narrowed_to_own_settings jc m' org g = narrowed_to_own_settings jc m org g"
proof -
  note reaches = same_reaches(2) [OF assms(1,2)] and covers = same_covers [OF assms(1,2,3)]
  have "outside m' = outside m" by (intro ext) (simp add: outside_def reaches)
  then have groups: "groups_elsewhere jc m' org = groups_elsewhere jc m org"
    unfolding groups_elsewhere_def covers same_kindD(2) [OF assms(4)] same_kindD(2) [OF assms(5)]
      same_kindD(3) [OF assms(6)] same_kindD(3) [OF assms(7)] by simp
  have projects: "own_projects m' org = own_projects m org"
    by (simp add: own_projects_def reaches same_kindD [OF assms(2)])
  have "own_spaces m' org = own_spaces m org"
    unfolding own_spaces_def projects covers same_kindD(3) [OF assms(3)] by (rule refl)
  then have bindings: "narrowed_bindings m' org g = narrowed_bindings m org g"
    by (simp add: narrowed_bindings_def projects same_organizations(1) [OF assms(1)] same_kindD [OF assms(2)])
  show ?thesis
    unfolding narrowed_to_own_settings_def groups bindings same_kindD(1) [OF assms(1)] by (rule refl)
qed

text \<open>The permissions of a caller depend on no manifest of another kind.\<close>

lemma effective_same_kinds:
  assumes "\<And>kind. decides_access project kind \<Longrightarrow> same_kind m m' kind"
  shows "effective_of jc m' boot identity project now = effective_of jc m boot identity project now"
proof -
  have k: "same_kind m m' ''RoleBinding''" "same_kind m m' ''Role''" "same_kind m m' ''ServiceAccount''"
    "same_kind m m' ''Organization''" "same_kind m m' ''Project''" "same_kind m m' ''ContextSpace''"
    by (rule assms; simp add: decides_access_def)+
  have "narrowed_to_own_settings jc m' org g = narrowed_to_own_settings jc m org g" if "project = ORG_NAMESPACE" for org g
    by (rule same_narrowed; rule assms; simp add: decides_access_def that)
  then have "place jc m' project = place jc m project"
    by (intro ext) (auto simp: place_def same_reaches [OF k(4,5)] same_spaces [OF k(6)] split: reach.split)
  then show ?thesis
    by (simp add: effective_of_def same_in_force [OF k(2,6,3,1)] without_organization_kinds_def
        same_organizations [OF k(4)] same_reaches [OF k(4,5)])
qed

text \<open>Property C20. What a caller may not read is not there. Every manifest in a list answer is one the
  caller may read. And taking a manifest the caller may not read out of the mirror changes nothing of
  the answer read from the mirror, whatever the filter, the search, the order, the page, the counts or
  the cursor asked for, when the manifest is not of a kind the permissions themselves are read from
  (bindings, roles, accounts, Organizations, projects, spaces; at the organization's namespace also
  groups, Policies and Apps): such a manifest may be what lets the caller read at all.\<close>

theorem unreadable_manifest_is_invisible:
  fixes jc cd fl lower to_value schema_of mirror_in mirror_at m boot identity now project plural paging query
  defines "eff \<equiv> effective_of jc m boot identity project now"
    and "answer \<equiv> \<lambda>m. list_resources jc cd fl lower to_value schema_of mirror_in mirror_at m boot identity now
      project plural paging query"
  assumes "mirror_wf (jc_names jc) m" and "by_plural (jc_names jc) plural = Some info"
    and "get m ns kind name = Some env" and "\<not> may_read_envelope jc to_value eff (ki_kind info) env"
    and "\<not> decides_access project kind"
  shows "(kq_workspace query = None \<and> kq_revision query = None \<longrightarrow>
      answer (snd (remove (ResourceKey ns kind name) m)) = answer m) \<and>
    (case answer m of
       Inl _ \<Rightarrow> True
     | Inr l \<Rightarrow> list_all (may_read_envelope jc to_value eff (ki_kind info)) (rl_items l))"
proof -
  let ?rd = "may_read_envelope jc to_value eff (ki_kind info)" and ?m = "snd (remove (ResourceKey ns kind name) m)"
  have "same_kind m ?m k" if "decides_access project k" for k
    using that assms(7) by (intro same_kind_remove [OF assms(3,5)]) auto
  then have eff: "effective_of jc ?m boot identity project now = eff"
    unfolding eff_def by (rule effective_same_kinds)
  have same: "filter ?rd (items (list_page_of ?m project (ki_kind info)
        \<lparr>label_selector = labels, field_selector = fields, limit = None, continue_token = None\<rparr>)) =
      filter ?rd (items (list_page_of m project (ki_kind info)
        \<lparr>label_selector = labels, field_selector = fields, limit = None, continue_token = None\<rparr>))" for labels fields
    by (rule readable_remove [where readable = ?rd, OF assms(3,5,6)]) simp_all
  have "answer ?m = answer m" if "kq_workspace query = None" "kq_revision query = None"
    by (simp add: answer_def list_resources_def assms(4) Let_def eff eff_def [symmetric] same that)
  moreover have "list_all ?rd (rl_items l)" if "answer m = Inr l" for l
    using that page_items
    by (fastforce simp: answer_def list_resources_def assms(4) Let_def eff_def [symmetric] and_then_Inr_iff list_all_iff
        split: if_splits)
  ultimately show ?thesis by (auto split: sum.splits)
qed

text \<open>A steward of the space \<open>stations\<close> and two Endpoints, one of that space and one of another.\<close>

definition endpoint_core :: jc_core where
  "endpoint_core = demo_core\<lparr>jc_names := demo_names\<lparr>jc_kinds := [demo_kind ''Endpoint'' ''endpoints'' ScopeProject]\<rparr>\<rparr>"

definition demo_spaces :: mirror where
  "demo_spaces = fold (upsert (jc_names endpoint_core))
     [demo_env ''bikes'' ''ContextSpace'' ''stations'' (JObject []),
      demo_env ''bikes'' ''Endpoint'' ''air'' (JObject [(''contextSpaceRef'', JString ''air'')]),
      demo_env ''bikes'' ''Endpoint'' ''docks'' (JObject [(''contextSpaceRef'', JString ''stations'')]),
      demo_env ''org'' ''Organization'' ''espoo'' (JObject []),
      demo_env ''org'' ''Project'' ''bikes'' (JObject [(''organizationRef'', JString ''espoo'')]),
      demo_env ''org'' ''Role'' ''steward'' (JObject [(''rules'', JArray [JObject
        [(''kinds'', demo_strings [''Endpoint'']), (''verbs'', demo_strings [''read''])]])]),
      demo_binding ''stations'' ''sam'' ''steward'' [(''contextSpace'', JString ''stations'')]] new_mirror"

definition demo_whole :: "envelope \<Rightarrow> string + json" where
  "demo_whole env = Inr (JObject [(''metadata'', JObject [(''name'', JString (meta_name (metadata env)))]), (''spec'', env_spec env)])"

definition demo_list :: "mirror \<Rightarrow> api_error + resource_list" where
  "demo_list m = list_resources endpoint_core demo_codec demo_floats (\<lambda>s. s) demo_whole (\<lambda>_. None) (\<lambda>_ _. Inl Forbidden)
     (\<lambda>_ _. Inl Forbidden) m ''boot'' (demo_person ''sam'') 0 ''bikes'' ''endpoints'' (Inr (ls_paging demo_listing))
     \<lparr>kq_filter = None, kq_label_selector = None, kq_field_selector = None, kq_continue = None, kq_revision = None,
      kq_workspace = None\<rparr>"

lemma demo_list_answer:
  "demo_list demo_spaces = Inr \<lparr>rl_continue = None, rl_remaining = None,
     rl_items = [demo_env ''bikes'' ''Endpoint'' ''docks'' (JObject [(''contextSpaceRef'', JString ''stations'')])],
     rl_next_cursor = None, rl_total_count = None\<rparr>"
  by code_simp

theorem unreadable_manifest_is_invisible_witness:
  "demo_list (snd (remove (ResourceKey ''bikes'' ''Endpoint'' ''air'') demo_spaces)) =
     Inr \<lparr>rl_continue = None, rl_remaining = None,
       rl_items = [demo_env ''bikes'' ''Endpoint'' ''docks'' (JObject [(''contextSpaceRef'', JString ''stations'')])],
       rl_next_cursor = None, rl_total_count = None\<rparr>"
proof -
  have wf: "mirror_wf (jc_names endpoint_core) demo_spaces"
    unfolding demo_spaces_def by (simp add: mirror_wf_upsert mirror_wf_new)
  have pl: "by_plural (jc_names endpoint_core) ''endpoints'' = Some (demo_kind ''Endpoint'' ''endpoints'' ScopeProject)"
    by code_simp
  have g: "get demo_spaces ''bikes'' ''Endpoint'' ''air'' =
      Some (demo_env ''bikes'' ''Endpoint'' ''air'' (JObject [(''contextSpaceRef'', JString ''air'')]))" by code_simp
  have unread: "\<not> may_read_envelope endpoint_core demo_whole
      (effective_of endpoint_core demo_spaces ''boot'' (demo_person ''sam'') ''bikes'' 0)
      (ki_kind (demo_kind ''Endpoint'' ''endpoints'' ScopeProject))
      (demo_env ''bikes'' ''Endpoint'' ''air'' (JObject [(''contextSpaceRef'', JString ''air'')]))" by code_simp
  have other: "\<not> decides_access ''bikes'' ''Endpoint''" by (simp add: decides_access_def ORG_NAMESPACE_def)
  have "demo_list (snd (remove (ResourceKey ''bikes'' ''Endpoint'' ''air'') demo_spaces)) = demo_list demo_spaces"
    unfolding demo_list_def
    by (rule mp [OF conjunct1 [OF unreadable_manifest_is_invisible [OF wf pl g unread other]]]) simp
  then show ?thesis unfolding demo_list_answer .
qed

text \<open>A binding is left out for a reason: without the one that lets \<open>sam\<close> in, and which \<open>sam\<close> may not
  read, the same list is not found.\<close>

lemma binding_is_not_invisible:
  "demo_list (snd (remove (ResourceKey ''org'' ''RoleBinding'' ''stations'') demo_spaces)) =
     Inl (NotFound (''plural '' @ apostrophe @ ''endpoints'' @ apostrophe @ '' not found in project '' @ apostrophe @ ''bikes'' @ apostrophe))"
  by code_simp

end
