(* ===== verification/Quotas.thy ===== *)
theory Quotas
  imports Store Errors "HOL-Library.Word"
begin

text \<open>
  What a project may hold and what it holds now (\<open>src/quotas.rs\<close>), with the residency of
  pipelines it counts (\<open>src/reconciler/streams.rs\<close>, \<open>src/reconciler/run_queue.rs\<close>).

  jc-core's reading of a quota, of a pipeline's sources and clock and of a data source's type is the
  record \<open>quota_ops\<close>. Counts and limits are \<open>u32\<close>, 32-bit words: \<open>as u32\<close> takes a count modulo
  \<open>2 ^ 32\<close>.
\<close>

subsection \<open>Residency\<close>

datatype data_source_type = Mqtt | WebSocket | Http | GtfsRt | Runner string

record pipeline_source =
  ps_data_source_ref :: "string option"
  ps_endpoint_ref :: "string option"
  ps_query :: "json option"
  ps_trigger :: "json option"

record pipeline_spec =
  pl_sources :: "pipeline_source list"
  pl_shortest_clock_seconds :: "nat option"
  pl_period_seconds :: "nat option"

record 'q quota_ops =
  parse_quotas :: "json \<Rightarrow> 'q option"
  default_quotas :: 'q
  sets_dimensions :: "'q \<Rightarrow> bool"
  dimensions :: "'q \<Rightarrow> (string \<times> 32 word option) list"
  requests_per_minute :: "'q \<Rightarrow> 32 word option"
  min_pipeline_period_seconds :: "'q \<Rightarrow> 32 word option"
  parse_pipeline :: "json \<Rightarrow> pipeline_spec option"
  parse_data_source :: "json \<Rightarrow> string + data_source_type"

definition RESIDENT_INPUTS :: "string list" where
  "RESIDENT_INPUTS =
     [''http_server'', ''socket_server'', ''kafka'', ''kafka_franz'', ''nats'', ''nats_jetstream'',
      ''nats_stream'', ''amqp_0_9'', ''amqp_1'', ''redis_streams'', ''redis_pubsub'', ''gcp_pubsub'',
      ''mqtt'', ''websocket'']"

definition is_resident :: "data_source_type \<Rightarrow> bool" where
  "is_resident source =
     (case source of
        Mqtt \<Rightarrow> True
      | WebSocket \<Rightarrow> True
      | Http \<Rightarrow> False
      | GtfsRt \<Rightarrow> False
      | Runner name \<Rightarrow> name \<in> set RESIDENT_INPUTS)"

definition is_stream_pipeline :: "pipeline_spec \<Rightarrow> bool" where
  "is_stream_pipeline spec =
     list_ex (\<lambda>source. ps_data_source_ref source \<noteq> None \<or>
       (ps_endpoint_ref source \<noteq> None \<and> ps_query source \<noteq> None)) (pl_sources spec)"

text \<open>\<open>resolve_source\<close> of a source that names a DataSource.\<close>

definition resolve_data_source ::
    "'q quota_ops \<Rightarrow> mirror \<Rightarrow> string \<Rightarrow> string \<Rightarrow> string + data_source_type" where
  "resolve_data_source qo m ns ds_name =
     (case get m ns ''DataSource'' ds_name of
        None \<Rightarrow> Inl (''data source '' @ ds_name @ '' is not in the mirror'')
      | Some env \<Rightarrow>
          (case parse_data_source qo (env_spec env) of
             Inl err \<Rightarrow> Inl (''invalid data source spec: '' @ err)
           | Inr t \<Rightarrow> Inr t))"

definition stays_resident :: "'q quota_ops \<Rightarrow> mirror \<Rightarrow> string \<Rightarrow> pipeline_spec \<Rightarrow> bool" where
  "stays_resident qo m ns spec =
     list_ex (\<lambda>source.
       (case ps_data_source_ref source of
          None \<Rightarrow> ps_endpoint_ref source \<noteq> None \<and> ps_trigger source \<noteq> None
        | Some ds_name \<Rightarrow>
            (case resolve_data_source qo m ns ds_name of
               Inr t \<Rightarrow> is_resident t
             | Inl _ \<Rightarrow> False))) (pl_sources spec)"

subsection \<open>Quotas\<close>

definition COUNTED :: "(string \<times> string) list" where
  "COUNTED = [(''contextSpaces'', ''ContextSpace''), (''residentPipelines'', ''Pipeline''),
     (''publicEndpoints'', ''Endpoint''), (''apps'', ''App'')]"

definition organization_default :: "'q quota_ops \<Rightarrow> mirror \<Rightarrow> 'q" where
  "organization_default qo m =
     unwrap_or (default_quotas qo)
       (find_map (\<lambda>env. Option.bind (pointer [''projects'', ''quota''] (env_spec env)) (parse_quotas qo))
         (list_kind m ORG_NAMESPACE ''Organization''))"

definition own_quotas :: "'q quota_ops \<Rightarrow> mirror \<Rightarrow> string \<Rightarrow> 'q option" where
  "own_quotas qo m project =
     Option.bind (get m ORG_NAMESPACE ''Project'' project)
       (\<lambda>env. Option.bind (jget ''quotas'' (env_spec env)) (parse_quotas qo))"

definition effective_quotas :: "'q quota_ops \<Rightarrow> mirror \<Rightarrow> string \<Rightarrow> 'q" where
  "effective_quotas qo m project =
     (case own_quotas qo m project of
        Some q \<Rightarrow> if sets_dimensions qo q then q else organization_default qo m
      | None \<Rightarrow> organization_default qo m)"

definition counts :: "'q quota_ops \<Rightarrow> mirror \<Rightarrow> string \<Rightarrow> string \<Rightarrow> string \<Rightarrow> json \<Rightarrow> bool" where
  "counts qo m project dimension kind spec =
     (if dimension = ''contextSpaces'' then kind = ''ContextSpace''
      else if dimension = ''apps'' then
        kind = ''App'' \<and>
        (get_str ''lifecycle'' spec = Some ''preview'' \<or> get_str ''lifecycle'' spec = Some ''published'')
      else if dimension = ''publicEndpoints'' then
        kind = ''Endpoint'' \<and> get_str ''audience'' spec = Some ''public''
      else if dimension = ''residentPipelines'' then
        kind = ''Pipeline'' \<and>
        is_some_and (\<lambda>p. is_stream_pipeline p \<and> stays_resident qo m project p) (parse_pipeline qo spec)
      else False)"

text \<open>The manifests of a kind that count against a dimension, in the order of their names.\<close>

definition counted_list :: "'q quota_ops \<Rightarrow> mirror \<Rightarrow> string \<Rightarrow> string \<Rightarrow> string \<Rightarrow> envelope list" where
  "counted_list qo m project dimension kind =
     filter (\<lambda>env. counts qo m project dimension kind (env_spec env)) (list_kind m project kind)"

definition usage :: "'q quota_ops \<Rightarrow> mirror \<Rightarrow> string \<Rightarrow> (string, 32 word) btree" where
  "usage qo m project =
     bt_collect (map (\<lambda>(dimension, kind).
       (dimension, word_of_nat (length (counted_list qo m project dimension kind)))) COUNTED)"

definition limits :: "'q quota_ops \<Rightarrow> 'q \<Rightarrow> (string, 32 word) btree" where
  "limits qo quotas =
     bt_collect (List.map_filter (\<lambda>(dimension, lim). map_option (\<lambda>l. (dimension, l)) lim)
       (filter (\<lambda>(dimension, _). list_ex (\<lambda>(counted, _). counted = dimension) COUNTED)
         (dimensions qo quotas)))"

definition over :: "string \<Rightarrow> 32 word \<Rightarrow> 32 word \<Rightarrow> string \<Rightarrow> api_error" where
  "over dimension after lim project =
     Denied (''quota: '' @ dimension @ '' '' @ show_nat (unat after) @ '' of '' @ show_nat (unat lim) @
       '' in project '' @ project @ ''; raise the quota on the project or the organization first (PF-73, PF-74)'')"

definition beyond :: "'q quota_ops \<Rightarrow> mirror \<Rightarrow> string \<Rightarrow> string \<Rightarrow> string list" where
  "beyond qo m project dimension =
     (case map_of COUNTED dimension of
        None \<Rightarrow> []
      | Some kind \<Rightarrow>
          (case bt_get (limits qo (effective_quotas qo m project)) dimension of
             None \<Rightarrow> []
           | Some lim \<Rightarrow>
               (let counted = sort (map (\<lambda>env. meta_name (metadata env)) (counted_list qo m project dimension kind))
                in drop (min (unat lim) (length counted)) counted)))"

definition check_dimension ::
    "'q quota_ops \<Rightarrow> mirror \<Rightarrow> string \<Rightarrow> string \<Rightarrow> string \<Rightarrow> json \<Rightarrow> string \<times> string \<Rightarrow> api_error + unit" where
  "check_dimension qo m project kind name spec = (\<lambda>(dimension, counted_kind).
     if counted_kind \<noteq> kind \<or> \<not> counts qo m project dimension kind spec then Inr ()
     else
       (case bt_get (limits qo (effective_quotas qo m project)) dimension of
          None \<Rightarrow> Inr ()
        | Some lim \<Rightarrow>
            if is_some_and (\<lambda>held. counts qo m project dimension kind (env_spec held)) (get m project kind name)
            then Inr ()
            else
              (let others = word_of_nat (length
                     (filter (\<lambda>env. meta_name (metadata env) \<noteq> name \<and>
                        counts qo m project dimension kind (env_spec env)) (list_kind m project kind))) :: 32 word;
                   after = others + 1
               in if after > lim then Inl (over dimension after lim project) else Inr ())))"

fun check_dimensions ::
    "'q quota_ops \<Rightarrow> mirror \<Rightarrow> string \<Rightarrow> string \<Rightarrow> string \<Rightarrow> json \<Rightarrow> (string \<times> string) list \<Rightarrow> api_error + unit" where
  "check_dimensions qo m project kind name spec [] = Inr ()"
| "check_dimensions qo m project kind name spec (d # ds) =
     and_then (check_dimension qo m project kind name spec d)
       (\<lambda>_. check_dimensions qo m project kind name spec ds)"

definition min_pipeline_period :: "'q quota_ops \<Rightarrow> mirror \<Rightarrow> string \<Rightarrow> (32 word \<times> string) option" where
  "min_pipeline_period qo m project =
     (let own = map_option (\<lambda>floor. (floor, ''spec.quotas.minPipelinePeriodSeconds of project '' @ project))
            (Option.bind (own_quotas qo m project) (min_pipeline_period_seconds qo));
          organization = map_option (\<lambda>floor.
            (floor, ''spec.projects.quota.minPipelinePeriodSeconds of the organization''))
            (min_pipeline_period_seconds qo (organization_default qo m))
      in (case (own, organization) of
            (Some a, Some b) \<Rightarrow> Some (if fst a > fst b then a else b)
          | (Some a, None) \<Rightarrow> Some a
          | (None, b) \<Rightarrow> b))"

definition check_clock :: "'q quota_ops \<Rightarrow> mirror \<Rightarrow> string \<Rightarrow> json \<Rightarrow> api_error + unit" where
  "check_clock qo m project spec =
     (case min_pipeline_period qo m project of
        None \<Rightarrow> Inr ()
      | Some (floor, set_by) \<Rightarrow>
          (case Option.bind (parse_pipeline qo spec)
              (\<lambda>p. map_option (\<lambda>s. (s, p)) (pl_shortest_clock_seconds p)) of
             None \<Rightarrow> Inr ()
           | Some (shortest, p) \<Rightarrow>
               if shortest \<ge> unat floor then Inr ()
               else
                 (let field = (if pl_period_seconds p = Some shortest then ''spec.period'' else ''spec.schedule'');
                      s = show_nat shortest; f = show_nat (unat floor)
                  in Inl (Unprocessable
                    (''the pipeline runs every '' @ s @ '' s, faster than the minimum period of '' @ f @
                      '' s project '' @ project @ '' allows (PL-116)'')
                    [field @ '': runs every '' @ s @ '' s, below the minimum period of '' @ f @ '' s ('' @ set_by @
                      ''); choose '' @ f @ '' s or longer, or ask an admin to lower the minimum'']))))"

text \<open>\<open>Value::as_u64\<close> of a number by the text it prints: digits below \<open>2 ^ 64\<close>.\<close>

definition as_u64 :: "json \<Rightarrow> nat option" where
  "as_u64 v =
     (case v of
        JNumber n \<Rightarrow>
          if n \<noteq> [] \<and> list_all is_ascii_digit n \<and> digits_value n < 2 ^ 64 then Some (digits_value n) else None
      | _ \<Rightarrow> None)"

definition check_quotas ::
    "'q quota_ops \<Rightarrow> mirror \<Rightarrow> string \<Rightarrow> string \<Rightarrow> string \<Rightarrow> json \<Rightarrow> api_error + unit" where
  "check_quotas qo m project kind name spec =
     and_then (check_dimensions qo m project kind name spec COUNTED) (\<lambda>_.
     and_then (if kind = ''Pipeline'' then check_clock qo m project spec else Inr ()) (\<lambda>_.
       if kind = ''Endpoint'' then
         (case (Option.bind (pointer [''rateLimits'', ''requestsPerMinute''] spec) as_u64,
                requests_per_minute qo (effective_quotas qo m project)) of
            (Some asked, Some lim) \<Rightarrow>
              if asked > unat lim
              then Inl (over ''requestsPerMinute'' (word_of_nat (min asked (2 ^ 32 - 1))) lim project)
              else Inr ()
          | _ \<Rightarrow> Inr ())
       else Inr ()))"

subsection \<open>Lemmas\<close>

lemma get_upsert_kind: "kind \<noteq> env_kind env \<Longrightarrow> get (upsert jc env m) ns kind name = get m ns kind name"
  by (simp add: upsert_def get_def Let_def bt_simps envelope_key_def)

lemma counts_upsert:
  "env_kind env \<noteq> ''DataSource'' \<Longrightarrow> counts qo (upsert jc env m) project dimension kind spec =
     counts qo m project dimension kind spec"
  by (simp add: counts_def stays_resident_def resolve_data_source_def get_upsert_kind
      cong: option.case_cong sum.case_cong)

lemma effective_quotas_upsert:
  assumes "mirror_wf jc m" and "env_kind env \<noteq> ''Organization''" and "env_kind env \<noteq> ''Project''"
  shows "effective_quotas qo (upsert jc env m) project = effective_quotas qo m project"
  using assms
  by (simp add: effective_quotas_def own_quotas_def organization_default_def get_upsert_kind
      list_kind_upsert_other cong: option.case_cong if_cong)

lemma list_kind_other_names:
  assumes "mirror_wf jc m"
  shows "filter (\<lambda>e. meta_name (metadata e) \<noteq> meta_name (metadata env)) (list_kind (upsert jc env m) ns (env_kind env)) =
    filter (\<lambda>e. meta_name (metadata e) \<noteq> meta_name (metadata env)) (list_kind m ns (env_kind env))"
proof -
  have wf: "mirror_wf jc (upsert jc env m)" by (rule mirror_wf_upsert [OF assms])
  have eq: "filter (\<lambda>e. meta_name (metadata e) \<noteq> meta_name (metadata env)) (list_kind m' ns (env_kind env)) =
      map snd (filter (\<lambda>e. key_namespace (fst e) = ns \<and> key_kind (fst e) = env_kind env \<and>
        key_name (fst e) \<noteq> meta_name (metadata env)) (resources m'))" if m': "mirror_wf jc m'" for m'
  proof -
    have "bt_wf (resources m')" using m' by (simp add: mirror_wf_def)
    moreover have "key_name (fst e) = meta_name (metadata (snd e))" if "e \<in> set (resources m')" for e
      using mirror_wf_key [OF m' that] by simp
    ultimately show ?thesis
      by (auto simp: list_kind_eq kind_where_eq filter_map o_def intro!: arg_cong [where f = "map snd"] filter_cong)
  qed
  show ?thesis
    unfolding eq [OF assms] eq [OF wf]
    by (simp add: resources_upsert filter_bt_insert_other envelope_key_def)
qed

lemma list_kind_names_distinct:
  "mirror_wf jc m \<Longrightarrow> distinct (map (\<lambda>e. meta_name (metadata e)) (list_kind m ns kind))"
  using kind_where_names_sorted [of jc m ns kind "\<lambda>_. True"]
  by (simp add: list_kind_eq strict_sorted_iff)

lemma one_of_a_name:
  assumes "distinct (map f xs)"
  shows "length (filter (\<lambda>x. f x = n \<and> P x) xs) \<le> 1 \<and>
    (length (filter (\<lambda>x. f x = n \<and> P x) xs) = 1 \<longleftrightarrow> (\<exists>x \<in> set xs. f x = n \<and> P x))"
  using assms
proof (induction xs)
  case (Cons x xs)
  have "filter (\<lambda>y. f y = n \<and> P y) xs = []" if "f x = n"
    using that Cons.prems by (auto simp: filter_empty_conv) (metis imageI)
  with Cons show ?case by auto
qed simp

lemma split_by_name:
  "length (filter P xs) = length (filter (\<lambda>x. f x \<noteq> n \<and> P x) xs) + length (filter (\<lambda>x. f x = n \<and> P x) xs)"
  by (induction xs) auto

lemma get_name: "mirror_wf jc m \<Longrightarrow> get m ns kind name = Some x \<Longrightarrow> meta_name (metadata x) = name"
  using mirror_wf_key [of jc m "(ResourceKey ns kind name, x)"] mirror_get_mem [of jc m]
  by (simp add: envelope_key_def)

text \<open>A write changes how many manifests of its kind count by the one of its own name.\<close>

lemma counted_after_upsert:
  fixes qo project dimension
  assumes "mirror_wf jc m" and "env_kind env \<noteq> ''DataSource''"
  defines "P \<equiv> \<lambda>e. counts qo m project dimension (env_kind env) (env_spec e)"
  shows "length (counted_list qo (upsert jc env m) project dimension (env_kind env)) \<le>
    length (filter (\<lambda>e. meta_name (metadata e) \<noteq> meta_name (metadata env) \<and> P e) (list_kind m project (env_kind env))) +
    (if P env \<or> is_some_and P (get m project (env_kind env) (meta_name (metadata env))) then 1 else 0)"
proof -
  let ?n = "meta_name (metadata env)" and ?k = "env_kind env"
  let ?L = "list_kind m project ?k" and ?L' = "list_kind (upsert jc env m) project ?k"
  have wf: "mirror_wf jc (upsert jc env m)" by (rule mirror_wf_upsert [OF assms(1)])
  have "filter (\<lambda>e. meta_name (metadata e) \<noteq> ?n \<and> P e) ?L' = filter (\<lambda>e. meta_name (metadata e) \<noteq> ?n \<and> P e) ?L"
    using list_kind_other_names [OF assms(1), of env project]
    by (metis (no_types, lifting) filter_cong filter_filter)
  moreover have "\<exists>x \<in> set ?L'. meta_name (metadata x) = ?n \<and> P x \<Longrightarrow>
      P env \<or> is_some_and P (get m project ?k ?n)"
  proof -
    assume "\<exists>x \<in> set ?L'. meta_name (metadata x) = ?n \<and> P x"
    then obtain x where x: "x \<in> set ?L'" "meta_name (metadata x) = ?n" "P x" by blast
    then obtain name where name: "get (upsert jc env m) project ?k name = Some x"
      using list_kind_mem [OF wf] by blast
    then have "name = ?n" using get_name [OF wf name] x(2) by simp
    with name x(3) show ?thesis
      by (auto simp: upsert_def get_def Let_def bt_simps is_some_and_def split: if_splits)
  qed
  ultimately show ?thesis
    using split_by_name [of P ?L' "\<lambda>e. meta_name (metadata e)" ?n]
      one_of_a_name [OF list_kind_names_distinct [OF wf, of project ?k], of ?n P]
    by (auto simp: counted_list_def counts_upsert [OF assms(2)] P_def [symmetric])
qed

lemma check_dimensions_each:
  "check_dimensions qo m project kind name spec ds = Inr () \<Longrightarrow> d \<in> set ds \<Longrightarrow>
   check_dimension qo m project kind name spec d = Inr ()"
  by (induction ds) (auto simp: and_then_Inr_iff)

text \<open>A write the check accepts, of the kind the dimension counts.\<close>

lemma counted_kind_within:
  assumes "mirror_wf jc m" and "(dimension, env_kind env) \<in> set COUNTED"
    and "check_quotas qo m project (env_kind env) (meta_name (metadata env)) (env_spec env) = Inr ()"
    and "bt_get (limits qo (effective_quotas qo m project)) dimension = Some lim"
    and "length (counted_list qo m project dimension (env_kind env)) \<le> unat lim"
    and "length (list_kind m project (env_kind env)) < 2 ^ 32 - 1"
  shows "length (counted_list qo (upsert jc env m) project dimension (env_kind env)) \<le> unat lim"
proof -
  let ?n = "meta_name (metadata env)" and ?k = "env_kind env"
  let ?P = "\<lambda>e. counts qo m project dimension ?k (env_spec e)"
  let ?others = "filter (\<lambda>e. meta_name (metadata e) \<noteq> ?n \<and> ?P e) (list_kind m project ?k)"
  let ?same = "filter (\<lambda>e. meta_name (metadata e) = ?n \<and> ?P e) (list_kind m project ?k)"
  have kinds: "?k \<noteq> ''DataSource''"
    using assms(2) by (auto simp: COUNTED_def)
  have before: "length (counted_list qo m project dimension ?k) = length ?others + length ?same"
    using split_by_name [of ?P "list_kind m project ?k" "\<lambda>e. meta_name (metadata e)" ?n] by (simp add: counted_list_def)
  have held: "length ?same = 1" if h: "is_some_and ?P (get m project ?k ?n)"
  proof -
    obtain x where x: "get m project ?k ?n = Some x" "?P x" using h by (auto simp: is_some_and_iff)
    then have "x \<in> set (list_kind m project ?k)" "meta_name (metadata x) = ?n"
      using list_kind_mem [OF assms(1)] get_name [OF assms(1) x(1)] by blast+
    then show ?thesis
      using one_of_a_name [OF list_kind_names_distinct [OF assms(1), of project ?k], of ?n ?P] x(2) by blast
  qed
  have small: "length ?others < 2 ^ 32 - 1"
    using assms(6) length_filter_le [of "\<lambda>e. meta_name (metadata e) \<noteq> ?n \<and> ?P e" "list_kind m project ?k"] by linarith
  have "check_dimension qo m project ?k ?n (env_spec env) (dimension, ?k) = Inr ()"
    using assms(2,3) check_dimensions_each by (fastforce simp: check_quotas_def and_then_Inr_iff)
  then have new: "length ?others + 1 \<le> unat lim" if "?P env" "\<not> is_some_and ?P (get m project ?k ?n)"
    using that assms(4) small
    by (auto simp: check_dimension_def Let_def not_less word_le_nat_alt unat_word_ariths(1) unat_of_nat
        split: if_splits)
  have "length ?others + (if ?P env \<or> is_some_and ?P (get m project ?k ?n) then 1 else 0) \<le> unat lim"
  proof (cases "is_some_and ?P (get m project ?k ?n)")
    case True
    then show ?thesis using before held [OF True] assms(5) by simp
  next
    case False
    then show ?thesis using before new assms(5) by (cases "?P env") simp_all
  qed
  then show ?thesis
    using counted_after_upsert [OF assms(1) kinds, of qo project dimension] by simp
qed

text \<open>A write of another kind changes no count, unless it is a DataSource and the count is of the
  resident pipelines.\<close>

lemma counted_other_kind:
  assumes "mirror_wf jc m" and "counted \<noteq> env_kind env"
    and "env_kind env = ''DataSource'' \<Longrightarrow> dimension \<noteq> ''residentPipelines''"
  shows "counted_list qo (upsert jc env m) project dimension counted = counted_list qo m project dimension counted"
proof -
  have "counts qo (upsert jc env m) project dimension counted spec = counts qo m project dimension counted spec" for spec
  proof (cases "env_kind env = ''DataSource''")
    case True
    then show ?thesis using assms(3) by (simp add: counts_def)
  qed (simp add: counts_upsert)
  then show ?thesis by (simp add: counted_list_def list_kind_upsert_other [OF assms(1,2)])
qed

subsection \<open>Properties\<close>

text \<open>Property C30. An accepted write never takes a project over its quota: in a project within the
  limit of a counted dimension, whatever manifest the check accepts, of the counted kind or of
  another, the project is within that limit once the manifest is in the mirror, and the limit is the
  same unless the manifest is an Organization or a Project, which set it. One write is left out: a
  DataSource may make the pipelines that read it resident, and the check does not count them (see
  \<open>data_source_edit_passes_the_quota\<close>). The project holds fewer than \<open>2 ^ 32 - 1\<close> manifests of the
  counted kind, so that no count wraps around.\<close>

theorem quota_is_kept:
  assumes "mirror_wf jc m" and "(dimension, counted) \<in> set COUNTED"
    and "check_quotas qo m project (env_kind env) (meta_name (metadata env)) (env_spec env) = Inr ()"
    and "bt_get (limits qo (effective_quotas qo m project)) dimension = Some lim"
    and "length (counted_list qo m project dimension counted) \<le> unat lim"
    and "length (list_kind m project counted) < 2 ^ 32 - 1"
    and "env_kind env = ''DataSource'' \<Longrightarrow> dimension \<noteq> ''residentPipelines''"
  shows "length (counted_list qo (upsert jc env m) project dimension counted) \<le> unat lim \<and>
    (env_kind env \<notin> {''Organization'', ''Project''} \<longrightarrow>
     bt_get (limits qo (effective_quotas qo (upsert jc env m) project)) dimension = Some lim)"
proof (intro conjI impI)
  show "length (counted_list qo (upsert jc env m) project dimension counted) \<le> unat lim"
  proof (cases "counted = env_kind env")
    case True
    then show ?thesis using counted_kind_within [OF assms(1) _ assms(3,4)] assms(2,5,6) by simp
  next
    case False
    then show ?thesis using counted_other_kind [OF assms(1) False assms(7), of qo project] assms(5) by simp
  qed
qed (simp add: effective_quotas_upsert [OF assms(1)] assms(4))

definition demo_quota_ops :: "32 word option quota_ops" where
  "demo_quota_ops = \<lparr>parse_quotas = (\<lambda>v. Some (map_option word_of_nat (Option.bind (jget ''apps'' v) as_u64))),
     default_quotas = None, sets_dimensions = (\<lambda>q. q \<noteq> None), dimensions = (\<lambda>q. [(''apps'', q)]),
     requests_per_minute = (\<lambda>_. None), min_pipeline_period_seconds = (\<lambda>_. None),
     parse_pipeline = (\<lambda>_. None), parse_data_source = (\<lambda>_. Inl ''no'')\<rparr>"

definition demo_org :: "string \<Rightarrow> string \<Rightarrow> envelope" where
  "demo_org name apps = demo_env ORG_NAMESPACE ''Organization'' name
     (JObject [(''projects'', JObject [(''quota'', JObject [(''apps'', JNumber apps)])])])"

definition demo_app :: "string \<Rightarrow> envelope" where
  "demo_app name = demo_env ''p'' ''App'' name (JObject [(''lifecycle'', JString ''published'')])"

definition demo_quota_mirror :: mirror where
  "demo_quota_mirror = fold (upsert demo_names)
     [demo_org ''aa'' ''1'', demo_org ''bb'' ''3'', demo_env ORG_NAMESPACE ''Project'' ''p''
        (JObject [(''organizationRef'', JObject [(''name'', JString ''bb'')])]), demo_app ''x''] new_mirror"

lemma demo_quota_mirror_wf: "mirror_wf demo_names demo_quota_mirror"
  unfolding demo_quota_mirror_def by (simp add: mirror_wf_upsert mirror_wf_new)

lemma demo_quota_mirror_facts:
  "resources demo_quota_mirror =
     [(ResourceKey ORG_NAMESPACE ''Organization'' ''aa'', demo_org ''aa'' ''1''),
      (ResourceKey ORG_NAMESPACE ''Organization'' ''bb'', demo_org ''bb'' ''3''),
      (ResourceKey ORG_NAMESPACE ''Project'' ''p'', demo_env ORG_NAMESPACE ''Project'' ''p''
        (JObject [(''organizationRef'', JObject [(''name'', JString ''bb'')])])),
      (ResourceKey ''p'' ''App'' ''x'', demo_app ''x'')]"
  by code_simp

lemma demo_quota_apps: "list_kind demo_quota_mirror ''p'' ''App'' = [demo_app ''x'']"
  by code_simp

lemma demo_quota_orgs:
  "list_kind demo_quota_mirror ORG_NAMESPACE ''Organization'' = [demo_org ''aa'' ''1'', demo_org ''bb'' ''3'']"
  by code_simp

lemma demo_quota_project:
  "own_quotas demo_quota_ops demo_quota_mirror ''p'' = None"
  by (simp add: own_quotas_def get_def demo_quota_mirror_facts demo_env_def ORG_NAMESPACE_def)

text \<open>The default quota is read from the first Organization by name that sets one, whichever
  Organization the project belongs to: here the project names \<open>bb\<close>, whose default is 3.\<close>

lemma default_quota_of_another_organization:
  "effective_quotas demo_quota_ops demo_quota_mirror ''p'' = Some 1 \<and>
   Option.bind (get demo_quota_mirror ORG_NAMESPACE ''Project'' ''p'') (\<lambda>env. ptr_str [''organizationRef'', ''name''] (env_spec env)) =
     Some ''bb''"
  unfolding effective_quotas_def demo_quota_project organization_default_def demo_quota_orgs get_def demo_quota_mirror_facts
  by (simp add: demo_org_def demo_env_def demo_quota_ops_def as_u64_def digits_value_def is_ascii_digit_def
      unwrap_or_def ptr_str_def ORG_NAMESPACE_def)

lemma demo_quota_limit:
  "bt_get (limits demo_quota_ops (effective_quotas demo_quota_ops demo_quota_mirror ''p'')) ''apps'' = Some 1"
  using default_quota_of_another_organization
  by (simp add: limits_def demo_quota_ops_def COUNTED_def bt_collect_def List.map_filter_simps)

lemma demo_app_counts:
  "counts demo_quota_ops m ''p'' ''apps'' ''App'' (env_spec (demo_app n))"
  by (simp add: counts_def demo_app_def demo_env_def get_str_def)

theorem quota_is_kept_witness:
  "check_quotas demo_quota_ops demo_quota_mirror ''p'' ''App'' ''x'' (env_spec (demo_app ''x'')) = Inr () \<and>
   length (counted_list demo_quota_ops (upsert demo_names (demo_app ''x'') demo_quota_mirror) ''p'' ''apps'' ''App'') \<le> 1"
proof -
  have held: "get demo_quota_mirror ''p'' ''App'' ''x'' = Some (demo_app ''x'')"
    by (simp add: get_def demo_quota_mirror_facts ORG_NAMESPACE_def)
  have app: "env_kind (demo_app ''x'') = ''App''" "meta_name (metadata (demo_app ''x'')) = ''x''"
    by (simp_all add: demo_app_def demo_env_def)
  have check: "check_quotas demo_quota_ops demo_quota_mirror ''p'' ''App'' ''x'' (env_spec (demo_app ''x'')) = Inr ()"
    using demo_quota_limit demo_app_counts held
    by (simp add: check_quotas_def COUNTED_def check_dimension_def is_some_and_def)
  have one: "length (counted_list demo_quota_ops demo_quota_mirror ''p'' ''apps'' ''App'') \<le> unat (1 :: 32 word)"
    by (simp add: counted_list_def demo_quota_apps)
  have small: "length (list_kind demo_quota_mirror ''p'' ''App'') < 2 ^ 32 - 1"
    by (simp add: demo_quota_apps)
  have "(''apps'', ''App'') \<in> set COUNTED" by (simp add: COUNTED_def)
  from quota_is_kept [OF demo_quota_mirror_wf this _ demo_quota_limit one small, of "demo_app ''x''"]
  show ?thesis using check by (simp add: app)
qed

text \<open>The write the property leaves out. A project may keep no pipeline resident; its one pipeline
  reads a DataSource that is polled. Making the DataSource an \<open>mqtt\<close> one is accepted, since no
  dimension counts DataSources, and the pipeline is resident from then on.\<close>

definition resident_ops :: "32 word option quota_ops" where
  "resident_ops = demo_quota_ops\<lparr>default_quotas := Some 0, dimensions := (\<lambda>q. [(''residentPipelines'', q)]),
     parse_pipeline := (\<lambda>spec. Some \<lparr>pl_sources = [\<lparr>ps_data_source_ref = get_str ''dataSource'' spec,
       ps_endpoint_ref = None, ps_query = None, ps_trigger = None\<rparr>],
       pl_shortest_clock_seconds = None, pl_period_seconds = None\<rparr>),
     parse_data_source := (\<lambda>spec. Inr (if get_str ''type'' spec = Some ''mqtt'' then Mqtt else Http))\<rparr>"

definition demo_feed :: "string \<Rightarrow> envelope" where
  "demo_feed kind = demo_env ''p'' ''DataSource'' ''feed'' (JObject [(''type'', JString kind)])"

definition resident_mirror :: mirror where
  "resident_mirror = fold (upsert demo_names)
     [demo_feed ''http'', demo_env ''p'' ''Pipeline'' ''hfp'' (JObject [(''dataSource'', JString ''feed'')])] new_mirror"

lemma demo_feed_spec: "env_spec (demo_feed kind) = JObject [(''type'', JString kind)]"
  by (simp add: demo_feed_def demo_env_def)

lemma resident_mirror_kinds:
  "list_kind resident_mirror ''p'' ''Pipeline'' =
     [demo_env ''p'' ''Pipeline'' ''hfp'' (JObject [(''dataSource'', JString ''feed'')])]"
  "list_kind (upsert demo_names (demo_feed ''mqtt'') resident_mirror) ''p'' ''Pipeline'' =
     [demo_env ''p'' ''Pipeline'' ''hfp'' (JObject [(''dataSource'', JString ''feed'')])]"
  "get resident_mirror ''p'' ''DataSource'' ''feed'' = Some (demo_feed ''http'')"
  "get (upsert demo_names (demo_feed ''mqtt'') resident_mirror) ''p'' ''DataSource'' ''feed'' = Some (demo_feed ''mqtt'')"
  "get resident_mirror ORG_NAMESPACE ''Project'' ''p'' = None"
  "list_kind resident_mirror ORG_NAMESPACE ''Organization'' = []"
  by code_simp+

lemma data_source_edit_passes_the_quota:
  "check_quotas resident_ops resident_mirror ''p'' ''DataSource'' ''feed'' (env_spec (demo_feed ''mqtt'')) = Inr () \<and>
   bt_get (limits resident_ops (effective_quotas resident_ops resident_mirror ''p'')) ''residentPipelines'' = Some 0 \<and>
   length (counted_list resident_ops resident_mirror ''p'' ''residentPipelines'' ''Pipeline'') = 0 \<and>
   length (counted_list resident_ops (upsert demo_names (demo_feed ''mqtt'') resident_mirror) ''p''
     ''residentPipelines'' ''Pipeline'') = 1"
proof (intro conjI)
  show "check_quotas resident_ops resident_mirror ''p'' ''DataSource'' ''feed'' (env_spec (demo_feed ''mqtt'')) = Inr ()"
    by (simp add: check_quotas_def COUNTED_def check_dimension_def)
  show "bt_get (limits resident_ops (effective_quotas resident_ops resident_mirror ''p'')) ''residentPipelines'' = Some 0"
    by (simp add: effective_quotas_def own_quotas_def organization_default_def resident_mirror_kinds limits_def
        resident_ops_def COUNTED_def bt_collect_def List.map_filter_simps unwrap_or_def)
qed (simp_all add: counted_list_def counts_def resident_mirror_kinds resident_ops_def demo_env_def demo_feed_spec
    is_some_and_def is_stream_pipeline_def stays_resident_def resolve_data_source_def get_str_def is_resident_def)

text \<open>What the reconciler leaves out is the surplus and nothing else: the manifests it
  keeps and those beyond the quota are together the counted ones by name, the kept ones come
  first, there are at most as many of them as the limit, and something is left out only when the
  limit is used up.\<close>

theorem beyond_is_the_surplus:
  assumes "mirror_wf jc m" and "map_of COUNTED dimension = Some kind"
    and "bt_get (limits qo (effective_quotas qo m project)) dimension = Some lim"
  shows "\<exists>kept. map (\<lambda>env. meta_name (metadata env)) (counted_list qo m project dimension kind) =
      kept @ beyond qo m project dimension \<and>
    length kept \<le> unat lim \<and> (if beyond qo m project dimension = [] then True else length kept = unat lim) \<and>
    sorted_wrt (<) (kept @ beyond qo m project dimension)"
proof -
  let ?names = "map (\<lambda>env. meta_name (metadata env)) (counted_list qo m project dimension kind)"
  have sorted: "sorted_wrt (<) ?names"
    using kind_where_names_sorted [OF assms(1), of project kind "\<lambda>_. True"]
    by (simp add: counted_list_def list_kind_eq sorted_wrt_map sorted_wrt_filter)
  then have "sort ?names = ?names" by (simp add: strict_sorted_iff sorted_sort_id)
  then have b: "beyond qo m project dimension = drop (min (unat lim) (length ?names)) ?names"
    using assms(2,3) by (simp add: beyond_def Let_def)
  show ?thesis
    by (rule exI [of _ "take (min (unat lim) (length ?names)) ?names"]) (use sorted in \<open>auto simp: b\<close>)
qed

theorem beyond_is_the_surplus_witness:
  "\<exists>kept. map (\<lambda>env. meta_name (metadata env)) (counted_list demo_quota_ops demo_quota_mirror ''p'' ''apps'' ''App'') =
      kept @ beyond demo_quota_ops demo_quota_mirror ''p'' ''apps'' \<and> length kept \<le> unat (1 :: 32 word)"
proof -
  have "map_of COUNTED ''apps'' = Some ''App''" by (simp add: COUNTED_def)
  from beyond_is_the_surplus [OF demo_quota_mirror_wf this demo_quota_limit] show ?thesis by blast
qed

end
