(* ===== verification/Clock.thy ===== *)
theory Clock
  imports Prelude "HOL-Library.Word"
begin

unbundle bit_operations_syntax

text \<open>
  When a pipeline runs: cron fields, periods and the lane of a clock
  (\<open>src/reconciler/run_queue.rs\<close>, and \<open>duration_of\<close> of \<open>src/reconciler/streams/render.rs\<close>).

  An instant is an integer of nanoseconds since 1970-01-01T00:00Z and a duration a number of
  milliseconds. What chrono computes of an instant, its calendar fields and its rng, is the
  record \<open>chrono\<close>. \<open>i64\<close> arithmetic wraps around, as the release build does; a period whose
  milliseconds are 0 modulo \<open>2 ^ 64\<close> divides by zero, which is \<open>next_after_panics\<close>.
\<close>

subsection \<open>Cron fields\<close>

text \<open>\<open>str::parse\<close> of an unsigned integer of \<open>w\<close> bits.\<close>

definition parse_unsigned :: "nat \<Rightarrow> string \<Rightarrow> nat option" where
  "parse_unsigned w s =
     (let ds = (case s of c # cs \<Rightarrow> if c = CHR ''+'' then cs else s | [] \<Rightarrow> s)
      in if ds \<noteq> [] \<and> list_all is_ascii_digit ds \<and> digits_value ds < 2 ^ w
         then Some (digits_value ds) else None)"

text \<open>The first value, the last and the step one part of a field names.\<close>

definition field_part :: "nat \<Rightarrow> nat \<Rightarrow> string \<Rightarrow> (nat \<times> nat \<times> nat) option" where
  "field_part lo hi part =
     Option.bind
       (case split_once ''/'' part of
          Some (rng, step) \<Rightarrow>
            (case parse_unsigned 32 step of
               Some s \<Rightarrow> if s > 0 then Some (rng, Some s) else None
             | None \<Rightarrow> None)
        | None \<Rightarrow> Some (part, None)) (\<lambda>(rng, step).
     Option.bind
       (if rng = ''*'' then Some (lo, hi)
        else
          (case split_once ''-'' rng of
             Some (a, b) \<Rightarrow>
               Option.bind (parse_unsigned 32 a) (\<lambda>from. map_option (\<lambda>to. (from, to)) (parse_unsigned 32 b))
           | None \<Rightarrow> map_option (\<lambda>from. (from, if step \<noteq> None then hi else from)) (parse_unsigned 32 rng)))
       (\<lambda>(from, to).
     if from < lo \<or> to > hi \<or> from > to then None
     else Some (from, to, unwrap_or 1 step)))"

definition set_bits_from :: "nat \<times> nat \<times> nat \<Rightarrow> 64 word \<Rightarrow> 64 word" where
  "set_bits_from = (\<lambda>(from, to, step) s.
     fold (\<lambda>k s. s OR push_bit (from + k * step) 1) [0..<(to - from) div step + 1] s)"

fun field_parts :: "nat \<Rightarrow> nat \<Rightarrow> string list \<Rightarrow> 64 word \<Rightarrow> 64 word option" where
  "field_parts lo hi [] s = Some s"
| "field_parts lo hi (part # parts) s =
     Option.bind (field_part lo hi part) (\<lambda>p. field_parts lo hi parts (set_bits_from p s))"

definition field :: "string \<Rightarrow> nat \<Rightarrow> nat \<Rightarrow> 64 word option" where
  "field text lo hi = field_parts lo hi (str_split CHR '','' text) 0"

record cron =
  minutes :: "64 word"
  hours :: "64 word"
  days :: "64 word"
  months :: "64 word"
  weekdays :: "64 word"
  any_day :: bool
  any_weekday :: bool

definition cron_parse :: "string \<Rightarrow> cron option" where
  "cron_parse text =
     (case split_whitespace text of
        [minute, hour, day, month, weekday] \<Rightarrow>
          Option.bind (field weekday 0 7) (\<lambda>w.
          let w = (if w AND push_bit 7 1 \<noteq> 0 then w OR 1 else w) in
          Option.bind (field minute 0 59) (\<lambda>mi.
          Option.bind (field hour 0 23) (\<lambda>h.
          Option.bind (field day 1 31) (\<lambda>d.
          Option.bind (field month 1 12) (\<lambda>mo.
            Some \<lparr>minutes = mi, hours = h, days = d, months = mo, weekdays = w,
              any_day = starts_with ''*'' day, any_weekday = starts_with ''*'' weekday\<rparr>)))))
      | _ \<Rightarrow> None)"

subsection \<open>Calendar and cron\<close>

record chrono =
  from_timestamp_millis :: "int \<Rightarrow> int option"
  minute_start :: "int \<Rightarrow> int option"
  ch_minute :: "int \<Rightarrow> nat"
  ch_hour :: "int \<Rightarrow> nat"
  ch_day :: "int \<Rightarrow> nat"
  ch_month :: "int \<Rightarrow> nat"
  ch_weekday :: "int \<Rightarrow> nat"
  stamp :: "int \<Rightarrow> string"

definition MINUTE :: int where
  "MINUTE = 60 * 1000000000"

definition has :: "64 word \<Rightarrow> nat \<Rightarrow> bool" where
  "has s v \<longleftrightarrow> s AND push_bit v 1 \<noteq> 0"

definition cron_matches :: "chrono \<Rightarrow> cron \<Rightarrow> int \<Rightarrow> bool" where
  "cron_matches ch c t =
     (let day = has (days c) (ch_day ch t);
          weekday = has (weekdays c) (ch_weekday ch t);
          day_ok = (case (any_day c, any_weekday c) of
                      (True, True) \<Rightarrow> True
                    | (True, False) \<Rightarrow> weekday
                    | (False, True) \<Rightarrow> day
                    | (False, False) \<Rightarrow> day \<or> weekday)
      in has (minutes c) (ch_minute ch t) \<and> has (hours c) (ch_hour ch t) \<and>
         has (months c) (ch_month ch t) \<and> day_ok)"

fun scan :: "chrono \<Rightarrow> cron \<Rightarrow> nat \<Rightarrow> int \<Rightarrow> int option" where
  "scan ch c 0 at = None"
| "scan ch c (Suc n) at = (if cron_matches ch c at then Some at else scan ch c n (at + MINUTE))"

definition cron_next_after :: "chrono \<Rightarrow> cron \<Rightarrow> int \<Rightarrow> int option" where
  "cron_next_after ch c t =
     Option.bind (minute_start ch t) (\<lambda>start. scan ch c (366 * 24 * 60) (start + MINUTE))"

definition cron_phase :: "chrono \<Rightarrow> cron \<Rightarrow> nat \<Rightarrow> nat" where
  "cron_phase ch c every =
     (let since = (case cron_next_after ch c (0 - MINUTE) of
                     None \<Rightarrow> 0
                   | Some first \<Rightarrow> if first \<ge> 0 then nat (first div 1000000) else 0)
      in since mod max every 1)"

subsection \<open>Clocks\<close>

datatype queue_lane = Batch | Short

datatype clock = Once | Every nat nat | CronClock cron

text \<open>\<open>u64\<close> multiplication wraps around, as the release build does.\<close>

definition wrap_mul :: "nat \<Rightarrow> nat \<Rightarrow> nat" where
  "wrap_mul a b = (a * b) mod 2 ^ 64"

definition duration_of :: "string \<Rightarrow> nat option" where
  "duration_of raw =
     (let text = str_trim raw;
          number = takeWhile is_ascii_digit text;
          unit = dropWhile is_ascii_digit text
      in if unit = [] then None
         else Option.bind (parse_unsigned 64 number) (\<lambda>n.
           if unit = ''ms'' then Some n
           else if unit = ''s'' then Some (n * 1000)
           else if unit = ''m'' then Some (wrap_mul n 60 * 1000)
           else if unit = ''h'' then Some (wrap_mul n 3600 * 1000)
           else None))"

definition given :: "string option \<Rightarrow> string option" where
  "given v = (case v of None \<Rightarrow> None | Some s \<Rightarrow> if str_trim s = [] then None else Some (str_trim s))"

definition clock_of :: "chrono \<Rightarrow> string option \<Rightarrow> string option \<Rightarrow> string + clock" where
  "clock_of ch period schedule =
     and_then
       (case given schedule of
          None \<Rightarrow> Inr None
        | Some s \<Rightarrow>
            (case cron_parse s of
               None \<Rightarrow> Inl (''schedule `'' @ s @ ''` is not five cron fields (`0 5 * * *`)'')
             | Some c \<Rightarrow> Inr (Some c))) (\<lambda>cron.
     (case given period of
        None \<Rightarrow> Inr (case cron of None \<Rightarrow> Once | Some c \<Rightarrow> CronClock c)
      | Some p \<Rightarrow>
          (case duration_of p of
             Some every \<Rightarrow>
               if every \<ge> 1000 then Inr (Every every (case cron of None \<Rightarrow> 0 | Some c \<Rightarrow> cron_phase ch c every))
               else Inl (''period `'' @ p @ ''` is not a duration of at least 1s (`30s`, `5m`, `24h`)'')
           | None \<Rightarrow> Inl (''period `'' @ p @ ''` is not a duration of at least 1s (`30s`, `5m`, `24h`)''))))"

definition as_i64 :: "int \<Rightarrow> int" where
  "as_i64 x = sint (word_of_int x :: 64 word)"

definition div_euclid :: "int \<Rightarrow> int \<Rightarrow> int" where
  "div_euclid a b = (if b > 0 then a div b else - (a div (- b)))"

definition next_after_panics :: "clock \<Rightarrow> bool" where
  "next_after_panics clock = (case clock of Every every _ \<Rightarrow> as_i64 (int every) = 0 | _ \<Rightarrow> False)"

definition next_after :: "chrono \<Rightarrow> clock \<Rightarrow> int \<Rightarrow> int option" where
  "next_after ch clock t =
     (case clock of
        Once \<Rightarrow> None
      | Every every phase \<Rightarrow>
          let e = as_i64 (int every); p = as_i64 (int phase);
              at = as_i64 ((div_euclid (as_i64 (t div 1000000 - p)) e + 1) * e + p)
          in from_timestamp_millis ch at
      | CronClock c \<Rightarrow> cron_next_after ch c t)"

definition SHORT_BELOW :: nat where
  "SHORT_BELOW = 5 * 60 * 1000"

definition lane_of :: "chrono \<Rightarrow> clock \<Rightarrow> int \<Rightarrow> queue_lane" where
  "lane_of ch clock now =
     (case next_after ch clock now of
        None \<Rightarrow> Batch
      | Some first \<Rightarrow>
          (case next_after ch clock first of
             None \<Rightarrow> Batch
           | Some second \<Rightarrow> if max 0 (second - first) < int SHORT_BELOW * 1000000 then Short else Batch))"


subsection \<open>What a clock promises\<close>

text \<open>
  What the documentation of chrono says of the operations used, within the years it represents:
  a millisecond count is an instant, and clearing seconds and nanoseconds gives the start of the
  minute.
\<close>

definition CHRONO_MAX :: int where
  "CHRONO_MAX = 8000000000000000"

definition chrono_laws :: "chrono \<Rightarrow> bool" where
  "chrono_laws ch \<longleftrightarrow>
     (\<forall>m x. from_timestamp_millis ch m = Some x \<longrightarrow> x = m * 1000000) \<and>
     (\<forall>m. \<bar>m\<bar> \<le> CHRONO_MAX \<longrightarrow> from_timestamp_millis ch m = Some (m * 1000000)) \<and>
     (\<forall>t. minute_start ch t = Some (t - t mod MINUTE))"

text \<open>The instants a clock names, read off its definition and not off the search for the next one.\<close>

definition fires :: "chrono \<Rightarrow> clock \<Rightarrow> int \<Rightarrow> bool" where
  "fires ch clock x =
     (case clock of
        Once \<Rightarrow> False
      | Every every phase \<Rightarrow> x mod 1000000 = 0 \<and> (x div 1000000 - int phase) mod int every = 0
      | CronClock c \<Rightarrow> x mod MINUTE = 0 \<and> cron_matches ch c x)"

definition clock_wf :: "clock \<Rightarrow> bool" where
  "clock_wf clock =
     (case clock of Every every phase \<Rightarrow> 0 < every \<and> every < 2 ^ 62 \<and> phase < every | _ \<Rightarrow> True)"

lemma scan_Some:
  "scan ch c n at = Some x \<Longrightarrow>
     \<exists>k < n. x = at + int k * MINUTE \<and> cron_matches ch c x \<and> (\<forall>j < k. \<not> cron_matches ch c (at + int j * MINUTE))"
proof (induction n arbitrary: at)
  case (Suc n)
  show ?case
  proof (cases "cron_matches ch c at")
    case True
    then show ?thesis using Suc.prems by (intro exI [of _ 0]) simp
  next
    case False
    then obtain k where k: "k < n" "x = at + MINUTE + int k * MINUTE" "cron_matches ch c x"
      "\<forall>j < k. \<not> cron_matches ch c (at + MINUTE + int j * MINUTE)"
      using Suc by fastforce
    have "\<not> cron_matches ch c (at + int j * MINUTE)" if "j < Suc k" for j
      using that k(4) False by (cases j) (auto simp: algebra_simps)
    then show ?thesis using k(1-3) by (intro exI [of _ "Suc k"]) (simp add: algebra_simps)
  qed
qed simp

lemma scan_None:
  "scan ch c n at = None \<Longrightarrow> k < n \<Longrightarrow> \<not> cron_matches ch c (at + int k * MINUTE)"
proof (induction n arbitrary: at k)
  case (Suc n)
  show ?case
  proof (cases k)
    case 0
    then show ?thesis using Suc.prems by (auto split: if_splits)
  next
    case (Suc j)
    then show ?thesis using Suc.prems Suc.IH [of "at + MINUTE" j]
      by (auto simp: algebra_simps split: if_splits)
  qed
qed simp

lemma MINUTE_pos: "MINUTE > 0"
  by (simp add: MINUTE_def)

lemma minute_above:
  assumes "t < y" "y mod MINUTE = 0"
  obtains k where "y = t - t mod MINUTE + MINUTE + int k * MINUTE"
proof -
  have "y div MINUTE > t div MINUTE"
  proof (rule ccontr)
    assume "\<not> ?thesis"
    then have "y div MINUTE * MINUTE \<le> t div MINUTE * MINUTE"
      using MINUTE_pos by (intro mult_right_mono) auto
    then show False using assms MINUTE_pos
      by (metis add.right_neutral div_mult_mod_eq linorder_not_less order.trans pos_mod_sign le_add_same_cancel1)
  qed
  then obtain k where k: "y div MINUTE = t div MINUTE + 1 + int k"
    by (metis add.commute zless_iff_Suc_zadd add.assoc of_nat_Suc)
  have "y = (t div MINUTE + 1 + int k) * MINUTE"
    using assms(2) k by (metis add.right_neutral div_mult_mod_eq)
  also have "\<dots> = t - t mod MINUTE + MINUTE + int k * MINUTE"
    by (simp add: algebra_simps minus_mod_eq_mult_div)
  finally show ?thesis using that by blast
qed

lemma minute_above_mod: "(t - t mod MINUTE + MINUTE + int k * MINUTE) mod MINUTE = 0"
  by (simp add: minus_mod_eq_mult_div)

lemma cron_next_after_first:
  assumes "chrono_laws ch" "cron_next_after ch c t = Some x"
  shows "t < x \<and> fires ch (CronClock c) x \<and> (\<forall>y. t < y \<and> y < x \<longrightarrow> \<not> fires ch (CronClock c) y)"
proof -
  let ?a = "t - t mod MINUTE + MINUTE"
  have "scan ch c (366 * 24 * 60) ?a = Some x"
    using assms by (simp add: cron_next_after_def chrono_laws_def)
  then obtain k where k: "x = ?a + int k * MINUTE" "cron_matches ch c x"
    "\<forall>j < k. \<not> cron_matches ch c (?a + int j * MINUTE)" using scan_Some by blast
  have "t < ?a" using MINUTE_pos pos_mod_bound [of MINUTE t] by simp
  then have "t < x" using k(1) MINUTE_pos by (simp add: add.commute add_strict_increasing2)
  moreover have "\<not> fires ch (CronClock c) y" if y: "t < y" "y < x" for y
  proof
    assume f: "fires ch (CronClock c) y"
    then obtain j where j: "y = ?a + int j * MINUTE" using minute_above [OF y(1)] by (auto simp: fires_def)
    then have "j < k" using y(2) k(1) MINUTE_pos by simp
    then show False using f k(3) j by (auto simp: fires_def)
  qed
  ultimately show ?thesis using k minute_above_mod by (auto simp: fires_def)
qed

lemma cron_next_after_none:
  assumes "chrono_laws ch" "cron_next_after ch c t = None" "t < y" "y \<le> t + 366 * 24 * 60 * MINUTE"
  shows "\<not> fires ch (CronClock c) y"
proof
  let ?a = "t - t mod MINUTE + MINUTE"
  assume f: "fires ch (CronClock c) y"
  then obtain k where k: "y = ?a + int k * MINUTE" using minute_above [OF assms(3)] by (auto simp: fires_def)
  have "?a \<ge> t - MINUTE + 1 + MINUTE" using pos_mod_bound [OF MINUTE_pos, of t] by linarith
  then have "int k * MINUTE < 366 * 24 * 60 * MINUTE" using k assms(4) by linarith
  then have "k < 366 * 24 * 60" using MINUTE_pos by simp
  then show False using f k assms(1,2) scan_None [of ch c "366 * 24 * 60" ?a k]
    by (simp add: cron_next_after_def chrono_laws_def fires_def)
qed


lemma as_i64_small: "\<bar>x\<bar> < 2 ^ 63 \<Longrightarrow> as_i64 x = x"
  unfolding as_i64_def by (simp add: signed_take_bit_int_eq_self sint_sbintrunc')

lemma first_multiple_above:
  fixes e p m a :: int
  assumes e: "0 < e" and a: "a = ((m - p) div e + 1) * e + p"
  shows "m < a \<and> a \<le> m + e \<and> (a - p) mod e = 0 \<and> (\<forall>b. m < b \<and> b < a \<longrightarrow> (b - p) mod e \<noteq> 0)"
proof (intro conjI allI impI)
  let ?q = "(m - p) div e" and ?r = "(m - p) mod e"
  have m: "m - p = ?q * e + ?r" and r: "0 \<le> ?r" "?r < e" using e by simp_all
  have a': "a - p = ?q * e + e" using a by (simp add: algebra_simps)
  show "m < a" "a \<le> m + e" using m r a' by linarith+
  show "(a - p) mod e = 0" using a by simp
  fix b assume b: "m < b \<and> b < a"
  define d where "d = b - p - ?q * e"
  have d: "0 < d" "d < e" unfolding d_def using b m r a' by linarith+
  have "(b - p) mod e = (?q * e + d) mod e" by (simp add: d_def)
  also have "\<dots> = d" using d by simp
  finally show "(b - p) mod e \<noteq> 0" using d by simp
qed

lemma next_after_every:
  assumes "0 < every" "every < 2 ^ 62" "phase < every" "\<bar>t div 1000000\<bar> \<le> CHRONO_MAX"
  shows "next_after ch (Every every phase) t =
    from_timestamp_millis ch (((t div 1000000 - int phase) div int every + 1) * int every + int phase)"
proof -
  let ?m = "t div 1000000" and ?e = "int every" and ?p = "int phase"
  let ?a = "((?m - ?p) div ?e + 1) * ?e + ?p"
  have e: "?e < 2 ^ 62" "?p < ?e" "0 < ?e" using assms(1-3) by simp_all
  have m: "\<bar>?m\<bar> \<le> 8000000000000000" using assms(4) by (simp add: CHRONO_MAX_def)
  have "?m < ?a" "?a \<le> ?m + ?e" using first_multiple_above [OF e(3) refl] by blast+
  then have "as_i64 ?a = ?a" using m e by (intro as_i64_small) simp
  moreover have "as_i64 ?e = ?e" "as_i64 ?p = ?p" "as_i64 (?m - ?p) = ?m - ?p"
    using m e by (intro as_i64_small; simp)+
  ultimately show ?thesis using e by (simp add: next_after_def div_euclid_def Let_def)
qed

lemma next_after_first:
  assumes "chrono_laws ch" "clock_wf clock" "\<bar>t div 1000000\<bar> \<le> CHRONO_MAX" "next_after ch clock t = Some x"
  shows "t < x \<and> fires ch clock x \<and> (\<forall>y. t < y \<and> y < x \<longrightarrow> \<not> fires ch clock y)"
proof (cases clock)
  case Once
  then show ?thesis using assms(4) by (simp add: next_after_def)
next
  case (CronClock c)
  then show ?thesis using assms cron_next_after_first by (simp add: next_after_def)
next
  case (Every every phase)
  let ?m = "t div 1000000"
  define a where "a = ((?m - int phase) div int every + 1) * int every + int phase"
  have pre: "0 < every" "every < 2 ^ 62" "phase < every" using assms(2) Every by (simp_all add: clock_wf_def)
  then have "from_timestamp_millis ch a = Some x"
    using assms(4) next_after_every [OF pre assms(3)] Every by (simp add: a_def)
  then have x: "x = a * 1000000" using assms(1) unfolding chrono_laws_def by blast
  have above: "?m < a" "(a - int phase) mod int every = 0"
    "\<forall>b. ?m < b \<and> b < a \<longrightarrow> (b - int phase) mod int every \<noteq> 0"
    using first_multiple_above [of "int every" a ?m "int phase"] pre(1) by (auto simp: a_def)
  have "\<not> fires ch clock y" if "t < y" "y < x" for y
  proof
    assume f: "fires ch clock y"
    then have y: "y = y div 1000000 * 1000000" using Every by (auto simp: fires_def)
    then have "?m < y div 1000000" "y div 1000000 < a" using that x by linarith+
    then show False using above(3) f Every by (auto simp: fires_def)
  qed
  moreover have "t < x" using above(1) x by linarith
  moreover have "fires ch clock x" using x above(2) Every by (simp add: fires_def)
  ultimately show ?thesis by blast
qed

lemma next_after_none:
  assumes "chrono_laws ch" "clock_wf clock" "\<bar>t div 1000000\<bar> \<le> CHRONO_MAX div 2"
    "next_after ch clock t = None" "t < y" "y \<le> t + 366 * 24 * 60 * MINUTE"
  shows "\<not> fires ch clock y"
proof (cases clock)
  case Once
  then show ?thesis by (simp add: fires_def)
next
  case (CronClock c)
  then show ?thesis using assms cron_next_after_none by (simp add: next_after_def)
next
  case (Every every phase)
  let ?m = "t div 1000000"
  let ?a = "((?m - int phase) div int every + 1) * int every + int phase"
  have pre: "0 < every" "every < 2 ^ 62" "phase < every" using assms(2) Every by (simp_all add: clock_wf_def)
  have m: "\<bar>?m\<bar> \<le> CHRONO_MAX" using assms(3) by (simp add: CHRONO_MAX_def)
  have a: "?m < ?a" "\<forall>b. ?m < b \<and> b < ?a \<longrightarrow> (b - int phase) mod int every \<noteq> 0"
    using first_multiple_above [of "int every" ?a ?m "int phase"] pre(1) by auto
  have "\<not> \<bar>?a\<bar> \<le> CHRONO_MAX"
    using assms(1,4) next_after_every [OF pre m, of ch] Every by (auto simp: chrono_laws_def)
  then have big: "?a > CHRONO_MAX" using a(1) m assms(3) by (auto simp: CHRONO_MAX_def)
  show ?thesis
  proof
    assume f: "fires ch clock y"
    then have y: "y = y div 1000000 * 1000000" using Every by (auto simp: fires_def)
    then have "?m < y div 1000000" "y div 1000000 < ?a"
      using assms(3,5,6) big by (simp_all add: CHRONO_MAX_def MINUTE_def)
    then show False using a(2) f Every by (auto simp: fires_def)
  qed
qed


subsection \<open>What the queue relies on\<close>

text \<open>
  The queue asks a clock for its next instant only. What it relies on is that the answer lies after
  the instant asked and that no run the clock names is passed over; \<open>ok\<close> says for which clocks and
  instants.
\<close>

locale forward_clock =
  fixes upcoming :: "'c \<Rightarrow> int \<Rightarrow> int option" and ok :: "'c \<Rightarrow> int \<Rightarrow> bool" and named :: "'c \<Rightarrow> int \<Rightarrow> bool"
  assumes later: "ok c t \<Longrightarrow> upcoming c t = Some x \<Longrightarrow> t < x"
    and is_named: "ok c t \<Longrightarrow> upcoming c t = Some x \<Longrightarrow> named c x"
    and none_skipped: "ok c t \<Longrightarrow> upcoming c t = Some x \<Longrightarrow> t < y \<Longrightarrow> y < x \<Longrightarrow> \<not> named c y"
begin

lemma gap_positive:
  "ok c t \<Longrightarrow> upcoming c t = Some a \<Longrightarrow> ok c a \<Longrightarrow> upcoming c a = Some b \<Longrightarrow> 0 < b - a"
  using later [of c a b] by simp

lemma no_run_missed:
  "ok c t \<Longrightarrow> upcoming c t = Some x \<Longrightarrow> named c y \<Longrightarrow> t < y \<Longrightarrow> x \<le> y"
  using none_skipped [of c t x y] by force

lemma asked_later_agrees:
  assumes "ok c t" "ok c u" "upcoming c t = Some x" "t \<le> u" "u < x" "upcoming c u = Some y"
  shows "y = x"
proof (rule antisym)
  show "y \<le> x" using no_run_missed [OF assms(2,6) is_named [OF assms(1,3)] assms(5)] .
  show "x \<le> y" using no_run_missed [OF assms(1,3) is_named [OF assms(2,6)]] later [OF assms(2,6)] assms(4) by simp
qed

end

definition clock_ok :: "chrono \<Rightarrow> clock \<Rightarrow> int \<Rightarrow> bool" where
  "clock_ok ch clock t \<longleftrightarrow> chrono_laws ch \<and> clock_wf clock \<and> \<bar>t div 1000000\<bar> \<le> CHRONO_MAX"

interpretation run_clock: forward_clock "next_after ch" "clock_ok ch" "fires ch" for ch
proof unfold_locales
  fix c t x assume "clock_ok ch c t" "next_after ch c t = Some x"
  then have first: "t < x \<and> fires ch c x \<and> (\<forall>y. t < y \<and> y < x \<longrightarrow> \<not> fires ch c y)"
    using next_after_first unfolding clock_ok_def by blast
  show "t < x" "fires ch c x" using first by blast+
  fix y assume "t < y" "y < x"
  then show "\<not> fires ch c y" using first by blast
qed

subsection \<open>What a cron text means\<close>

lemma has_iff_bit: "v < 64 \<Longrightarrow> has s v \<longleftrightarrow> bit s v"
  by (simp add: has_def and_exp_eq_0_iff_not_bit)

lemma bit_fold_or:
  fixes s :: "64 word"
  shows "bit (fold (\<lambda>k s. s OR push_bit (f k) 1) ks s) v \<longleftrightarrow> bit s v \<or> (v < 64 \<and> (\<exists>k \<in> set ks. v = f k))"
proof (induction ks arbitrary: s)
  case (Cons k ks)
  have "bit (s OR push_bit (f k) 1) v \<longleftrightarrow> bit s v \<or> (v < 64 \<and> v = f k)"
    by (auto simp: bit_or_iff bit_exp_iff)
  then show ?case using Cons.IH [of "s OR push_bit (f k) 1"] by auto
qed simp

lemma step_iff:
  fixes a b st v :: nat
  assumes "0 < st" "a \<le> b"
  shows "(\<exists>k \<in> set [0..<(b - a) div st + 1]. v = a + k * st) \<longleftrightarrow> a \<le> v \<and> v \<le> b \<and> (v - a) mod st = 0"
proof
  assume "\<exists>k \<in> set [0..<(b - a) div st + 1]. v = a + k * st"
  then obtain k where k: "k \<le> (b - a) div st" "v = a + k * st" by (auto simp: less_Suc_eq_le simp del: upt_Suc)
  then have "k * st \<le> b - a" using assms(1) by (simp add: less_eq_div_iff_mult_less_eq)
  then show "a \<le> v \<and> v \<le> b \<and> (v - a) mod st = 0" using k assms(2) by simp
next
  assume r: "a \<le> v \<and> v \<le> b \<and> (v - a) mod st = 0"
  then have "(v - a) div st \<le> (b - a) div st" by (intro div_le_mono) linarith
  moreover have "v = a + (v - a) div st * st" using r by auto
  ultimately show "\<exists>k \<in> set [0..<(b - a) div st + 1]. v = a + k * st"
    by (intro bexI [of _ "(v - a) div st"]) auto
qed

lemma field_part_bounds:
  "field_part lo hi part = Some (a, b, st) \<Longrightarrow> lo \<le> a \<and> a \<le> b \<and> b \<le> hi \<and> 0 < st"
  unfolding field_part_def unwrap_or_def
  by (auto simp: bind_eq_Some_conv split: option.splits if_splits prod.splits)

definition part_names :: "nat \<Rightarrow> nat \<Rightarrow> nat \<Rightarrow> string \<Rightarrow> bool" where
  "part_names lo hi v part =
     (case field_part lo hi part of
        None \<Rightarrow> False
      | Some (a, b, st) \<Rightarrow> a \<le> v \<and> v \<le> b \<and> (v - a) mod st = 0)"

lemma field_parts_bits:
  "field_parts lo hi parts s = Some r \<Longrightarrow> hi < 64 \<Longrightarrow>
     bit r v \<longleftrightarrow> bit s v \<or> (\<exists>part \<in> set parts. part_names lo hi v part)"
proof (induction parts arbitrary: s)
  case (Cons part parts)
  then obtain a b st where f: "field_part lo hi part = Some (a, b, st)"
    and r: "field_parts lo hi parts (set_bits_from (a, b, st) s) = Some r"
    by (auto simp: bind_eq_Some_conv)
  note bounds = field_part_bounds [OF f]
  have st: "0 < st" "a \<le> b" using bounds by simp_all
  have "bit (set_bits_from (a, b, st) s) v \<longleftrightarrow> bit s v \<or> part_names lo hi v part"
  proof -
    have "bit (set_bits_from (a, b, st) s) v \<longleftrightarrow>
        bit s v \<or> (v < 64 \<and> a \<le> v \<and> v \<le> b \<and> (v - a) mod st = 0)"
      unfolding set_bits_from_def prod.case bit_fold_or step_iff [OF st, of v] by (rule refl)
    then show ?thesis using bounds Cons.prems(2) f by (auto simp: part_names_def)
  qed
  then show ?case using Cons.IH [OF r Cons.prems(2)] by auto
qed simp

lemma field_bits:
  "field text lo hi = Some s \<Longrightarrow> hi < 64 \<Longrightarrow> v < 64 \<Longrightarrow>
     has s v \<longleftrightarrow> (\<exists>part \<in> set (str_split CHR '','' text). part_names lo hi v part)"
  using field_parts_bits [of lo hi "str_split CHR '','' text" 0 s v] by (simp add: field_def has_iff_bit)


lemma cron_parse_fields:
  assumes "cron_parse text = Some c"
  obtains minute hour day month weekday w where
    "split_whitespace text = [minute, hour, day, month, weekday]"
    "field minute 0 59 = Some (minutes c)" "field hour 0 23 = Some (hours c)"
    "field day 1 31 = Some (days c)" "field month 1 12 = Some (months c)"
    "field weekday 0 7 = Some w" "weekdays c = (if w AND push_bit 7 1 \<noteq> 0 then w OR 1 else w)"
    "any_day c = starts_with ''*'' day" "any_weekday c = starts_with ''*'' weekday"
  using assms unfolding cron_parse_def Let_def
  by (auto simp: bind_eq_Some_conv split: list.splits)

lemma weekday_bits:
  "v < 7 \<Longrightarrow> has (if w AND push_bit 7 1 \<noteq> 0 then w OR 1 else w) v \<longleftrightarrow> has w v \<or> v = 0 \<and> has w 7"
  unfolding and_exp_eq_0_iff_not_bit push_bit_of_1
  by (auto simp: has_iff_bit bit_or_iff bit_1_iff)

subsection \<open>A calendar and concrete clocks\<close>

text \<open>The Gregorian calendar in UTC, from the number of days since 1970-01-01.\<close>

definition civil :: "int \<Rightarrow> nat \<times> nat" where
  "civil days_since =
     (let z = days_since + 719468;
          doe = z mod 146097;
          yoe = (doe - doe div 1460 + doe div 36524 - doe div 146096) div 365;
          doy = doe - (365 * yoe + yoe div 4 - yoe div 100);
          mp = (5 * doy + 2) div 153
      in (nat (if mp < 10 then mp + 3 else mp - 9), nat (doy - (153 * mp + 2) div 5 + 1)))"

definition gregorian :: chrono where
  "gregorian =
     \<lparr>from_timestamp_millis = (\<lambda>m. Some (m * 1000000)),
      minute_start = (\<lambda>t. Some (t - t mod MINUTE)),
      ch_minute = (\<lambda>t. nat (t div MINUTE mod 60)),
      ch_hour = (\<lambda>t. nat (t div (60 * MINUTE) mod 24)),
      ch_day = (\<lambda>t. snd (civil (t div (1440 * MINUTE)))),
      ch_month = (\<lambda>t. fst (civil (t div (1440 * MINUTE)))),
      ch_weekday = (\<lambda>t. nat ((t div (1440 * MINUTE) + 4) mod 7)),
      stamp = (\<lambda>t. show_nat (nat (t div 1000000000)))\<rparr>"

lemma gregorian_laws: "chrono_laws gregorian"
  by (simp add: chrono_laws_def gregorian_def)

definition daily_at_2155 :: clock where
  "daily_at_2155 = Every 86400000 78900000"

lemma daily_wf: "clock_wf daily_at_2155"
  by (simp add: clock_wf_def daily_at_2155_def)

lemma daily_next: "next_after gregorian daily_at_2155 0 = Some 78900000000000"
  unfolding daily_at_2155_def by (simp add: next_after_every CHRONO_MAX_def gregorian_def)

lemma parse_unsigned_digit:
  "parse_unsigned w [c] = (if c \<noteq> CHR ''+'' \<and> is_ascii_digit c \<and> digits_value [c] < 2 ^ w
     then Some (digits_value [c]) else None)"
  by (simp add: parse_unsigned_def Let_def)

lemma star_part: "lo \<le> hi \<Longrightarrow> field_part lo hi ''*'' = Some (lo, hi, 1)"
  by (simp add: field_part_def unwrap_or_def)

lemma digit_part:
  assumes "is_ascii_digit c" "lo \<le> digits_value [c]" "digits_value [c] \<le> hi" "digits_value [c] < 2 ^ 32"
  shows "field_part lo hi [c] = Some (digits_value [c], digits_value [c], 1)"
proof -
  have "c \<noteq> CHR ''/''" "c \<noteq> CHR ''-''" "c \<noteq> CHR ''*''" "c \<noteq> CHR ''+''"
    using assms(1) by (auto simp: is_ascii_digit_def)
  then show ?thesis using assms by (simp add: field_part_def parse_unsigned_digit unwrap_or_def)
qed

lemma cron_demo_parses: "\<exists>c. cron_parse ''0 5 * * 7'' = Some c"
proof -
  have w: "split_whitespace ''0 5 * * 7'' = [''0'', ''5'', ''*'', ''*'', ''7'']" by code_simp
  have d: "digits_value ''0'' = 0" "digits_value ''5'' = 5" "digits_value ''7'' = 7" by code_simp+
  have a: "is_ascii_digit CHR ''0''" "is_ascii_digit CHR ''5''" "is_ascii_digit CHR ''7''" by code_simp+
  show ?thesis unfolding cron_parse_def w
    by (simp add: field_def digit_part star_part d a Let_def)
qed

subsection \<open>Properties\<close>

text \<open>
  Property C24. The next run of a clock is the first instant strictly after the time asked that the
  clock names: a period's next multiple shifted by its phase, a cron's next matching minute. When
  there is none, the clock names no instant of the following 366 days. \<open>i64\<close> arithmetic does not
  wrap around here, for a period under \<open>2 ^ 62\<close> ms.
\<close>

theorem next_run_is_the_first:
  assumes "chrono_laws ch" "clock_wf clock" "\<bar>t div 1000000\<bar> \<le> CHRONO_MAX div 2"
  shows "case next_after ch clock t of
      Some x \<Rightarrow> t < x \<and> fires ch clock x \<and> (\<forall>y. t < y \<and> y < x \<longrightarrow> \<not> fires ch clock y)
    | None \<Rightarrow> (\<forall>y. t < y \<and> y \<le> t + 366 * 24 * 60 * MINUTE \<longrightarrow> \<not> fires ch clock y)"
proof -
  have "\<bar>t div 1000000\<bar> \<le> CHRONO_MAX" using assms(3) by (simp add: CHRONO_MAX_def)
  then show ?thesis using assms next_after_first [of ch clock t] next_after_none [of ch clock t]
    by (auto split: option.split)
qed

theorem next_run_is_the_first_witness:
  "fires gregorian daily_at_2155 78900000000000 \<and> \<not> fires gregorian daily_at_2155 60000000000000"
  using next_run_is_the_first [OF gregorian_laws daily_wf, of 0]
  by (simp add: daily_next CHRONO_MAX_def)

text \<open>
  A schedule text of five fields is read as cron reads it: each field holds a value
  exactly when one of its comma-separated parts names it, and a weekday of 7 is Sunday too.
\<close>

theorem cron_text_exact:
  assumes "cron_parse text = Some c"
  shows "\<exists>minute hour day month weekday.
    split_whitespace text = [minute, hour, day, month, weekday] \<and>
    (\<forall>v < 64. has (minutes c) v \<longleftrightarrow> (\<exists>p \<in> set (str_split CHR '','' minute). part_names 0 59 v p)) \<and>
    (\<forall>v < 64. has (hours c) v \<longleftrightarrow> (\<exists>p \<in> set (str_split CHR '','' hour). part_names 0 23 v p)) \<and>
    (\<forall>v < 64. has (days c) v \<longleftrightarrow> (\<exists>p \<in> set (str_split CHR '','' day). part_names 1 31 v p)) \<and>
    (\<forall>v < 64. has (months c) v \<longleftrightarrow> (\<exists>p \<in> set (str_split CHR '','' month). part_names 1 12 v p)) \<and>
    (\<forall>v < 7. has (weekdays c) v \<longleftrightarrow>
       (\<exists>p \<in> set (str_split CHR '','' weekday). part_names 0 7 v p \<or> v = 0 \<and> part_names 0 7 7 p))"
proof -
  obtain minute hour day month weekday w where f:
    "split_whitespace text = [minute, hour, day, month, weekday]"
    "field minute 0 59 = Some (minutes c)" "field hour 0 23 = Some (hours c)"
    "field day 1 31 = Some (days c)" "field month 1 12 = Some (months c)"
    "field weekday 0 7 = Some w" "weekdays c = (if w AND push_bit 7 1 \<noteq> 0 then w OR 1 else w)"
    using cron_parse_fields [OF assms] by metis
  have "has (weekdays c) v \<longleftrightarrow>
      (\<exists>p \<in> set (str_split CHR '','' weekday). part_names 0 7 v p \<or> v = 0 \<and> part_names 0 7 7 p)"
    if "v < 7" for v
    unfolding f(7) weekday_bits [OF that] using that field_bits [OF f(6)] by auto
  then show ?thesis
    using f(1) field_bits [OF f(2)] field_bits [OF f(3)] field_bits [OF f(4)] field_bits [OF f(5)]
    by (intro exI [of _ minute] exI [of _ hour] exI [of _ day] exI [of _ month] exI [of _ weekday]) simp
qed

theorem cron_text_exact_witness:
  "\<exists>c. cron_parse ''0 5 * * 7'' = Some c \<and> has (weekdays c) 0 \<and> has (hours c) 5 \<and> \<not> has (hours c) 6"
proof -
  obtain c where c: "cron_parse ''0 5 * * 7'' = Some c" using cron_demo_parses by blast
  have w: "split_whitespace ''0 5 * * 7'' = [''0'', ''5'', ''*'', ''*'', ''7'']" by code_simp
  have d: "digits_value ''5'' = 5" "digits_value ''7'' = 7" by code_simp+
  have a: "is_ascii_digit CHR ''5''" "is_ascii_digit CHR ''7''" by code_simp+
  show ?thesis using cron_text_exact [OF c] c
    by (simp add: w part_names_def digit_part d a)
qed

text \<open>
  A period of \<open>2305843009213693952s\<close>, which is a duration of at least 1s, has 0 milliseconds as an
  \<open>i64\<close>: its next run divides by zero.
\<close>

theorem long_period_divides_by_zero:
  "\<exists>clock. clock_of ch (Some ''2305843009213693952s'') None = Inr clock \<and> next_after_panics clock"
proof -
  let ?t = "''2305843009213693952s''" and ?n = "''2305843009213693952''"
  have trim: "str_trim ?t = ?t" by code_simp
  have "takeWhile is_ascii_digit ?t = ?n" "dropWhile is_ascii_digit ?t = ''s''" "list_all is_ascii_digit ?n"
    by code_simp+
  moreover have "digits_value ?n = 2305843009213693952" by (simp add: digits_value_def)
  ultimately have "duration_of ?t = Some 2305843009213693952000"
    unfolding duration_of_def trim Let_def by (simp add: parse_unsigned_def)
  moreover have "given (Some ''2305843009213693952s'') = Some ''2305843009213693952s''" by code_simp
  moreover have "as_i64 2305843009213693952000 = 0" by (simp add: as_i64_def)
  ultimately show ?thesis by (simp add: clock_of_def given_def next_after_panics_def)
qed

end
