(* ===== verification/OneRun.thy ===== *)
theory OneRun
  imports Prelude
begin

text \<open>
  The stream of one run (\<open>one_run\<close>, \<open>outcome_url\<close> and \<open>once\<close> of \<open>src/reconciler/run_queue.rs\<close>) and
  the report of a refused source it carries (\<open>report_http\<close> and \<open>source_failure\<close> of
  \<open>src/pipeline_log.rs\<close>). The JSON text of a value (\<open>Display\<close> of \<open>serde_json::Value\<close>) is the
  argument \<open>show_json\<close>.
\<close>

subsection \<open>Building and changing JSON\<close>

definition jobj :: "(string \<times> json) list \<Rightarrow> json" where
  "jobj kvs = JObject (bt_collect kvs)"

definition quoted :: "string \<Rightarrow> string" where
  "quoted s = [CHR 0x22] @ s @ [CHR 0x22]"

fun jput :: "string \<Rightarrow> json \<Rightarrow> json \<Rightarrow> json" where
  "jput k v (JObject m) = JObject (bt_insert k v m)"
| "jput k v j = j"

lemma bt_get_mem: "bt_get m k = Some v \<Longrightarrow> (k, v) \<in> set m"
  by (simp add: bt_get_def map_of_SomeD)

lemma size_jget: "jget k v = Some w \<Longrightarrow> size w < size v"
proof (cases v)
  case (JObject m)
  assume "jget k v = Some w"
  then have "(k, w) \<in> set m" using JObject by (simp add: bt_get_mem)
  then have "size w < Suc (size_list (size_prod (\<lambda>_. 0) size) m)"
    by (intro le_imp_less_Suc size_list_estimation') auto
  then show ?thesis using JObject by simp
qed simp_all

subsection \<open>The report of a refused source\<close>

definition RUN :: string where
  "RUN = ''meta('' @ quoted ''jc_run'' @ '').or(now().ts_format('' @ quoted ''2006-01-02T15:00Z'' @ '', '' @
     quoted ''UTC'' @ ''))''"

definition report_http :: "string \<Rightarrow> json" where
  "report_http url = jobj
     [(''url'', JString url), (''verb'', JString ''POST''),
      (''headers'', jobj [(''Content-Type'', JString ''application/json'')]),
      (''timeout'', JString ''5s''), (''retries'', JNumber ''0''),
      (''oauth2'', jobj
        [(''enabled'', JBool True), (''client_key'', JString ''${JC_CLIENT_ID}''),
         (''client_secret'', JString ''${JC_CLIENT_SECRET}''), (''token_url'', JString ''${JC_TOKEN_URL}'')])]"

definition refused_report :: string where
  "refused_report = ''root = { '' @ quoted ''run'' @ '': '' @ RUN @ '', '' @ quoted ''sent'' @ '': [], '' @
     quoted ''failed'' @ '': [{ '' @ quoted ''id'' @ '': '' @ quoted [] @ '', '' @ quoted ''message'' @
     '': error().or('' @ quoted ''the source refused the request'' @ '').re_replace_all('' @
     quoted (quoted (quoted ([CHR 0x5C] @ ''?[^'' @ apostrophe @ [CHR 0x22] @ [CHR 0x5C] @ ''s]*''))) @ '', '' @ quoted [] @
     '') }] }''"

definition source_failure :: "string \<Rightarrow> json" where
  "source_failure url = jobj [(''switch'', JArray [jobj
     [(''check'', JString ''errored()''),
      (''processors'', JArray
        [jobj [(''label'', JString ''source_failed''), (''branch'', jobj
           [(''request_map'', JString refused_report),
            (''processors'', JArray [jobj [(''label'', JString ''source_failed_report''), (''http'', report_http url)]])])],
         jobj [(''mapping'', JString ''root = deleted()'')]])]])]"

subsection \<open>One run\<close>

definition TICK :: string where
  "TICK = ''meta jc_run = now().ts_format('' @ quoted ''2006-01-02T15:04:05Z'' @ '', '' @ quoted ''UTC'' @ '')''"

definition DROP_ERRORED :: string where
  "DROP_ERRORED = ''root = if errored() { deleted() }''"

function outcome_url :: "json \<Rightarrow> string option" where
  "outcome_url (JObject m) =
     (case (if Option.bind (bt_get m ''label'') as_str = Some ''outcome_post''
            then Option.bind (Option.bind (bt_get m ''http_client'') (jget ''url'')) as_str else None) of
        Some url \<Rightarrow> Some url
      | None \<Rightarrow> outcome_url (JArray (map snd m)))"
| "outcome_url (JArray []) = None"
| "outcome_url (JArray (x # xs)) =
     (case outcome_url x of Some url \<Rightarrow> Some url | None \<Rightarrow> outcome_url (JArray xs))"
| "outcome_url JNull = None"
| "outcome_url (JBool b) = None"
| "outcome_url (JNumber n) = None"
| "outcome_url (JString s) = None"
  by pat_completeness auto
termination
proof (relation "measures [size, \<lambda>v. case v of JObject _ \<Rightarrow> 1 | _ \<Rightarrow> 0]", goal_cases)
  case (2 m)
  have "size_list size (map snd m) \<le> size_list (size_prod (\<lambda>_. 0) size) m"
    by (induction m) auto
  then show ?case by auto
qed auto

text \<open>The \<open>http_client\<close> input as the one tick and the \<open>http\<close> processor.\<close>

definition meta_lines :: "(json \<Rightarrow> string) \<Rightarrow> json option \<Rightarrow> string" where
  "meta_lines show_json metadata =
     (case metadata of
        Some (JObject meta) \<Rightarrow> concat (map (\<lambda>(name, v). ''meta '' @ name @ '' = '' @ show_json v @ newline) meta)
      | _ \<Rightarrow> [])"

definition once_client ::
  "(json \<Rightarrow> string) \<Rightarrow> string option \<Rightarrow> (string \<times> json) list \<Rightarrow> (string \<times> json) list \<Rightarrow> (string \<times> json) list" where
  "once_client show_json report client members =
     (let meta = meta_lines show_json (bt_get client ''metadata'');
          client = bt_remove ''metadata'' client;
          processors = [jobj [(''try'', JArray [jobj [(''http'', JObject client)]])]] @
            (case report of None \<Rightarrow> [] | Some url \<Rightarrow> [source_failure url]) @
            [jobj [(''mutation'', JString DROP_ERRORED)]] @
            (case bt_get members ''processors'' of Some (JArray own) \<Rightarrow> own | _ \<Rightarrow> []);
          members = bt_remove ''processors'' members;
          members = bt_insert ''generate'' (jobj
            [(''count'', JNumber ''1''), (''interval'', JString []),
             (''mapping'', JString (''root = '' @ quoted [] @ newline @ meta @ TICK))]) members
      in bt_insert ''processors'' (JArray processors) members)"

definition once_leaf :: "(json \<Rightarrow> string) \<Rightarrow> string option \<Rightarrow> json \<Rightarrow> json" where
  "once_leaf show_json report input =
     (case input of
        JObject members \<Rightarrow>
          (case bt_get members ''generate'' of
             Some (JObject g) \<Rightarrow>
               JObject (bt_insert ''generate''
                 (JObject (bt_insert ''interval'' (JString []) (bt_insert ''count'' (JNumber ''1'') g))) members)
           | _ \<Rightarrow>
               (case bt_get members ''http_client'' of
                  None \<Rightarrow> JObject members
                | Some (JObject client) \<Rightarrow>
                    JObject (once_client show_json report client (bt_remove ''http_client'' members))
                | Some _ \<Rightarrow> JObject (bt_remove ''http_client'' members)))
      | _ \<Rightarrow> input)"

definition broker_inputs :: "json \<Rightarrow> json list option" where
  "broker_inputs input = Option.bind (Option.bind (jget ''broker'' input) (jget ''inputs'')) as_array"

lemma size_broker_inputs: "broker_inputs input = Some xs \<Longrightarrow> x \<in> set xs \<Longrightarrow> size x < size input"
proof -
  assume "broker_inputs input = Some xs" and x: "x \<in> set xs"
  then obtain b where b: "jget ''broker'' input = Some b" "jget ''inputs'' b = Some (JArray xs)"
    by (auto simp: broker_inputs_def bind_eq_Some_conv elim: as_array.elims)
  have "size x \<le> size_list size xs" using x by (intro size_list_estimation') auto
  then show ?thesis using size_jget [OF b(1)] size_jget [OF b(2)] by simp
qed

function once :: "(json \<Rightarrow> string) \<Rightarrow> string option \<Rightarrow> json \<Rightarrow> json" where
  "once show_json report input =
     (case broker_inputs input of
        Some inputs \<Rightarrow>
          jput ''broker''
            (jput ''inputs'' (JArray (map (once show_json report) inputs))
              (case jget ''broker'' input of Some b \<Rightarrow> b | None \<Rightarrow> JNull)) input
      | None \<Rightarrow> once_leaf show_json report input)"
  by pat_completeness auto
termination
  by (relation "measure (\<lambda>(_, _, input). size input)") (auto dest: size_broker_inputs)

declare once.simps [simp del]

definition CATCH_MUTATION :: string where
  "CATCH_MUTATION = ''meta jc_failed = '' @ quoted ''the write failed: '' @ '' + error().re_replace_all('' @
     quoted (''[a-z]+://[^'' @ [CHR 0x5C, CHR 0x5C] @ ''s'' @ apostrophe @ [CHR 0x5C, CHR 0x22] @ '']+'') @ '', '' @
     quoted ''the target'' @ '')''"

definition one_run :: "(json \<Rightarrow> string) \<Rightarrow> json \<Rightarrow> json" where
  "one_run show_json stream =
     (let report = outcome_url stream;
          stream = (case jget ''input'' stream of
                      None \<Rightarrow> stream
                    | Some input \<Rightarrow> jput ''input'' (once show_json report input) stream)
      in case (report, jget ''pipeline'' stream) of
           (Some _, Some p) \<Rightarrow>
             (case jget ''processors'' p of
                Some (JArray ps) \<Rightarrow>
                  jput ''pipeline'' (jput ''processors''
                    (JArray (ps @ [jobj [(''catch'', JArray [jobj [(''mutation'', JString CATCH_MUTATION)]])]])) p) stream
              | _ \<Rightarrow> stream)
         | _ \<Rightarrow> stream)"


subsection \<open>What one run has to be\<close>

text \<open>The inputs of a stream, through brokers nested to any depth.\<close>

function leaf_inputs :: "json \<Rightarrow> json list" where
  "leaf_inputs input =
     (case broker_inputs input of Some inputs \<Rightarrow> concat (map leaf_inputs inputs) | None \<Rightarrow> [input])"
  by pat_completeness auto
termination
  by (relation "measure size") (auto dest: size_broker_inputs)

declare leaf_inputs.simps [simp del]

text \<open>An input whose clock fires once and at once.\<close>

definition ticks_once :: "json \<Rightarrow> bool" where
  "ticks_once input =
     is_some_and (\<lambda>g. jget ''count'' g = Some (JNumber ''1'') \<and> jget ''interval'' g = Some (JString []))
       (jget ''generate'' input)"

definition same_but :: "string set \<Rightarrow> json \<Rightarrow> json \<Rightarrow> bool" where
  "same_but ks v w \<longleftrightarrow> (\<forall>k. k \<notin> ks \<longrightarrow> jget k w = jget k v)"

definition request :: "(string \<times> json) list \<Rightarrow> json" where
  "request client = jobj [(''try'', JArray [jobj [(''http'', JObject (bt_remove ''metadata'' client))]])]"

definition own_processors :: "json \<Rightarrow> json list" where
  "own_processors input = (case jget ''processors'' input of Some (JArray own) \<Rightarrow> own | _ \<Rightarrow> [])"

text \<open>
  What an input becomes for one run. A clock keeps what it makes and fires once. A polled URL becomes a
  clock that fires once and stamps the run, and the request is made once, before the input's own
  processors. Anything else stays, but for an \<open>http_client\<close> that is none.
\<close>

definition one_shot :: "json \<Rightarrow> json \<Rightarrow> bool" where
  "one_shot before after =
     (case (jget ''generate'' before, jget ''http_client'' before) of
        (Some (JObject g), _) \<Rightarrow>
          ticks_once after \<and> same_but {''generate''} before after \<and>
          is_some_and (same_but {''count'', ''interval''} (JObject g)) (jget ''generate'' after)
      | (_, Some (JObject client)) \<Rightarrow>
          ticks_once after \<and> jget ''http_client'' after = None \<and>
          same_but {''generate'', ''http_client'', ''processors''} before after \<and>
          is_some_and (ends_with TICK) (Option.bind (jget ''generate'' after) (get_str ''mapping'')) \<and>
          (\<exists>between. jget ''processors'' after = Some (JArray (request client # between @ own_processors before)))
      | _ \<Rightarrow> jget ''http_client'' after = None \<and> same_but {''http_client''} before after)"

lemma once_leaf_broker: "jget ''broker'' (once_leaf show_json report input) = jget ''broker'' input"
  by (simp add: once_leaf_def once_client_def Let_def bt_simps split: json.split option.split)

lemma ends_with_append: "ends_with p (xs @ p)"
  by (simp add: ends_with_def strip_suffix_Some_iff)

lemma tick_mapping_ends: "ends_with TICK (''root = '' @ quoted [] @ newline @ meta @ TICK)"
  using ends_with_append [of TICK "''root = '' @ quoted [] @ newline @ meta"] by simp

lemma once_client_shot:
  assumes "input = JObject m" "bt_get m ''http_client'' = Some (JObject client)"
    and "\<nexists>g. bt_get m ''generate'' = Some (JObject g)"
  shows "one_shot input (JObject (once_client show_json report client (bt_remove ''http_client'' m)))"
proof -
  let ?out = "JObject (once_client show_json report client (bt_remove ''http_client'' m))"
  have parts: "ticks_once ?out" "jget ''http_client'' ?out = None"
    "same_but {''generate'', ''http_client'', ''processors''} input ?out"
    "is_some_and (ends_with TICK) (Option.bind (jget ''generate'' ?out) (get_str ''mapping''))"
    "\<exists>between. jget ''processors'' ?out = Some (JArray (request client # between @ own_processors input))"
    using assms(1)
    by (auto simp: once_client_def Let_def bt_simps ticks_once_def jobj_def bt_collect_get is_some_and_def
        same_but_def get_str_def tick_mapping_ends [simplified] request_def own_processors_def split: option.splits json.splits)
  show ?thesis
    using parts assms by (auto simp: one_shot_def split: option.splits json.splits)
qed

lemma once_leaf_shot: "one_shot input (once_leaf show_json report input)"
proof (cases input)
  case (JObject m)
  show ?thesis
  proof (cases "\<exists>g. bt_get m ''generate'' = Some (JObject g)")
    case True
    then show ?thesis
      using JObject by (auto simp: once_leaf_def one_shot_def ticks_once_def same_but_def is_some_and_def bt_simps)
  next
    case no_clock: False
    show ?thesis
    proof (cases "\<exists>client. bt_get m ''http_client'' = Some (JObject client)")
      case True
      then obtain client where c: "bt_get m ''http_client'' = Some (JObject client)" ..
      then have "once_leaf show_json report input =
          JObject (once_client show_json report client (bt_remove ''http_client'' m))"
        using JObject no_clock by (auto simp: once_leaf_def split: option.split json.split)
      then show ?thesis using once_client_shot [OF JObject c no_clock] by simp
    next
      case False
      then have "once_leaf show_json report input =
          (if bt_get m ''http_client'' = None then JObject m else JObject (bt_remove ''http_client'' m))"
        using JObject no_clock by (auto simp: once_leaf_def split: option.split json.split)
      then show ?thesis
        using JObject no_clock False
        by (auto simp: one_shot_def same_but_def bt_simps split: option.split json.split)
    qed
  qed
qed (simp_all add: once_leaf_def one_shot_def same_but_def)

lemma jget_jput_same: "jget k j \<noteq> None \<Longrightarrow> jget k (jput k v j) = Some v"
  by (cases j) (simp_all add: bt_simps)

lemma jget_jput_other: "k \<noteq> k' \<Longrightarrow> jget k (jput k' v j) = jget k j"
  by (cases j) (simp_all add: bt_simps)

lemma once_broker:
  assumes "broker_inputs input = Some inputs"
  shows "broker_inputs (once show_json report input) = Some (map (once show_json report) inputs)"
proof -
  obtain b where b: "jget ''broker'' input = Some b" "jget ''inputs'' b = Some (JArray inputs)"
    using assms by (auto simp: broker_inputs_def bind_eq_Some_conv elim: as_array.elims)
  show ?thesis
    by (subst once.simps) (simp add: assms b broker_inputs_def jget_jput_same)
qed

lemma list_all2_concat_map:
  "(\<And>x. x \<in> set xs \<Longrightarrow> list_all2 R (f x) (g x)) \<Longrightarrow> list_all2 R (concat (map f xs)) (concat (map g xs))"
  by (induction xs) (auto intro: list_all2_appendI)

lemma once_shots: "list_all2 one_shot (leaf_inputs input) (leaf_inputs (once show_json report input))"
proof (induction show_json report input rule: once.induct)
  case (1 show_json report input)
  show ?case
  proof (cases "broker_inputs input")
    case None
    then have "broker_inputs (once_leaf show_json report input) = None"
      by (simp add: broker_inputs_def once_leaf_broker)
    then show ?thesis
      using None once_leaf_shot by (simp add: once.simps [of _ _ input] leaf_inputs.simps)
  next
    case (Some inputs)
    show ?thesis
      unfolding leaf_inputs.simps [of input] leaf_inputs.simps [of "once show_json report input"] once_broker [OF Some]
      using 1 [OF Some] by (simp add: Some comp_def list_all2_concat_map)
  qed
qed

lemma one_run_input:
  "jget ''input'' (one_run show_json stream) = map_option (once show_json (outcome_url stream)) (jget ''input'' stream)"
  by (cases "jget ''input'' stream")
    (simp_all add: one_run_def Let_def jget_jput_other jget_jput_same split: option.split json.split)

subsection \<open>Properties\<close>


end
