(* ===== verification/RunQueue.thy ===== *)
theory RunQueue
  imports Clock OneRun
begin

text \<open>
  The run queue of the pipelines that do not wait for pushes (\<open>src/reconciler/run_queue.rs\<close>).

  The queue is the record \<open>run_queue\<close> and each of its methods a function on it, given the
  instant \<open>now\<close> of the caller. \<open>rq_env\<close> holds the code outside the repository: the calendar
  (chrono), the digest of a stream's JSON text (SHA-256), the account name of a pipeline
  (jc-core) and the JSON text of a string. \<open>tick\<close> drives the queue against a runner whose
  answers are the record \<open>runner\<close>; as the lock is not held across a runner call,
  \<open>queue_reachable\<close> lets every locked section follow every other.
\<close>

subsection \<open>Constants, data and environment\<close>

type_synonym key = "string \<times> string"

definition RUN_TIMEOUT :: nat where
  "RUN_TIMEOUT = 15 * 60 * 1000"

definition STALE_PLAN :: nat where
  "STALE_PLAN = 10 * 60 * 1000"

definition BACKOFF :: "nat list" where
  "BACKOFF = [15 * 60 * 1000, 60 * 60 * 1000, 4 * 60 * 60 * 1000]"

definition RETRIES_PER_DAY :: nat where
  "RETRIES_PER_DAY = 6"

record rq_env =
  calendar :: chrono
  digest :: "json \<Rightarrow> nat list"
  account_name :: "string \<Rightarrow> string"
  json_text :: "string \<Rightarrow> string"

record planned =
  pl_stream :: json
  pl_clock :: clock
  pl_replace :: bool

datatype last_run = RunFinished int int | RunFailed int string

record retry =
  rt_at :: int
  rt_cause :: string

record qentry =
  e_stream :: json
  e_clock :: clock
  e_lane :: queue_lane
  e_next :: "int option"
  e_queued :: "int option"
  e_running :: "int option"
  e_run :: "string option"
  e_run_stream :: "string option"
  e_sweep :: bool
  e_stuck :: bool
  e_last :: "last_run option"
  e_retry :: "retry option"
  e_armed_for :: "string option"
  e_attempts :: nat
  e_retried :: "int list"

datatype run_state = Running | Finished | Gone

record run_queue =
  q_batch :: nat
  q_short :: nat
  q_timeout :: nat
  q_entries :: "(key, qentry) btree"
  q_gone :: "key list"
  q_ends :: "(key \<times> string \<times> bool \<times> string) list"
  q_planned_at :: "int option"
  q_ran :: "(key \<Rightarrow> int option) option"
  q_streams :: "(key \<Rightarrow> string option) option"
  q_unbound :: "string list"
  q_failed :: "(key, string \<times> string) btree option"
  q_rules :: "(string, nat) btree"
  q_rules_changed :: "string list"

text \<open>A duration of \<open>d\<close> milliseconds as nanoseconds, and \<open>to_std().unwrap_or_default()\<close>.\<close>

definition span :: "nat \<Rightarrow> int" where
  "span d = int d * 1000000"

definition elapsed :: "int \<Rightarrow> int \<Rightarrow> int" where
  "elapsed now start = max 0 (now - start)"

subsection \<open>One entry\<close>

definition cap :: "qentry \<Rightarrow> nat \<Rightarrow> nat" where
  "cap e timeout =
     (case e_clock e of
        Every every _ \<Rightarrow> if every < SHORT_BELOW then min timeout (max (every * 3) 120000) else timeout
      | _ \<Rightarrow> timeout)"

definition arm :: "string \<Rightarrow> string \<Rightarrow> int \<Rightarrow> qentry \<Rightarrow> qentry" where
  "arm run cause now e =
     (if e_armed_for e = Some run then e
      else
        let retried = filter (\<lambda>t. now - t < span (24 * 60 * 60 * 1000)) (e_retried e);
            at = (if e_attempts e < length BACKOFF then Some (now + span (BACKOFF ! e_attempts e)) else None);
            room = length retried < RETRIES_PER_DAY
        in e\<lparr>e_armed_for := Some run, e_retried := retried,
             e_attempts := min (2 ^ 64 - 1) (e_attempts e + 1),
             e_retry :=
               (case at of
                  None \<Rightarrow> None
                | Some at \<Rightarrow>
                    if room \<and> is_none_or (\<lambda>due. at < due) (e_next e)
                    then Some \<lparr>rt_at = at, rt_cause = cause\<rparr> else None)\<rparr>)"

definition clear_retry :: "qentry \<Rightarrow> qentry" where
  "clear_retry e = e\<lparr>e_retry := None, e_armed_for := None, e_attempts := 0\<rparr>"

subsection \<open>What the reconciler tells the queue\<close>

definition new_queue :: "nat \<Rightarrow> nat \<Rightarrow> run_queue" where
  "new_queue batch short =
     \<lparr>q_batch = max batch 1, q_short = max short 1, q_timeout = RUN_TIMEOUT, q_entries = bt_empty,
      q_gone = [], q_ends = [], q_planned_at = None, q_ran = None, q_streams = None, q_unbound = [],
      q_failed = None, q_rules = bt_empty, q_rules_changed = []\<rparr>"

definition set_failed :: "(key, string \<times> string) btree \<Rightarrow> run_queue \<Rightarrow> run_queue" where
  "set_failed failed q = q\<lparr>q_failed := Some failed\<rparr>"

definition set_rules :: "(string, nat) btree \<Rightarrow> run_queue \<Rightarrow> run_queue" where
  "set_rules rules q =
     q\<lparr>q_rules_changed := q_rules_changed q @
         map fst (filter (\<lambda>(project, fingerprint).
           is_some_and (\<lambda>old. old \<noteq> fingerprint) (bt_get (q_rules q) project)) rules),
       q_rules := rules\<rparr>"

definition set_unbound :: "string list \<Rightarrow> run_queue \<Rightarrow> run_queue" where
  "set_unbound accounts q = q\<lparr>q_unbound := accounts\<rparr>"

definition is_unbound :: "rq_env \<Rightarrow> run_queue \<Rightarrow> key \<Rightarrow> bool" where
  "is_unbound env q key \<longleftrightarrow>
     q_unbound q \<noteq> [] \<and> fst key @ ''/'' @ account_name env (snd key) \<in> set (q_unbound q)"

definition set_ran :: "(key \<Rightarrow> int option) \<Rightarrow> run_queue \<Rightarrow> run_queue" where
  "set_ran logged q = q\<lparr>q_ran := Some logged\<rparr>"

definition set_streams :: "(key \<Rightarrow> string option) \<Rightarrow> run_queue \<Rightarrow> run_queue" where
  "set_streams streams q = q\<lparr>q_streams := Some streams\<rparr>"

text \<open>\<open>{:02x}\<close> of a byte.\<close>

definition hex2 :: "nat \<Rightarrow> string" where
  "hex2 n = (let s = show_base 16 n in replicate (2 - length s) (CHR ''0'') @ s)"

definition stream_hash :: "rq_env \<Rightarrow> json \<Rightarrow> string" where
  "stream_hash env stream = concat (map hex2 (digest env stream))"

definition changed_unheld :: "rq_env \<Rightarrow> run_queue \<Rightarrow> key \<Rightarrow> planned \<Rightarrow> bool" where
  "changed_unheld env q key p \<longleftrightarrow>
     pl_replace p \<and>
     is_some_and (\<lambda>h. h \<noteq> stream_hash env (pl_stream p)) (Option.bind (q_streams q) (\<lambda>m. m key))"

subsection \<open>Planning\<close>

definition missed :: "chrono \<Rightarrow> clock \<Rightarrow> int \<Rightarrow> int \<Rightarrow> int option" where
  "missed ch clock last_at now =
     Option.bind (next_after ch clock last_at) (\<lambda>due. if due \<le> now then Some due else None)"

definition drop_key :: "key \<Rightarrow> run_queue \<Rightarrow> run_queue" where
  "drop_key key q =
     q\<lparr>q_entries := bt_remove key (q_entries q),
       q_gone := (if is_some_and (\<lambda>e. e_running e \<noteq> None) (bt_get (q_entries q) key)
                  then q_gone q @ [key] else q_gone q)\<rparr>"

definition drop_unwanted :: "(key, planned) btree \<Rightarrow> run_queue \<Rightarrow> run_queue" where
  "drop_unwanted wanted q =
     fold drop_key (filter (\<lambda>key. bt_get wanted key = None) (map fst (q_entries q))) q"

definition plan_one :: "rq_env \<Rightarrow> int \<Rightarrow> key \<times> planned \<Rightarrow> run_queue \<Rightarrow> run_queue" where
  "plan_one env now = (\<lambda>(key, p) q.
     let first = (case pl_clock p of Once \<Rightarrow> Some now | clock \<Rightarrow> next_after (calendar env) clock now);
         lane = lane_of (calendar env) (pl_clock p) now
     in case bt_get (q_entries q) key of
          Some e \<Rightarrow>
            if e_stream e = pl_stream p \<and> e_clock e = pl_clock p then q
            else
              let rewrite = pl_replace p \<and> e_stream e \<noteq> pl_stream p
              in q\<lparr>q_entries := bt_insert key
                   (e\<lparr>e_stuck := False, e_stream := pl_stream p, e_clock := pl_clock p, e_lane := lane,
                      e_next := (if rewrite then Some now else first)\<rparr>) (q_entries q)\<rparr>
        | None \<Rightarrow>
            let first =
                  (if changed_unheld env q key p then Some now
                   else case q_ran q of
                     None \<Rightarrow> first
                   | Some logged \<Rightarrow>
                       (case logged key of
                          None \<Rightarrow> Some now
                        | Some last_at \<Rightarrow> or_else (missed (calendar env) (pl_clock p) last_at now) first))
            in q\<lparr>q_entries := bt_insert key
                 \<lparr>e_stream = pl_stream p, e_clock = pl_clock p, e_lane = lane, e_next = first,
                  e_queued = None, e_running = None, e_run = None, e_run_stream = None, e_sweep = True,
                  e_stuck = False, e_last = None, e_retry = None, e_armed_for = None, e_attempts = 0,
                  e_retried = []\<rparr> (q_entries q)\<rparr>)"

definition retry_entry ::
  "(key, string \<times> string) btree option \<Rightarrow> string list \<Rightarrow> int \<Rightarrow> key \<Rightarrow> qentry \<Rightarrow> qentry" where
  "retry_entry failed changed now key e =
     (let e = (case failed of
                 None \<Rightarrow> e
               | Some failed \<Rightarrow>
                   if e_running e \<noteq> None \<or> e_queued e \<noteq> None then e
                   else (case (e_last e, bt_get failed key) of
                           (Some (RunFailed _ _), _) \<Rightarrow> e
                         | (_, Some (run, cause)) \<Rightarrow> arm run cause now e
                         | (_, None) \<Rightarrow> clear_retry e))
      in if fst key \<in> set changed
         then e\<lparr>e_retry := map_option (\<lambda>r. r\<lparr>rt_at := min (rt_at r) now\<rparr>) (e_retry e)\<rparr>
         else e)"

definition retries :: "int \<Rightarrow> run_queue \<Rightarrow> run_queue" where
  "retries now q =
     q\<lparr>q_failed := None, q_rules_changed := [],
       q_entries := map (\<lambda>(key, e). (key, retry_entry (q_failed q) (q_rules_changed q) now key e)) (q_entries q)\<rparr>"

definition plan :: "rq_env \<Rightarrow> (key, planned) btree \<Rightarrow> int \<Rightarrow> run_queue \<Rightarrow> run_queue" where
  "plan env wanted now q =
     retries now (fold (plan_one env now) wanted (drop_unwanted wanted (q\<lparr>q_planned_at := Some now\<rparr>)))"


subsection \<open>One step of the queue\<close>

definition sweeps :: "run_queue \<Rightarrow> key list \<times> run_queue" where
  "sweeps q =
     (let swept = (\<lambda>e. e_sweep e \<and> e_running e = None)
      in (q_gone q @ map fst (filter (\<lambda>(_, e). swept e) (q_entries q)),
          q\<lparr>q_gone := [],
            q_entries := map (\<lambda>(key, e). (key, if swept e then e\<lparr>e_sweep := False\<rparr> else e)) (q_entries q)\<rparr>))"

definition running :: "run_queue \<Rightarrow> key list" where
  "running q = map fst (filter (\<lambda>(_, e). e_running e \<noteq> None) (q_entries q))"

definition due_entry :: "chrono \<Rightarrow> int \<Rightarrow> qentry \<Rightarrow> qentry" where
  "due_entry ch now e =
     (case e_next e of
        None \<Rightarrow> e
      | Some due \<Rightarrow>
          if due \<le> now
          then (if e_queued e = None \<and> e_running e = None \<and> \<not> e_stuck e then e\<lparr>e_queued := Some due\<rparr> else e)
                 \<lparr>e_next := next_after ch (e_clock e) now\<rparr>
          else e)"

definition queue_due :: "rq_env \<Rightarrow> int \<Rightarrow> run_queue \<Rightarrow> run_queue" where
  "queue_due env now q =
     q\<lparr>q_entries := map (\<lambda>(key, e). (key, due_entry (calendar env) now e)) (q_entries q)\<rparr>"

definition retry_due :: "int \<Rightarrow> qentry \<Rightarrow> qentry" where
  "retry_due now e =
     (case e_retry e of
        None \<Rightarrow> e
      | Some r \<Rightarrow>
          if rt_at r \<le> now
          then (if e_queued e = None \<and> e_running e = None \<and> \<not> e_stuck e
                then e\<lparr>e_queued := Some (rt_at r), e_retried := e_retried e @ [now]\<rparr> else e)
                 \<lparr>e_retry := None\<rparr>
          else e)"

definition queue_retries :: "int \<Rightarrow> run_queue \<Rightarrow> run_queue" where
  "queue_retries now q = q\<lparr>q_entries := map (\<lambda>(key, e). (key, retry_due now e)) (q_entries q)\<rparr>"

text \<open>How a run ended, if it did: \<open>Some None\<close> finished, \<open>Some (Some reason)\<close> failed.\<close>

definition run_outcome :: "nat \<Rightarrow> int \<Rightarrow> int \<Rightarrow> qentry \<Rightarrow> run_state \<Rightarrow> string option option" where
  "run_outcome timeout now started e state =
     (case state of
        Finished \<Rightarrow> Some None
      | Gone \<Rightarrow> Some (Some ''the runner no longer holds the run'')
      | Running \<Rightarrow>
          if elapsed now started \<ge> span (cap e timeout)
          then Some (Some (''it ran past '' @ show_nat (cap e timeout div 1000 div 60) @ '' min and was stopped''))
          else None)"

definition end_entry :: "int \<Rightarrow> int \<Rightarrow> run_state \<Rightarrow> string option \<Rightarrow> qentry \<Rightarrow> qentry" where
  "end_entry now started state failure e =
     (let e = (case (state, failure, e_run e) of
                 (Gone, Some reason, Some run) \<Rightarrow> arm run reason now e
               | _ \<Rightarrow> e)
      in e\<lparr>e_run_stream := None, e_running := None,
           e_last := Some (case failure of
                             None \<Rightarrow> RunFinished now (max 0 ((now - started) div 1000000000))
                           | Some reason \<Rightarrow> RunFailed now reason)\<rparr>)"

definition settle_state ::
  "int \<Rightarrow> key \<times> run_state \<Rightarrow> run_queue \<times> key list \<Rightarrow> run_queue \<times> key list" where
  "settle_state now = (\<lambda>(key, state) (q, ended).
     case bt_get (q_entries q) key of
       None \<Rightarrow> (q, ended)
     | Some e \<Rightarrow>
         (case e_running e of
            None \<Rightarrow> (q, ended)
          | Some started \<Rightarrow>
              (case run_outcome (q_timeout q) now started e state of
                 None \<Rightarrow> (q, ended)
               | Some failure \<Rightarrow>
                   (q\<lparr>q_ends := q_ends q @
                        (case e_run e of
                           None \<Rightarrow> []
                         | Some run \<Rightarrow> [(key, run, failure = None, unwrap_or [] (e_run_stream e))]),
                      q_entries := bt_insert key (end_entry now started state failure e) (q_entries q)\<rparr>,
                    ended @ [key]))))"

fun walk_run :: "string \<Rightarrow> json \<Rightarrow> json" where
  "walk_run named (JString text) = JString (str_join named (str_split_pat TICK text))"
| "walk_run named (JArray items) = JArray (map (walk_run named) items)"
| "walk_run named (JObject members) = JObject (map (\<lambda>(k, v). (k, walk_run named v)) members)"
| "walk_run named v = v"

definition with_run :: "rq_env \<Rightarrow> json \<Rightarrow> string \<Rightarrow> json" where
  "with_run env stream run = walk_run (''meta jc_run = '' @ json_text env run) stream"

definition waiting :: "queue_lane \<Rightarrow> run_queue \<Rightarrow> (int \<times> key) list" where
  "waiting lane q =
     sort (List.map_filter (\<lambda>(k, e).
       if e_lane e = lane \<and> e_running e = None \<and> \<not> e_sweep e then map_option (\<lambda>d. (d, k)) (e_queued e)
       else None) (q_entries q))"

definition busy :: "queue_lane \<Rightarrow> run_queue \<Rightarrow> nat" where
  "busy lane q = length (filter (\<lambda>(_, e). e_lane e = lane \<and> e_running e \<noteq> None) (q_entries q))"

definition NO_CLIENT :: string where
  "NO_CLIENT = ''not started: the realm holds no client for its account yet, so the gateway would refuse its writes (401); it runs at its next due time once the client is there''"

definition refuse :: "int \<Rightarrow> key \<Rightarrow> run_queue \<Rightarrow> run_queue" where
  "refuse now key q =
     (case bt_get (q_entries q) key of
        None \<Rightarrow> q
      | Some e \<Rightarrow>
          q\<lparr>q_entries := bt_insert key (e\<lparr>e_queued := None, e_last := Some (RunFailed now NO_CLIENT)\<rparr>)
              (q_entries q)\<rparr>)"

definition start_run ::
  "rq_env \<Rightarrow> int \<Rightarrow> int \<times> key \<Rightarrow> run_queue \<times> (key \<times> json) list \<Rightarrow> run_queue \<times> (key \<times> json) list" where
  "start_run env now = (\<lambda>(due, key) (q, starts).
     case bt_get (q_entries q) key of
       None \<Rightarrow> (q, starts)
     | Some e \<Rightarrow>
         let run = stamp (calendar env) due
         in (q\<lparr>q_entries := bt_insert key
                (e\<lparr>e_queued := None, e_running := Some now, e_run := Some run,
                   e_run_stream := Some (stream_hash env (e_stream e))\<rparr>) (q_entries q)\<rparr>,
             starts @ [(key, with_run env (e_stream e) run)]))"

definition fresh :: "int \<Rightarrow> run_queue \<Rightarrow> bool" where
  "fresh now q = is_some_and (\<lambda>at. elapsed now at < span STALE_PLAN) (q_planned_at q)"

definition start_lane ::
  "rq_env \<Rightarrow> int \<Rightarrow> queue_lane \<times> nat \<Rightarrow> run_queue \<times> (key \<times> json) list \<Rightarrow> run_queue \<times> (key \<times> json) list" where
  "start_lane env now = (\<lambda>(lane, limit) (q, starts).
     let all = waiting lane q;
         refused = (if fresh now q then filter (\<lambda>(_, key). is_unbound env q key) all else []);
         rest = (if fresh now q then filter (\<lambda>(_, key). \<not> is_unbound env q key) all else all);
         room = (if fresh now q then limit - busy lane q else 0)
     in fold (start_run env now) (take room rest) (fold (\<lambda>(_, key). refuse now key) refused q, starts))"

text \<open>The first half of \<open>settle\<close>: what ended and what came due; then the starts.\<close>

definition settle_due ::
  "rq_env \<Rightarrow> (key \<times> run_state) list \<Rightarrow> int \<Rightarrow> run_queue \<Rightarrow> run_queue \<times> key list" where
  "settle_due env states now q =
     (let (q, ended) = fold (settle_state now) states (q, [])
      in (queue_retries now (queue_due env now q), ended))"

definition settle ::
  "rq_env \<Rightarrow> (key \<times> run_state) list \<Rightarrow> int \<Rightarrow> run_queue \<Rightarrow> run_queue \<times> key list \<times> (key \<times> json) list" where
  "settle env states now q =
     (let (q, ended) = settle_due env states now q;
          (q, starts) = fold (start_lane env now) [(Batch, q_batch q), (Short, q_short q)] (q, [])
      in (q, ended, starts))"

subsection \<open>Single runs and what the status says\<close>

datatype run_now_error = NotQueued | AlreadyRunning string | Held

definition run_now :: "rq_env \<Rightarrow> key \<Rightarrow> int \<Rightarrow> run_queue \<Rightarrow> (run_now_error + string) \<times> run_queue" where
  "run_now env key now q =
     (case bt_get (q_entries q) key of
        None \<Rightarrow> (Inl NotQueued, q)
      | Some e \<Rightarrow>
          if e_running e \<noteq> None then (Inl (AlreadyRunning (unwrap_or [] (e_run e))), q)
          else if e_stuck e then (Inl Held, q)
          else
            let due = unwrap_or now (e_queued e)
            in (Inr (stamp (calendar env) due),
                q\<lparr>q_entries := bt_insert key (e\<lparr>e_queued := Some due\<rparr>) (q_entries q)\<rparr>))"

definition CANNOT_STOP :: string where
  "CANNOT_STOP = ''it ran past its cap and the runner could not stop it: a step loops or never returns (a recursive jq def, a range over millions of items), so the runner restarts to free it; change the step and push again, the pipeline runs once its steps change''"

definition stuck :: "key \<Rightarrow> int \<Rightarrow> run_queue \<Rightarrow> run_queue" where
  "stuck key now q =
     (case bt_get (q_entries q) key of
        None \<Rightarrow> q
      | Some e \<Rightarrow>
          q\<lparr>q_entries := bt_insert key
              (e\<lparr>e_stuck := True, e_queued := None, e_last := Some (RunFailed now CANNOT_STOP)\<rparr>) (q_entries q)\<rparr>)"

definition failed_to_start :: "key \<Rightarrow> string \<Rightarrow> int \<Rightarrow> run_queue \<Rightarrow> run_queue" where
  "failed_to_start key reason now q =
     (case bt_get (q_entries q) key of
        None \<Rightarrow> q
      | Some e \<Rightarrow>
          let reason = ''the runner refused the run: '' @ reason;
              e = e\<lparr>e_running := None\<rparr>;
              e = (case e_run e of None \<Rightarrow> e | Some run \<Rightarrow> arm run reason now e)
          in q\<lparr>q_entries := bt_insert key (e\<lparr>e_last := Some (RunFailed now reason)\<rparr>) (q_entries q)\<rparr>)"

datatype stream_outcome = OutcomeError string | OutcomeScheduled string string

definition next_text :: "chrono \<Rightarrow> qentry \<Rightarrow> string" where
  "next_text ch e =
     (case (e_retry e, e_next e) of
        (Some r, _) \<Rightarrow> if \<not> e_stuck e then ''next try '' @ stamp ch (rt_at r) else ''no further run until it changes''
      | (None, Some due) \<Rightarrow> if \<not> e_stuck e then ''next run '' @ stamp ch due else ''no further run until it changes''
      | (None, None) \<Rightarrow> ''no further run until it changes'')"

definition show_int :: "int \<Rightarrow> string" where
  "show_int i = (if i < 0 then ''-'' @ show_nat (nat (- i)) else show_nat (nat i))"

definition queue_outcome :: "rq_env \<Rightarrow> run_queue \<Rightarrow> key \<Rightarrow> stream_outcome option" where
  "queue_outcome env q key =
     (let ch = calendar env
      in map_option (\<lambda>e.
        case e_last e of
          Some (RunFailed at reason) \<Rightarrow>
            OutcomeError (''the last run, ended '' @ stamp ch at @ '', failed: '' @ reason @ ''; '' @ next_text ch e)
        | _ \<Rightarrow>
            let (reason, text) =
                  (case (e_running e, e_queued e) of
                     (Some since, _) \<Rightarrow> (''Running'', ''running since '' @ stamp ch since)
                   | (None, Some due) \<Rightarrow> (''Queued'', ''queued, due '' @ stamp ch due)
                   | (None, None) \<Rightarrow>
                       (case e_retry e of
                          Some r \<Rightarrow>
                            (''Retrying'', ''the last run failed for a cause outside its source: '' @ rt_cause r @
                               ''; '' @ next_text ch e)
                        | None \<Rightarrow> (''Waiting'', next_text ch e)));
                ended = (case e_last e of
                           Some (RunFinished at seconds) \<Rightarrow>
                             ''; the last run ended '' @ stamp ch at @ '' after '' @ show_int seconds @ '' s''
                         | _ \<Rightarrow> [])
            in OutcomeScheduled reason (text @ ended)) (bt_get (q_entries q) key))"

subsection \<open>The queue against the runner\<close>

text \<open>
  What the runner answers, and the calls a tick makes of it, in order. The sweeps' answers are not
  read, and \<open>ended\<close> answers nothing.
\<close>

record runner =
  r_state :: "key \<Rightarrow> run_state"
  r_delete :: "key \<Rightarrow> bool"
  r_start :: "key \<Rightarrow> json \<Rightarrow> string + unit"

datatype runner_call =
    CallDelete key
  | CallState key
  | CallEnded key string bool string
  | CallStart key json

definition take_ends :: "run_queue \<Rightarrow> (key \<times> string \<times> bool \<times> string) list \<times> run_queue" where
  "take_ends q = (q_ends q, q\<lparr>q_ends := []\<rparr>)"

fun delete_ended :: "runner \<Rightarrow> int \<Rightarrow> key list \<Rightarrow> run_queue \<Rightarrow> run_queue" where
  "delete_ended r now [] q = q"
| "delete_ended r now (key # keys) q =
     delete_ended r now keys (if r_delete r key then q else stuck key now q)"

fun start_all :: "runner \<Rightarrow> int \<Rightarrow> (key \<times> json) list \<Rightarrow> run_queue \<Rightarrow> run_queue \<times> runner_call list" where
  "start_all r now [] q = (q, [])"
| "start_all r now ((key, stream) # starts) q =
     (case r_start r key stream of
        Inl reason \<Rightarrow>
          let (q, calls) = start_all r now starts (failed_to_start key reason now q)
          in (q, CallStart key stream # CallDelete key # calls)
      | Inr _ \<Rightarrow>
          let (q, calls) = start_all r now starts q
          in (q, CallStart key stream # calls))"

definition tick :: "rq_env \<Rightarrow> runner \<Rightarrow> int \<Rightarrow> run_queue \<Rightarrow> run_queue \<times> runner_call list" where
  "tick env r now q =
     (let (swept, q) = sweeps q;
          in_runner = running q;
          (q, ended, starts) = settle env (map (\<lambda>key. (key, r_state r key)) in_runner) now q;
          (ends, q) = take_ends (delete_ended r now ended q);
          (q, started) = start_all r now starts q
      in (q, map CallDelete swept @ map CallState in_runner @ map CallDelete ended @
             map (\<lambda>(key, run, finished, stream). CallEnded key run finished stream) ends @ started))"

subsection \<open>Reachable queues and their invariant\<close>

text \<open>
  Every method is one locked section; between two of them another thread may run any other, with
  whatever arguments.
\<close>

inductive queue_reachable :: "rq_env \<Rightarrow> run_queue \<Rightarrow> bool" for env where
  fresh_queue: "queue_reachable env (new_queue batch short)"
| told_failed: "queue_reachable env q \<Longrightarrow> queue_reachable env (set_failed failed q)"
| told_rules: "queue_reachable env q \<Longrightarrow> queue_reachable env (set_rules rules q)"
| told_unbound: "queue_reachable env q \<Longrightarrow> queue_reachable env (set_unbound accounts q)"
| told_ran: "queue_reachable env q \<Longrightarrow> queue_reachable env (set_ran logged q)"
| told_streams: "queue_reachable env q \<Longrightarrow> queue_reachable env (set_streams streams q)"
| planned: "queue_reachable env q \<Longrightarrow> queue_reachable env (plan env wanted now q)"
| swept: "queue_reachable env q \<Longrightarrow> queue_reachable env (snd (sweeps q))"
| settled: "queue_reachable env q \<Longrightarrow> queue_reachable env (fst (settle env states now q))"
| asked: "queue_reachable env q \<Longrightarrow> queue_reachable env (snd (run_now env key now q))"
| marked_stuck: "queue_reachable env q \<Longrightarrow> queue_reachable env (stuck key now q)"
| took_ends: "queue_reachable env q \<Longrightarrow> queue_reachable env (snd (take_ends q))"
| refused_start: "queue_reachable env q \<Longrightarrow> queue_reachable env (failed_to_start key reason now q)"

definition entry_ok :: "qentry \<Rightarrow> bool" where
  "entry_ok e \<longleftrightarrow>
     (e_queued e \<noteq> None \<longrightarrow> e_running e = None \<and> \<not> e_stuck e) \<and>
     length (e_retried e) + (if e_retry e = None then 0 else 1) \<le> RETRIES_PER_DAY \<and>
     (e_running e \<noteq> None \<longrightarrow> e_run e \<noteq> None \<and> e_run_stream e \<noteq> None)"

definition queue_ok :: "run_queue \<Rightarrow> bool" where
  "queue_ok q \<longleftrightarrow> bt_wf (q_entries q) \<and> list_all (\<lambda>(_, e). entry_ok e) (q_entries q)"


subsection \<open>Every operation keeps the invariant\<close>

lemma queue_ok_get: "queue_ok q \<Longrightarrow> bt_get (q_entries q) key = Some e \<Longrightarrow> entry_ok e"
  unfolding queue_ok_def using bt_mem_iff by (fastforce simp: list_all_iff)

lemma bt_insert_all: "list_all P m \<Longrightarrow> P (k, v) \<Longrightarrow> list_all P (bt_insert k v m)"
  by (induction k v m rule: bt_insert.induct) auto

lemma queue_ok_insert:
  "queue_ok q \<Longrightarrow> entry_ok e \<Longrightarrow> q_entries q' = bt_insert key e (q_entries q) \<Longrightarrow> queue_ok q'"
  by (simp add: queue_ok_def bt_wf_insert bt_insert_all)

lemma queue_ok_put:
  "queue_ok q \<Longrightarrow> entry_ok e \<Longrightarrow> queue_ok (q\<lparr>q_entries := bt_insert key e (q_entries q)\<rparr>)"
  by (rule queue_ok_insert) simp_all

lemma keys_map_entries: "map fst (map (\<lambda>(k, e). (k, f k e)) m) = map fst m"
  by (induction m) auto

lemma queue_ok_map:
  assumes "queue_ok q" "\<And>k e. entry_ok e \<Longrightarrow> entry_ok (f k e)"
    "q_entries q' = map (\<lambda>(k, e). (k, f k e)) (q_entries q)"
  shows "queue_ok q'"
  using assms(1,2) unfolding queue_ok_def bt_wf_def assms(3) keys_map_entries
  by (auto simp: list_all_iff)

lemma queue_ok_same: "queue_ok q \<Longrightarrow> q_entries q' = q_entries q \<Longrightarrow> queue_ok q'"
  by (simp add: queue_ok_def)

lemma queue_ok_filter:
  "queue_ok q \<Longrightarrow> q_entries q' = bt_remove key (q_entries q) \<Longrightarrow> queue_ok q'"
  by (auto simp: queue_ok_def bt_wf_filter bt_remove_def list_all_iff)

lemma queue_ok_fold: "(\<And>x q. queue_ok q \<Longrightarrow> queue_ok (f x q)) \<Longrightarrow> queue_ok q \<Longrightarrow> queue_ok (fold f xs q)"
  by (induction xs arbitrary: q) auto

lemma queue_ok_fold_fst:
  "(\<And>x p. queue_ok (fst p) \<Longrightarrow> queue_ok (fst (f x p))) \<Longrightarrow> queue_ok (fst p) \<Longrightarrow> queue_ok (fst (fold f xs p))"
  by (induction xs arbitrary: p) auto

lemma entry_ok_arm: "entry_ok e \<Longrightarrow> entry_ok (arm run cause now e)"
proof -
  assume ok: "entry_ok e"
  let ?kept = "filter (\<lambda>t. now - t < span (24 * 60 * 60 * 1000)) (e_retried e)"
  have "length (e_retried e) \<le> RETRIES_PER_DAY" using ok by (auto simp: entry_ok_def split: if_splits)
  then have "length ?kept \<le> RETRIES_PER_DAY" using length_filter_le le_trans by blast
  then show ?thesis using ok by (auto simp: entry_ok_def arm_def Let_def split: option.split)
qed

lemma arm_frame [simp]:
  "e_queued (arm run cause now e) = e_queued e" "e_running (arm run cause now e) = e_running e"
  "e_stuck (arm run cause now e) = e_stuck e" "e_run (arm run cause now e) = e_run e"
  "e_run_stream (arm run cause now e) = e_run_stream e" "e_lane (arm run cause now e) = e_lane e"
  "e_next (arm run cause now e) = e_next e" "e_clock (arm run cause now e) = e_clock e"
  "e_sweep (arm run cause now e) = e_sweep e" "e_stream (arm run cause now e) = e_stream e"
  by (simp_all add: arm_def Let_def)

lemma entry_ok_clear: "entry_ok e \<Longrightarrow> entry_ok (clear_retry e)"
  by (simp add: entry_ok_def clear_retry_def)

lemma entry_ok_retry: "entry_ok e \<Longrightarrow> entry_ok (retry_entry failed changed now key e)"
proof -
  have "entry_ok (e\<lparr>e_retry := map_option f (e_retry e)\<rparr>)" if "entry_ok e" for e f
    using that by (auto simp: entry_ok_def)
  then show "entry_ok e \<Longrightarrow> ?thesis"
    by (auto simp: retry_entry_def Let_def entry_ok_arm entry_ok_clear
        split: option.split last_run.split prod.split)
qed

lemma entry_ok_due: "entry_ok e \<Longrightarrow> entry_ok (due_entry ch now e)"
  by (auto simp: due_entry_def entry_ok_def split: option.split)

lemma entry_ok_retry_due: "entry_ok e \<Longrightarrow> entry_ok (retry_due now e)"
  by (auto simp: retry_due_def entry_ok_def split: option.split)

lemma entry_ok_end: "entry_ok e \<Longrightarrow> e_running e \<noteq> None \<Longrightarrow> entry_ok (end_entry now started state failure e)"
proof -
  have "entry_ok (e\<lparr>e_run_stream := None, e_running := None, e_last := l\<rparr>)"
    if "entry_ok e" "e_running e \<noteq> None" for e l
    using that by (auto simp: entry_ok_def)
  then show "entry_ok e \<Longrightarrow> e_running e \<noteq> None \<Longrightarrow> ?thesis"
    by (auto simp: end_entry_def Let_def entry_ok_arm split: option.split run_state.split)
qed

lemma queue_ok_plan_one: "queue_ok q \<Longrightarrow> queue_ok (plan_one env now kp q)"
proof -
  assume ok: "queue_ok q"
  obtain key p where kp: "kp = (key, p)" by (cases kp)
  show ?thesis
  proof (cases "bt_get (q_entries q) key")
    case None
    then show ?thesis using ok unfolding kp plan_one_def Let_def
      by (auto intro!: queue_ok_put simp: entry_ok_def)
  next
    case (Some e)
    then have "entry_ok (e\<lparr>e_stuck := False, e_stream := a, e_clock := b, e_lane := c, e_next := d\<rparr>)" for a b c d
      using queue_ok_get [OF ok] by (auto simp: entry_ok_def)
    then show ?thesis using Some ok unfolding kp plan_one_def Let_def by (auto intro!: queue_ok_put)
  qed
qed

lemma queue_ok_drop_key: "queue_ok q \<Longrightarrow> queue_ok (drop_key key q)"
  by (rule queue_ok_filter [of _ _ key]) (simp_all add: drop_key_def)

lemma queue_ok_retries: "queue_ok q \<Longrightarrow> queue_ok (retries now q)"
  by (rule queue_ok_map [where f = "retry_entry (q_failed q) (q_rules_changed q) now"])
    (simp_all add: entry_ok_retry retries_def)

lemma queue_ok_plan: "queue_ok q \<Longrightarrow> queue_ok (plan env wanted now q)"
  unfolding plan_def drop_unwanted_def
  by (intro queue_ok_retries queue_ok_fold queue_ok_plan_one queue_ok_drop_key) (auto intro: queue_ok_same)

lemma queue_ok_sweeps: "queue_ok q \<Longrightarrow> queue_ok (snd (sweeps q))"
  by (rule queue_ok_map [where f = "\<lambda>k e. if e_sweep e \<and> e_running e = None then e\<lparr>e_sweep := False\<rparr> else e"])
    (auto simp: sweeps_def entry_ok_def)

lemma queue_ok_settle_state: "queue_ok (fst p) \<Longrightarrow> queue_ok (fst (settle_state now ks p))"
proof -
  assume ok: "queue_ok (fst p)"
  obtain q ended key state where [simp]: "p = (q, ended)" "ks = (key, state)" by (cases p; cases ks) blast
  show ?thesis using ok queue_ok_get [of q key]
    by (auto simp: settle_state_def intro!: queue_ok_insert [of q] entry_ok_end split: option.split)
qed

lemma queue_ok_refuse: "queue_ok q \<Longrightarrow> queue_ok (refuse now key q)"
  using queue_ok_get [of q key]
  by (auto simp: refuse_def entry_ok_def intro!: queue_ok_put split: option.split)

lemma queue_ok_start_run:
  "queue_ok (fst p) \<Longrightarrow> queue_ok (fst (start_run env now dk p))"
  using queue_ok_get [of "fst p" "snd dk"]
  by (auto simp: start_run_def Let_def entry_ok_def intro!: queue_ok_put
      split: option.split prod.split)

lemma queue_ok_start_lane: "queue_ok (fst p) \<Longrightarrow> queue_ok (fst (start_lane env now ll p))"
  unfolding start_lane_def Let_def
  by (auto intro!: queue_ok_fold_fst queue_ok_start_run queue_ok_fold queue_ok_refuse split: prod.split)

lemma queue_ok_dues: "queue_ok q \<Longrightarrow> queue_ok (queue_retries now (queue_due env now q))"
proof -
  assume "queue_ok q"
  then have "queue_ok (queue_due env now q)"
    by (rule queue_ok_map [where f = "\<lambda>k. due_entry (calendar env) now"]) (simp_all add: entry_ok_due queue_due_def)
  then show ?thesis
    by (rule queue_ok_map [where f = "\<lambda>k. retry_due now"]) (simp_all add: entry_ok_retry_due queue_retries_def)
qed

lemma queue_ok_settle_due: "queue_ok q \<Longrightarrow> queue_ok (fst (settle_due env states now q))"
proof -
  assume ok: "queue_ok q"
  obtain q1 ended where f: "fold (settle_state now) states (q, []) = (q1, ended)" by fastforce
  have "queue_ok q1" using queue_ok_fold_fst [of "settle_state now" "(q, [])" states] f ok queue_ok_settle_state by simp
  then show ?thesis by (simp add: settle_due_def f queue_ok_dues)
qed

lemma queue_ok_settle: "queue_ok q \<Longrightarrow> queue_ok (fst (settle env states now q))"
  by (simp add: settle_def case_prod_unfold Let_def queue_ok_start_lane queue_ok_settle_due)

lemma queue_ok_run_now: "queue_ok q \<Longrightarrow> queue_ok (snd (run_now env key now q))"
  using queue_ok_get [of q key]
  by (auto simp: run_now_def Let_def entry_ok_def intro!: queue_ok_put split: option.split)

lemma queue_ok_stuck: "queue_ok q \<Longrightarrow> queue_ok (stuck key now q)"
  using queue_ok_get [of q key]
  by (auto simp: stuck_def entry_ok_def intro!: queue_ok_put split: option.split)

lemma queue_ok_failed_to_start: "queue_ok q \<Longrightarrow> queue_ok (failed_to_start key reason now q)"
proof -
  assume ok: "queue_ok q"
  have last: "entry_ok (e\<lparr>e_last := l\<rparr>)" and idle: "entry_ok (e\<lparr>e_running := None\<rparr>)"
    if "entry_ok e" for e l
    using that by (auto simp: entry_ok_def)
  show ?thesis using ok queue_ok_get [OF ok, of key] unfolding failed_to_start_def Let_def
    by (auto intro!: queue_ok_put last entry_ok_arm idle split: option.split simp del: append.simps)
qed

lemma queue_reachable_ok: "queue_reachable env q \<Longrightarrow> queue_ok q"
proof (induction rule: queue_reachable.induct)
  case (fresh_queue batch short)
  then show ?case by (simp add: new_queue_def queue_ok_def bt_empty_def)
qed (auto intro: queue_ok_same queue_ok_plan queue_ok_sweeps queue_ok_settle queue_ok_run_now
      queue_ok_stuck queue_ok_failed_to_start
    simp: set_failed_def set_rules_def set_unbound_def set_ran_def set_streams_def take_ends_def)


subsection \<open>What the lanes start\<close>

definition run_keys :: "queue_lane \<Rightarrow> run_queue \<Rightarrow> key set" where
  "run_keys lane q = {k. \<exists>e. bt_get (q_entries q) k = Some e \<and> e_lane e = lane \<and> e_running e \<noteq> None}"

lemma fst_filter: "fst ` set (filter (\<lambda>(_, e). P e) m) = {k. \<exists>e. (k, e) \<in> set m \<and> P e}"
  by force

lemma busy_card: "queue_ok q \<Longrightarrow> busy lane q = card (run_keys lane q) \<and> finite (run_keys lane q)"
proof -
  assume "queue_ok q"
  then have wf: "bt_wf (q_entries q)" by (simp add: queue_ok_def)
  let ?run = "filter (\<lambda>(_, e). e_lane e = lane \<and> e_running e \<noteq> None) (q_entries q)"
  have keys: "run_keys lane q = fst ` set ?run"
    unfolding run_keys_def bt_mem_iff [OF wf, symmetric] fst_filter by (rule refl)
  have "distinct (map fst ?run)" using bt_wf_distinct [OF bt_wf_filter [OF wf]] by blast
  then have "card (fst ` set ?run) = length ?run" using distinct_card [of "map fst ?run"] by (simp only: set_map length_map)
  then show ?thesis by (simp add: keys busy_def)
qed

definition eligible :: "queue_lane \<Rightarrow> qentry \<Rightarrow> bool" where
  "eligible lane e \<longleftrightarrow> e_lane e = lane \<and> e_running e = None \<and> \<not> e_sweep e"

lemma set_waiting:
  assumes "queue_ok q"
  shows "(d, k) \<in> set (waiting lane q) \<longleftrightarrow>
    (\<exists>e. bt_get (q_entries q) k = Some e \<and> eligible lane e \<and> e_queued e = Some d)"
proof -
  have "(d, k) \<in> set (waiting lane q) \<longleftrightarrow> (\<exists>e. (k, e) \<in> set (q_entries q) \<and> eligible lane e \<and> e_queued e = Some d)"
    unfolding waiting_def set_sort map_filter_def eligible_def by (force split: if_splits)
  moreover have "bt_wf (q_entries q)" using assms by (simp add: queue_ok_def)
  ultimately show ?thesis by (simp add: bt_mem_iff)
qed

lemma map_filter_keys:
  "map snd (List.map_filter (\<lambda>(k, e). if P e then map_option (\<lambda>d. (d, k)) (g e) else None) m) =
     map fst (filter (\<lambda>(k, e). P e \<and> g e \<noteq> None) m)"
proof (induction m)
  case (Cons x m)
  then show ?case by (cases x; cases "P (snd x)"; cases "g (snd x)") (simp_all add: List.map_filter_simps)
qed (simp add: List.map_filter_simps)

lemma waiting_distinct: "queue_ok q \<Longrightarrow> distinct (map snd (waiting lane q))"
proof -
  assume "queue_ok q"
  then have "distinct (map fst (q_entries q))" using bt_wf_distinct by (auto simp: queue_ok_def)
  then have "distinct (map snd (List.map_filter (\<lambda>(k, e). if e_lane e = lane \<and> e_running e = None \<and> \<not> e_sweep e
      then map_option (\<lambda>d. (d, k)) (e_queued e) else None) (q_entries q)))"
    unfolding map_filter_keys by (rule distinct_map_filter)
  then show ?thesis unfolding waiting_def by (simp only: distinct_map distinct_sort set_sort)
qed

lemma refuse_get:
  "bt_get (q_entries (refuse now key q)) k =
     (if k = key then map_option (\<lambda>e. e\<lparr>e_queued := None, e_last := Some (RunFailed now NO_CLIENT)\<rparr>) (bt_get (q_entries q) k)
      else bt_get (q_entries q) k)"
  by (auto simp: refuse_def bt_simps split: option.split)

lemma fold_refuse_get:
  "bt_get (q_entries (fold (\<lambda>(_, key). refuse now key) ks q)) k =
     (if k \<in> snd ` set ks
      then map_option (\<lambda>e. e\<lparr>e_queued := None, e_last := Some (RunFailed now NO_CLIENT)\<rparr>) (bt_get (q_entries q) k)
      else bt_get (q_entries q) k)"
  by (induction ks arbitrary: q) (auto simp: refuse_get case_prod_unfold option.map_comp comp_def)

definition start_entry :: "rq_env \<Rightarrow> int \<Rightarrow> int \<Rightarrow> qentry \<Rightarrow> qentry" where
  "start_entry env now due e =
     e\<lparr>e_queued := None, e_running := Some now, e_run := Some (stamp (calendar env) due),
       e_run_stream := Some (stream_hash env (e_stream e))\<rparr>"

lemma start_run_get:
  "bt_get (q_entries (fst (start_run env now (due, key) (q, starts)))) k =
     (if k = key then map_option (start_entry env now due) (bt_get (q_entries q) k) else bt_get (q_entries q) k)"
  by (auto simp: start_run_def start_entry_def Let_def bt_simps split: option.split)

lemma fold_start_run:
  assumes "distinct (map snd ks)" "\<forall>(d, k) \<in> set ks. bt_get (q_entries q) k \<noteq> None"
    "fold (start_run env now) ks (q, starts) = (q', starts')"
  shows "starts' = starts @ map (\<lambda>(d, k). (k, with_run env (e_stream (the (bt_get (q_entries q) k))) (stamp (calendar env) d))) ks \<and>
    (\<forall>k. bt_get (q_entries q') k =
       (case map_of (map prod.swap ks) k of
          Some d \<Rightarrow> map_option (start_entry env now d) (bt_get (q_entries q) k)
        | None \<Rightarrow> bt_get (q_entries q) k))"
  using assms
proof (induction ks arbitrary: q starts)
  case (Cons x ks)
  obtain d k where x: "x = (d, k)" by (cases x)
  obtain e where e: "bt_get (q_entries q) k = Some e" using Cons.prems(2) x by auto
  obtain q1 starts1 where s: "start_run env now (d, k) (q, starts) = (q1, starts1)" by fastforce
  have s1: "starts1 = starts @ [(k, with_run env (e_stream e) (stamp (calendar env) d))]"
    using s e by (simp add: start_run_def Let_def)
  have g: "bt_get (q_entries q1) j =
      (if j = k then map_option (start_entry env now d) (bt_get (q_entries q) j) else bt_get (q_entries q) j)" for j
    using start_run_get [of env now d k q starts j] s by simp
  have k: "k \<notin> snd ` set ks" using Cons.prems(1) x by simp
  then have other: "j \<in> snd ` set ks \<Longrightarrow> bt_get (q_entries q1) j = bt_get (q_entries q) j" for j
    using g by auto
  have "\<forall>(d, k) \<in> set ks. bt_get (q_entries q1) k \<noteq> None"
    using Cons.prems(2) by (auto simp: g x)
  then have IH: "starts' = starts1 @ map (\<lambda>(d, k). (k, with_run env (e_stream (the (bt_get (q_entries q1) k))) (stamp (calendar env) d))) ks"
    "\<And>j. bt_get (q_entries q') j = (case map_of (map prod.swap ks) j of
        Some d \<Rightarrow> map_option (start_entry env now d) (bt_get (q_entries q1) j) | None \<Rightarrow> bt_get (q_entries q1) j)"
    using Cons.IH [of q1 starts1] Cons.prems(1,3) s x by auto
  have "map_of (map prod.swap ks) k = None" using k by (force simp: map_of_eq_None_iff)
  moreover have "map_of (map prod.swap ks) j = Some c \<Longrightarrow> j \<noteq> k" for j c using calculation by auto
  moreover have "map (\<lambda>(d, k). (k, with_run env (e_stream (the (bt_get (q_entries q1) k))) (stamp (calendar env) d))) ks =
      map (\<lambda>(d, k). (k, with_run env (e_stream (the (bt_get (q_entries q) k))) (stamp (calendar env) d))) ks"
    by (rule map_cong [OF refl]) (simp add: case_prod_unfold other)
  ultimately show ?case using IH s1 e by (auto simp: x g split: option.split)
qed simp


text \<open>The specification of one lane's starts: the earliest due first, then by project and name.\<close>

definition limit_of :: "queue_lane \<Rightarrow> run_queue \<Rightarrow> nat" where
  "limit_of lane q = (case lane of Batch \<Rightarrow> q_batch q | Short \<Rightarrow> q_short q)"

definition ready :: "rq_env \<Rightarrow> queue_lane \<Rightarrow> run_queue \<Rightarrow> (int \<times> key) list" where
  "ready env lane q = filter (\<lambda>x. \<not> is_unbound env q (snd x)) (waiting lane q)"

definition picked :: "rq_env \<Rightarrow> int \<Rightarrow> queue_lane \<Rightarrow> run_queue \<Rightarrow> (int \<times> key) list" where
  "picked env now lane q = (if fresh now q then take (limit_of lane q - busy lane q) (ready env lane q) else [])"

definition run_of :: "rq_env \<Rightarrow> run_queue \<Rightarrow> int \<times> key \<Rightarrow> key \<times> json" where
  "run_of env q = (\<lambda>(d, k). (k, with_run env (e_stream (the (bt_get (q_entries q) k))) (stamp (calendar env) d)))"

definition refused_entry :: "int \<Rightarrow> qentry \<Rightarrow> qentry" where
  "refused_entry now e = e\<lparr>e_queued := None, e_last := Some (RunFailed now NO_CLIENT)\<rparr>"

definition same_but_entries :: "run_queue \<Rightarrow> run_queue \<Rightarrow> bool" where
  "same_but_entries q q' \<longleftrightarrow> q' = q\<lparr>q_entries := q_entries q'\<rparr>"

lemma same_but_entries_refl [simp]: "same_but_entries q q"
  by (simp add: same_but_entries_def)

lemma same_but_entries_trans: "same_but_entries a b \<Longrightarrow> same_but_entries b c \<Longrightarrow> same_but_entries a c"
  unfolding same_but_entries_def by (metis run_queue.surjective run_queue.update_convs(4))

lemma same_refuse: "same_but_entries q (refuse now key q)"
  by (simp add: same_but_entries_def refuse_def split: option.split)

lemma same_start_run: "same_but_entries (fst p) (fst (start_run env now dk p))"
  by (cases p; cases dk) (simp add: same_but_entries_def start_run_def Let_def split: option.split)

lemma same_fold: "(\<And>x q. same_but_entries q (f x q)) \<Longrightarrow> same_but_entries q (fold f xs q)"
  by (induction xs arbitrary: q) (auto intro: same_but_entries_trans)

lemma same_fold_fst:
  assumes "\<And>x p. same_but_entries (fst p) (fst (f x p))"
  shows "same_but_entries (fst p) (fst (fold f xs p))"
proof (induction xs arbitrary: p)
  case (Cons x xs)
  show ?case using same_but_entries_trans [OF assms Cons.IH [of "f x p"]] by simp
qed simp

lemma same_frame:
  assumes "same_but_entries q q'"
  shows "fresh now q' = fresh now q" "is_unbound env q' k = is_unbound env q k" "limit_of lane q' = limit_of lane q"
    "q_batch q' = q_batch q" "q_short q' = q_short q" "q_timeout q' = q_timeout q"
  using assms unfolding same_but_entries_def
  by (metis fresh_def is_unbound_def limit_of_def run_queue.select_convs run_queue.surjective run_queue.update_convs(4))+


lemma same_start_lane: "same_but_entries (fst p) (fst (start_lane env now ll p))"
proof -
  obtain q starts lane limit where p: "p = (q, starts)" "ll = (lane, limit)" by (cases p; cases ll) blast
  have refused: "same_but_entries q (fold (\<lambda>(_, key). refuse now key) ks q)" for ks
    by (rule same_fold) (simp add: same_refuse split: prod.split)
  have "same_but_entries q0 (fst (fold (start_run env now) ks (q0, starts)))" for ks q0
    using same_fold_fst [of "start_run env now" "(q0, starts)" ks] same_start_run by auto
  then show ?thesis unfolding p start_lane_def prod.case Let_def fst_conv
    using same_but_entries_trans [OF refused] by blast
qed

lemma sub_waiting_distinct:
  "queue_ok q \<Longrightarrow> distinct (map snd (ready env lane q)) \<and> distinct (map snd (picked env now lane q))"
  by (simp add: ready_def picked_def distinct_map_filter waiting_distinct take_map [symmetric] distinct_take)

lemma set_ready: "x \<in> set (ready env lane q) \<longleftrightarrow> x \<in> set (waiting lane q) \<and> \<not> is_unbound env q (snd x)"
  by (simp add: ready_def)

lemma set_picked: "x \<in> set (picked env now lane q) \<Longrightarrow> x \<in> set (ready env lane q) \<and> fresh now q"
  by (auto simp: picked_def dest: in_set_takeD split: if_splits)

text \<open>
  The runs of a lane that may start, by the entries alone, and what it is for a list to be the first
  \<open>n\<close> of a set of due runs: the earliest due time first, then the project, then the name.
\<close>

definition startable :: "rq_env \<Rightarrow> queue_lane \<Rightarrow> run_queue \<Rightarrow> (int \<times> key) set" where
  "startable env lane q =
     {(d, k). \<exists>e. bt_get (q_entries q) k = Some e \<and> e_lane e = lane \<and> e_running e = None \<and> \<not> e_sweep e \<and>
        e_queued e = Some d \<and> \<not> is_unbound env q k}"

definition due_before :: "int \<times> key \<Rightarrow> int \<times> key \<Rightarrow> bool" where
  "due_before x y \<longleftrightarrow>
     fst x < fst y \<or> fst x = fst y \<and>
       (fst (snd x) < fst (snd y) \<or> fst (snd x) = fst (snd y) \<and> snd (snd x) < snd (snd y))"

definition first_due :: "nat \<Rightarrow> (int \<times> key) set \<Rightarrow> (int \<times> key) list \<Rightarrow> bool" where
  "first_due n S xs \<longleftrightarrow>
     set xs \<subseteq> S \<and> sorted_wrt due_before xs \<and> length xs = min n (card S) \<and>
     (\<forall>x \<in> set xs. \<forall>y \<in> S - set xs. due_before x y)"

lemma due_before_less: "x < y \<longleftrightarrow> due_before x y"
  by (cases x; cases y; cases "snd x"; cases "snd y") (auto simp: due_before_def less_prod_def')

lemma ready_sorted:
  assumes "queue_ok q"
  shows "sorted_wrt due_before (ready env lane q)"
proof -
  have "distinct (waiting lane q)" using waiting_distinct [OF assms] distinct_map by blast
  then have "sorted_wrt (<) (waiting lane q)" by (simp add: strict_sorted_iff) (simp add: waiting_def)
  then have "sorted_wrt (<) (ready env lane q)" by (simp add: ready_def sorted_wrt_filter)
  then show ?thesis by (simp add: due_before_less [abs_def])
qed

lemma picked_first_due:
  assumes ok: "queue_ok q"
  shows "first_due (if fresh now q then limit_of lane q - busy lane q else 0) (startable env lane q)
    (picked env now lane q)"
proof -
  define n where "n = (if fresh now q then limit_of lane q - busy lane q else 0)"
  have p: "picked env now lane q = take n (ready env lane q)" by (simp add: picked_def n_def)
  have S: "set (ready env lane q) = startable env lane q"
    using set_waiting [OF ok] by (auto simp: ready_def startable_def eligible_def)
  have d: "distinct (ready env lane q)" using sub_waiting_distinct [OF ok] distinct_map by blast
  have c: "card (startable env lane q) = length (ready env lane q)" using distinct_card [OF d] S by simp
  have split: "sorted_wrt due_before (take n (ready env lane q) @ drop n (ready env lane q))"
    using ready_sorted [OF ok] by simp
  have "set (ready env lane q) = set (take n (ready env lane q)) \<union> set (drop n (ready env lane q))"
    by (metis append_take_drop_id set_append)
  then have rest: "startable env lane q - set (take n (ready env lane q)) \<subseteq> set (drop n (ready env lane q))"
    using S by blast
  show ?thesis
    unfolding first_due_def n_def [symmetric] p
    using split rest set_take_subset [of n "ready env lane q"] S c
    unfolding sorted_wrt_append by (auto simp: min.commute)
qed

lemma snd_filter: "k \<in> snd ` set (filter (\<lambda>(_, k). P k) xs) \<longleftrightarrow> P k \<and> k \<in> snd ` set xs"
  by force

lemma start_lane_exact:
  assumes ok: "queue_ok q" and r: "start_lane env now (lane, limit_of lane q) (q, starts) = (q', starts')"
  shows "starts' = starts @ map (run_of env q) (picked env now lane q)"
    "bt_get (q_entries q') k =
       (case map_of (map prod.swap (picked env now lane q)) k of
          Some d \<Rightarrow> map_option (start_entry env now d) (bt_get (q_entries q) k)
        | None \<Rightarrow>
            if fresh now q \<and> is_unbound env q k \<and> k \<in> snd ` set (waiting lane q)
            then map_option (refused_entry now) (bt_get (q_entries q) k) else bt_get (q_entries q) k)"
proof -
  let ?refused = "if fresh now q then filter (\<lambda>(_, key). is_unbound env q key) (waiting lane q) else []"
  let ?picked = "picked env now lane q"
  define q1 where "q1 = fold (\<lambda>(_, key). refuse now key) ?refused q"
  have f: "fold (start_run env now) ?picked (q1, starts) = (q', starts')"
    using r unfolding q1_def start_lane_def picked_def ready_def prod.case Let_def case_prod_unfold
    by (cases "fresh now q") simp_all
  have g: "bt_get (q_entries q1) k =
      (if fresh now q \<and> is_unbound env q k \<and> k \<in> snd ` set (waiting lane q)
       then map_option (refused_entry now) (bt_get (q_entries q) k) else bt_get (q_entries q) k)" for k
    unfolding q1_def fold_refuse_get refused_entry_def
    by (cases "fresh now q") (simp_all only: snd_filter if_True if_False simp_thms list.set image_empty empty_iff)
  have same: "bt_get (q_entries q1) (snd x) = bt_get (q_entries q) (snd x)" "bt_get (q_entries q) (snd x) \<noteq> None"
    if "x \<in> set ?picked" for x
  proof -
    have x: "x \<in> set (waiting lane q)" "\<not> is_unbound env q (snd x)"
      using set_picked [OF that] set_ready by blast+
    then show "bt_get (q_entries q1) (snd x) = bt_get (q_entries q) (snd x)" by (simp only: g if_False simp_thms)
    show "bt_get (q_entries q) (snd x) \<noteq> None" using x(1) set_waiting [OF ok, of "fst x" "snd x"] by auto
  qed
  then have "\<forall>(d, k) \<in> set ?picked. bt_get (q_entries q1) k \<noteq> None" by (auto simp: case_prod_unfold)
  note F = fold_start_run [OF conjunct2 [OF sub_waiting_distinct [OF ok]] this f]
  have "map (\<lambda>(d, k). (k, with_run env (e_stream (the (bt_get (q_entries q1) k))) (stamp (calendar env) d))) ?picked
      = map (run_of env q) ?picked"
    by (rule map_cong [OF refl]) (simp only: run_of_def case_prod_unfold same)
  then show "starts' = starts @ map (run_of env q) ?picked" using F by simp
  have kept: "bt_get (q_entries q1) k = bt_get (q_entries q) k" if "map_of (map prod.swap ?picked) k = Some d" for d
    using same(1) [of "(d, k)"] map_of_SomeD [OF that] by auto
  show "bt_get (q_entries q') k =
       (case map_of (map prod.swap ?picked) k of
          Some d \<Rightarrow> map_option (start_entry env now d) (bt_get (q_entries q) k)
        | None \<Rightarrow>
            if fresh now q \<and> is_unbound env q k \<and> k \<in> snd ` set (waiting lane q)
            then map_option (refused_entry now) (bt_get (q_entries q) k) else bt_get (q_entries q) k)"
  proof (cases "map_of (map prod.swap ?picked) k")
    case None
    then show ?thesis using spec [OF conjunct2 [OF F], of k] g [of k] by simp
  next
    case (Some d)
    then show ?thesis using spec [OF conjunct2 [OF F], of k] kept [OF Some] by simp
  qed
qed

lemma picked_entry:
  assumes "queue_ok q" "map_of (map prod.swap (picked env now lane q)) k = Some d"
  obtains e where "bt_get (q_entries q) k = Some e" "eligible lane e" "e_queued e = Some d"
    "\<not> is_unbound env q k" "fresh now q"
proof -
  have "(d, k) \<in> set (picked env now lane q)" using map_of_SomeD [OF assms(2)] by auto
  then have "(d, k) \<in> set (ready env lane q)" "fresh now q" using set_picked by blast+
  then show ?thesis using that set_waiting [OF assms(1), of d k lane] set_ready [of "(d, k)"] by auto
qed

lemma map_of_swap_iff: "map_of (map prod.swap xs) k \<noteq> None \<longleftrightarrow> k \<in> snd ` set xs"
  by (force simp: map_of_eq_None_iff image_image)

lemma waiting_entry:
  "queue_ok q \<Longrightarrow> k \<in> snd ` set (waiting lane q) \<Longrightarrow> \<exists>e. bt_get (q_entries q) k = Some e \<and> eligible lane e \<and> e_queued e \<noteq> None"
  using set_waiting [of q _ _ lane] by fastforce

lemma start_lane_frame:
  assumes ok: "queue_ok q" and r: "start_lane env now (lane, limit_of lane q) (q, starts) = (q', starts')"
  shows "bt_get (q_entries q) k = None \<Longrightarrow> bt_get (q_entries q') k = None"
    "bt_get (q_entries q) k = Some e \<Longrightarrow> \<exists>e'. bt_get (q_entries q') k = Some e' \<and> e_lane e' = e_lane e \<and>
       (e_lane e \<noteq> lane \<longrightarrow> e' = e)"
  using start_lane_exact(2) [OF ok r, of k] picked_entry [OF ok, of env now lane k] waiting_entry [OF ok, of k lane]
  by (auto simp: start_entry_def refused_entry_def eligible_def split: option.splits if_splits)

lemma start_lane_other:
  assumes ok: "queue_ok q" and r: "start_lane env now (lane, limit_of lane q) (q, starts) = (q', starts')"
    and other: "lane' \<noteq> lane"
  shows "waiting lane' q' = waiting lane' q" "busy lane' q' = busy lane' q"
    "bt_get (q_entries q) k = Some e \<Longrightarrow> e_lane e = lane' \<Longrightarrow> bt_get (q_entries q') k = Some e"
proof -
  have ok': "queue_ok q'" using queue_ok_start_lane [of "(q, starts)"] ok r by (metis fst_conv)
  have get: "bt_get (q_entries q') k = Some e \<and> e_lane e = lane' \<longleftrightarrow> bt_get (q_entries q) k = Some e \<and> e_lane e = lane'"
    for k e
    using start_lane_frame [OF ok r, of k] other by (cases "bt_get (q_entries q) k") fastforce+
  show "bt_get (q_entries q) k = Some e \<Longrightarrow> e_lane e = lane' \<Longrightarrow> bt_get (q_entries q') k = Some e"
    using get by blast
  have "run_keys lane' q' = run_keys lane' q" unfolding run_keys_def using get by blast
  then show "busy lane' q' = busy lane' q" using busy_card [OF ok] busy_card [OF ok'] by simp
  have "set (waiting lane' q') = set (waiting lane' q)"
  proof (rule set_eqI)
    fix x :: "int \<times> key"
    show "x \<in> set (waiting lane' q') \<longleftrightarrow> x \<in> set (waiting lane' q)"
      using set_waiting [OF ok, of "fst x" "snd x" lane'] set_waiting [OF ok', of "fst x" "snd x" lane']
        get [of "snd x"] unfolding eligible_def prod.collapse by blast
  qed
  moreover have "distinct (waiting lane' q)" "distinct (waiting lane' q')"
    using waiting_distinct [OF ok] waiting_distinct [OF ok'] distinct_map by blast+
  moreover have "sorted (waiting lane' q)" "sorted (waiting lane' q')" by (simp_all add: waiting_def)
  ultimately show "waiting lane' q' = waiting lane' q" using sorted_distinct_set_unique by metis
qed

lemma start_lane_busy:
  assumes ok: "queue_ok q" and r: "start_lane env now (lane, limit_of lane q) (q, starts) = (q', starts')"
  shows "busy lane q' = busy lane q + length (picked env now lane q)"
    "x \<in> set (waiting lane q') \<Longrightarrow> fresh now q \<Longrightarrow> x \<in> set (ready env lane q) \<and> x \<notin> set (picked env now lane q)"
proof -
  let ?picked = "picked env now lane q"
  have ok': "queue_ok q'" using queue_ok_start_lane [of "(q, starts)"] ok r by (metis fst_conv)
  note get = start_lane_exact(2) [OF ok r]
  have "k \<in> run_keys lane q' \<longleftrightarrow> k \<in> run_keys lane q \<or> k \<in> snd ` set ?picked" for k
  proof (cases "map_of (map prod.swap ?picked) k")
    case None
    then show ?thesis using map_of_swap_iff [of ?picked k] get [of k]
      by (auto simp: run_keys_def refused_entry_def)
  next
    case (Some d)
    then obtain e where "bt_get (q_entries q) k = Some e" "eligible lane e" using picked_entry [OF ok] by metis
    then show ?thesis using Some map_of_swap_iff [of ?picked k] get [of k]
      by (auto simp: run_keys_def start_entry_def eligible_def)
  qed
  then have u: "run_keys lane q' = run_keys lane q \<union> snd ` set ?picked" by blast
  have d: "distinct (map snd ?picked)" using sub_waiting_distinct [OF ok] by blast
  have "k \<notin> run_keys lane q" if k: "k \<in> snd ` set ?picked" for k
  proof -
    obtain d where "map_of (map prod.swap ?picked) k = Some d" using k map_of_swap_iff [of ?picked k] by auto
    then obtain e where "bt_get (q_entries q) k = Some e" "eligible lane e" using picked_entry [OF ok] by metis
    then show ?thesis by (simp add: run_keys_def eligible_def)
  qed
  then have "card (run_keys lane q') = card (run_keys lane q) + card (snd ` set ?picked)"
    unfolding u using busy_card [OF ok] by (intro card_Un_disjoint) auto
  then show "busy lane q' = busy lane q + length ?picked"
    using busy_card [OF ok] busy_card [OF ok'] distinct_card [OF d] by simp
  assume x: "x \<in> set (waiting lane q')" and "fresh now q"
  obtain e' where e': "bt_get (q_entries q') (snd x) = Some e'" "eligible lane e'" "e_queued e' = Some (fst x)"
    using set_waiting [OF ok', of "fst x" "snd x"] x by auto
  then have n: "map_of (map prod.swap ?picked) (snd x) = None" and same: "bt_get (q_entries q) (snd x) = Some e'"
    and bound: "\<not> (is_unbound env q (snd x) \<and> snd x \<in> snd ` set (waiting lane q))"
    using get [of "snd x"] \<open>fresh now q\<close>
    by (auto simp: start_entry_def refused_entry_def eligible_def split: option.splits if_splits)
  have "x \<in> set (waiting lane q)" using set_waiting [OF ok, of "fst x" "snd x"] same e' by auto
  then show "x \<in> set (ready env lane q) \<and> x \<notin> set ?picked"
    using bound n map_of_swap_iff [of ?picked "snd x"] by (auto simp: set_ready)
qed


lemma settle_lanes:
  assumes ok: "queue_ok q" and mid_def: "mid = fst (settle_due env states now q)"
  obtains q3 starts3 q4 starts4 where
    "start_lane env now (Batch, limit_of Batch mid) (mid, []) = (q3, starts3)"
    "start_lane env now (Short, limit_of Short q3) (q3, starts3) = (q4, starts4)"
    "settle env states now q = (q4, snd (settle_due env states now q), starts4)"
    "queue_ok mid" "queue_ok q3" "same_but_entries mid q3"
proof -
  obtain q3 starts3 where a: "start_lane env now (Batch, limit_of Batch mid) (mid, []) = (q3, starts3)" by fastforce
  obtain q4 starts4 where b: "start_lane env now (Short, limit_of Short q3) (q3, starts3) = (q4, starts4)" by fastforce
  have s: "same_but_entries mid q3" using same_start_lane [of "(mid, [])" env now] a by (metis fst_conv)
  have m: "queue_ok mid" unfolding mid_def by (rule queue_ok_settle_due [OF ok])
  have "queue_ok q3" using queue_ok_start_lane [of "(mid, [])"] m a by (metis fst_conv)
  moreover have "settle env states now q = (q4, snd (settle_due env states now q), starts4)"
    using a b same_frame(5) [OF s]
    by (simp add: settle_def mid_def case_prod_unfold Let_def limit_of_def)
  ultimately show ?thesis using that a b m s by blast
qed


lemma short_lane_after_batch:
  assumes ok: "queue_ok q" and r: "start_lane env now (Batch, limit_of Batch q) (q, []) = (q', starts')"
  shows "picked env now Short q' = picked env now Short q"
    "map (run_of env q') (picked env now Short q) = map (run_of env q) (picked env now Short q)"
proof -
  have s: "same_but_entries q q'" using same_start_lane [of "(q, [])" env now] r by (metis fst_conv)
  have other: "Short \<noteq> Batch" by simp
  note frame = start_lane_other [OF ok r other]
  show "picked env now Short q' = picked env now Short q"
    by (simp add: picked_def ready_def frame(1,2) same_frame [OF s])
  have "bt_get (q_entries q') (snd x) = bt_get (q_entries q) (snd x)" if "x \<in> set (picked env now Short q)" for x
  proof -
    have "x \<in> set (waiting Short q)" using set_picked [OF that] set_ready by blast
    then obtain e where "bt_get (q_entries q) (snd x) = Some e" "e_lane e = Short"
      using set_waiting [OF ok, of "fst x" "snd x"] by (auto simp: eligible_def)
    then show ?thesis using frame(3) by simp
  qed
  then show "map (run_of env q') (picked env now Short q) = map (run_of env q) (picked env now Short q)"
    by (intro map_cong refl) (simp only: run_of_def case_prod_unfold)
qed

lemma settle_busy:
  assumes ok: "queue_ok q"
  defines "mid \<equiv> \<lambda>env states now. fst (settle_due env states now q)"
    and "done \<equiv> \<lambda>env states now. fst (settle env states now q)"
  shows "busy lane (done env states now) = busy lane (mid env states now) + length (picked env now lane (mid env states now))"
    "x \<in> set (waiting lane (done env states now)) \<Longrightarrow> fresh now (mid env states now) \<Longrightarrow>
       x \<in> set (ready env lane (mid env states now)) \<and> x \<notin> set (picked env now lane (mid env states now))"
proof -
  let ?mid = "mid env states now"
  obtain q3 starts3 q4 starts4 where
    a: "start_lane env now (Batch, limit_of Batch ?mid) (?mid, []) = (q3, starts3)" and
    b: "start_lane env now (Short, limit_of Short q3) (q3, starts3) = (q4, starts4)" and
    r: "settle env states now q = (q4, snd (settle_due env states now q), starts4)" and
    m: "queue_ok ?mid" and ok3: "queue_ok q3" and s: "same_but_entries ?mid q3"
    using settle_lanes [OF ok, of ?mid env states now] unfolding mid_def by metis
  have q4: "done env states now = q4" by (simp add: done_def r)
  note short = short_lane_after_batch [OF m a]
  have "Batch \<noteq> Short" "Short \<noteq> Batch" by simp_all
  note batch_after = start_lane_other [OF ok3 b this(1)] and short_before = start_lane_other [OF m a this(2)]
  have "ready env Short q3 = ready env Short ?mid" "fresh now q3 = fresh now ?mid"
    by (simp_all add: ready_def short_before(1) same_frame [OF s])
  then show "busy lane (done env states now) = busy lane ?mid + length (picked env now lane ?mid)"
    "x \<in> set (waiting lane (done env states now)) \<Longrightarrow> fresh now ?mid \<Longrightarrow>
       x \<in> set (ready env lane ?mid) \<and> x \<notin> set (picked env now lane ?mid)"
    using start_lane_busy [OF m a] start_lane_busy [OF ok3 b] short(1) batch_after short_before
    unfolding q4 by (cases lane; simp)+
qed


subsection \<open>Coming due\<close>

lemma due_moves_on:
  assumes "clock_ok ch (e_clock e) now" "e_next (due_entry ch now e) = Some x"
  shows "now < x"
  using assms run_clock.later [of ch "e_clock e" now x]
  by (auto simp: due_entry_def split: option.splits if_splits)

text \<open>A plan's missed run is the first the clock named after the last one: none before it was due.\<close>

lemma missed_is_the_first:
  assumes "clock_ok ch clock last_at" "missed ch clock last_at now = Some due"
  shows "last_at < due \<and> due \<le> now \<and> fires ch clock due"
    and "fires ch clock y \<Longrightarrow> last_at < y \<Longrightarrow> due \<le> y"
proof -
  have n: "next_after ch clock last_at = Some due" "due \<le> now"
    using assms(2) by (auto simp: missed_def bind_eq_Some_conv split: if_splits)
  show "last_at < due \<and> due \<le> now \<and> fires ch clock due"
    using run_clock.later [OF assms(1) n(1)] run_clock.is_named [OF assms(1) n(1)] n(2) by blast
  show "fires ch clock y \<Longrightarrow> last_at < y \<Longrightarrow> due \<le> y"
    using run_clock.no_run_missed [OF assms(1) n(1)] by blast
qed

subsection \<open>What a plan leaves\<close>

lemma drop_key_entries [simp]: "q_entries (drop_key key q) = filter (\<lambda>e. fst e \<noteq> key) (q_entries q)"
  by (simp add: drop_key_def bt_remove_def)

lemma fold_drop_entries:
  "q_entries (fold drop_key keys q) = filter (\<lambda>e. fst e \<notin> set keys) (q_entries q)"
  by (induction keys arbitrary: q) (auto intro!: filter_cong simp: filter_filter)

lemma fold_drop_gone:
  "distinct keys \<Longrightarrow>
     q_gone (fold drop_key keys q) =
       q_gone q @ filter (\<lambda>k. is_some_and (\<lambda>e. e_running e \<noteq> None) (bt_get (q_entries q) k)) keys"
proof (induction keys arbitrary: q)
  case (Cons key keys)
  have other: "bt_get (q_entries (drop_key key q)) k = bt_get (q_entries q) k" if "k \<in> set keys" for k
    using that Cons.prems bt_get_remove [of key "q_entries q" k] by (auto simp: bt_remove_def)
  have "filter (\<lambda>k. is_some_and (\<lambda>e. e_running e \<noteq> None) (bt_get (q_entries (drop_key key q)) k)) keys =
      filter (\<lambda>k. is_some_and (\<lambda>e. e_running e \<noteq> None) (bt_get (q_entries q) k)) keys"
    by (rule filter_cong) (simp_all only: other)
  then show ?case using Cons by (simp add: drop_key_def)
qed simp

text \<open>What planning keeps of an entry: its run, and its place in the queue.\<close>

definition same_run :: "qentry \<Rightarrow> qentry \<Rightarrow> bool" where
  "same_run e e' \<longleftrightarrow> e_running e' = e_running e \<and> e_run e' = e_run e \<and> e_run_stream e' = e_run_stream e \<and>
     e_queued e' = e_queued e \<and> e_last e' = e_last e \<and> e_sweep e' = e_sweep e"

lemma same_run_refl [simp]: "same_run e e"
  by (simp add: same_run_def)

lemma same_run_trans: "same_run a b \<Longrightarrow> same_run b c \<Longrightarrow> same_run a c"
  by (simp add: same_run_def)

lemma same_run_retry: "same_run e (retry_entry failed changed now key e)"
proof -
  have "same_run e (arm run cause now e)" "same_run e (clear_retry e)" for run cause
    by (simp_all add: same_run_def arm_def clear_retry_def Let_def)
  then show ?thesis
    by (auto simp: retry_entry_def Let_def same_run_def split: option.split last_run.split prod.split)
qed

lemma plan_one_get:
  "(bt_get (q_entries (plan_one env now (key, p) q)) k \<noteq> None \<longleftrightarrow> k = key \<or> bt_get (q_entries q) k \<noteq> None) \<and>
   (bt_get (q_entries q) k = Some e \<longrightarrow>
      (\<exists>e'. bt_get (q_entries (plan_one env now (key, p) q)) k = Some e' \<and> same_run e e' \<and>
         (k = key \<longrightarrow> e_stream e' = pl_stream p \<and> e_clock e' = pl_clock p) \<and> (k \<noteq> key \<longrightarrow> e' = e))) \<and>
   (k = key \<longrightarrow> (\<exists>e'. bt_get (q_entries (plan_one env now (key, p) q)) k = Some e' \<and>
      e_stream e' = pl_stream p \<and> e_clock e' = pl_clock p))"
proof (cases "bt_get (q_entries q) key")
  case None
  then show ?thesis unfolding plan_one_def prod.case Let_def by (simp add: bt_simps)
next
  case (Some f)
  then show ?thesis unfolding plan_one_def prod.case Let_def by (auto simp: bt_simps same_run_def)
qed

lemma plan_one_gone [simp]: "q_gone (plan_one env now kp q) = q_gone q"
  by (cases kp) (simp add: plan_one_def Let_def split: option.split)

lemma fold_plan_gone [simp]: "q_gone (fold (plan_one env now) wanted q) = q_gone q"
  by (induction wanted arbitrary: q) auto

lemma plan_one_other: "k \<noteq> fst kp \<Longrightarrow> bt_get (q_entries (plan_one env now kp q)) k = bt_get (q_entries q) k"
proof -
  assume k: "k \<noteq> fst kp"
  note get = plan_one_get [of env now "fst kp" "snd kp" q k, unfolded prod.collapse]
  show ?thesis
  proof (cases "bt_get (q_entries q) k")
    case None
    then show ?thesis using get k by simp
  next
    case (Some e)
    then show ?thesis using get [of e] k by auto
  qed
qed

lemma fold_plan_other:
  "k \<notin> fst ` set wanted \<Longrightarrow> bt_get (q_entries (fold (plan_one env now) wanted q)) k = bt_get (q_entries q) k"
  by (induction wanted arbitrary: q) (simp_all add: plan_one_other)

lemma fold_plan_wanted:
  assumes "distinct (map fst wanted)" "(k, p) \<in> set wanted"
  shows "\<exists>e'. bt_get (q_entries (fold (plan_one env now) wanted q)) k = Some e' \<and>
    e_stream e' = pl_stream p \<and> e_clock e' = pl_clock p"
proof -
  obtain a b where w: "wanted = a @ (k, p) # b" using split_list [OF assms(2)] by blast
  then have "k \<notin> fst ` set b" using assms(1) by simp
  then show ?thesis using plan_one_get [of env now k p "fold (plan_one env now) a q" k]
    by (simp add: w fold_plan_other)
qed

lemma fold_plan_run:
  "bt_get (q_entries q) k = Some e \<Longrightarrow>
     \<exists>e'. bt_get (q_entries (fold (plan_one env now) wanted q)) k = Some e' \<and> same_run e e'"
proof (induction wanted arbitrary: q e)
  case (Cons x wanted)
  obtain e1 where e1: "bt_get (q_entries (plan_one env now x q)) k = Some e1" "same_run e e1"
    using plan_one_get [of env now "fst x" "snd x" q k e] Cons.prems unfolding prod.collapse by blast
  then show ?case using Cons.IH [OF e1(1)] same_run_trans [OF e1(2)] by (simp del: split_paired_Ex) blast
qed simp

lemma retries_get:
  "bt_get (q_entries (retries now q)) k =
     map_option (retry_entry (q_failed q) (q_rules_changed q) now k) (bt_get (q_entries q) k)"
proof -
  have "map_of (map (\<lambda>(k, e). (k, f k e)) m) k = map_option (f k) (map_of m k)" for f and m :: "('a \<times> 'b) list" and k
    by (induction m) auto
  then show ?thesis by (simp add: retries_def bt_get_def)
qed

lemma bt_get_keys: "bt_wf m \<Longrightarrow> k \<in> fst ` set m \<longleftrightarrow> bt_get m k \<noteq> None"
  by (simp add: bt_get_def map_of_eq_None_iff)

lemma bt_get_filter_keys: "bt_get (filter (\<lambda>e. P (fst e)) m) k = (if P k then bt_get m k else None)"
  by (induction m) (auto simp: bt_get_def)

lemma bt_keys_unique:
  assumes "bt_wf m" "bt_wf n" "\<And>k. bt_get m k \<noteq> None \<longleftrightarrow> bt_get n k \<noteq> None"
  shows "map fst m = map fst n"
proof -
  have "set (map fst m) = set (map fst n)" unfolding set_map using assms(3) bt_get_keys [OF assms(1)] bt_get_keys [OF assms(2)] by blast
  then show ?thesis using assms(1,2) unfolding bt_wf_def by (metis strict_sorted_equal)
qed


lemma plan_entries:
  assumes ok: "queue_ok q" and wf: "bt_wf wanted"
  shows "map fst (q_entries (plan env wanted now q)) = map fst wanted"
    "(k, p) \<in> set wanted \<Longrightarrow> \<exists>e'. bt_get (q_entries (plan env wanted now q)) k = Some e' \<and>
       e_stream e' = pl_stream p \<and> e_clock e' = pl_clock p \<and> is_none_or (\<lambda>e. same_run e e') (bt_get (q_entries q) k)"
proof -
  define q1 where "q1 = drop_unwanted wanted (q\<lparr>q_planned_at := Some now\<rparr>)"
  define q2 where "q2 = fold (plan_one env now) wanted q1"
  have p: "plan env wanted now q = retries now q2" by (simp add: plan_def q1_def q2_def)
  have wfq: "bt_wf (q_entries q)" using ok by (simp add: queue_ok_def)
  have q1: "q_entries q1 = filter (\<lambda>e. bt_get wanted (fst e) \<noteq> None) (q_entries q)"
    unfolding q1_def drop_unwanted_def fold_drop_entries by (auto intro!: filter_cong)
  have get1: "bt_get (q_entries q1) k = (if bt_get wanted k \<noteq> None then bt_get (q_entries q) k else None)" for k
    unfolding q1 by (rule bt_get_filter_keys)
  have get2: "bt_get (q_entries q2) k \<noteq> None \<longleftrightarrow> bt_get wanted k \<noteq> None" for k
  proof (cases "bt_get wanted k")
    case None
    then have "k \<notin> fst ` set wanted" using bt_get_keys [OF wf] by blast
    then show ?thesis using None by (simp add: q2_def fold_plan_other get1)
  next
    case (Some p)
    then have "(k, p) \<in> set wanted" using bt_mem_iff [OF wf] by blast
    then show ?thesis using fold_plan_wanted [OF bt_wf_distinct [OF wf]] Some unfolding q2_def by fastforce
  qed
  have "bt_wf (q_entries (plan env wanted now q))" using queue_ok_plan [OF ok] by (simp add: queue_ok_def)
  then show "map fst (q_entries (plan env wanted now q)) = map fst wanted"
    by (rule bt_keys_unique [OF _ wf]) (simp only: p retries_get option.map_disc_iff get2)
  assume w: "(k, p) \<in> set wanted"
  then obtain e2 where e2: "bt_get (q_entries q2) k = Some e2" "e_stream e2 = pl_stream p" "e_clock e2 = pl_clock p"
    using fold_plan_wanted [OF bt_wf_distinct [OF wf]] unfolding q2_def by blast
  let ?e' = "retry_entry (q_failed q2) (q_rules_changed q2) now k e2"
  have "e_stream ?e' = e_stream e2" "e_clock ?e' = e_clock e2"
    by (auto simp: retry_entry_def Let_def clear_retry_def split: option.split last_run.split prod.split)
  moreover have "same_run e ?e'" if "bt_get (q_entries q) k = Some e" for e
  proof -
    have "bt_get (q_entries q1) k = Some e" using that w bt_mem_iff [OF wf, of k p] by (simp add: get1)
    then have "same_run e e2" using fold_plan_run [of q1 k e env now wanted] e2(1) unfolding q2_def by auto
    then show ?thesis using same_run_retry same_run_trans by blast
  qed
  ultimately show "\<exists>e'. bt_get (q_entries (plan env wanted now q)) k = Some e' \<and>
       e_stream e' = pl_stream p \<and> e_clock e' = pl_clock p \<and> is_none_or (\<lambda>e. same_run e e') (bt_get (q_entries q) k)"
    using e2 by (intro exI [of _ ?e']) (simp add: p retries_get is_none_or_iff)
qed

lemma plan_gone:
  assumes ok: "queue_ok q"
  shows "q_gone (plan env wanted now q) =
    q_gone q @ map fst (filter (\<lambda>(k, e). bt_get wanted k = None \<and> e_running e \<noteq> None) (q_entries q))"
proof -
  have wfq: "bt_wf (q_entries q)" using ok by (simp add: queue_ok_def)
  have "filter (\<lambda>k. is_some_and (\<lambda>e. e_running e \<noteq> None) (bt_get (q_entries q) k))
      (filter (\<lambda>k. bt_get wanted k = None) (map fst (q_entries q))) =
    map fst (filter (\<lambda>x. is_some_and (\<lambda>e. e_running e \<noteq> None) (bt_get (q_entries q) (fst x)) \<and> bt_get wanted (fst x) = None) (q_entries q))"
    by (simp add: filter_map comp_def conj_commute)
  also have "\<dots> = map fst (filter (\<lambda>(k, e). bt_get wanted k = None \<and> e_running e \<noteq> None) (q_entries q))"
  proof (rule arg_cong [where f = "map fst"], rule filter_cong [OF refl])
    fix x assume "x \<in> set (q_entries q)"
    then have "bt_get (q_entries q) (fst x) = Some (snd x)" using bt_mem_iff [OF wfq, of "fst x" "snd x"] by simp
    then show "(is_some_and (\<lambda>e. e_running e \<noteq> None) (bt_get (q_entries q) (fst x)) \<and> bt_get wanted (fst x) = None) =
        (case x of (k, e) \<Rightarrow> bt_get wanted k = None \<and> e_running e \<noteq> None)"
      by (auto simp: is_some_and_def case_prod_unfold)
  qed
  finally show ?thesis
    using fold_drop_gone [of "filter (\<lambda>k. bt_get wanted k = None) (map fst (q_entries q))" "q\<lparr>q_planned_at := Some now\<rparr>"]
      bt_wf_distinct [OF wfq]
    by (simp add: plan_def drop_unwanted_def retries_def)
qed


subsection \<open>A concrete queue\<close>

definition demo_rq_env :: rq_env where
  "demo_rq_env =
     \<lparr>calendar = gregorian, digest = (\<lambda>_. [171]), account_name = (\<lambda>n. ''pipeline-'' @ n),
      json_text = (\<lambda>s. CHR 0x22 # s @ [CHR 0x22])\<rparr>"

definition loop_key :: key where
  "loop_key = (''helsinki'', ''hfp'')"

definition demo_plan :: "(key, planned) btree" where
  "demo_plan = [(loop_key, \<lparr>pl_stream = JNull, pl_clock = Every 60000 0, pl_replace = False\<rparr>)]"

definition demo_queue :: run_queue where
  "demo_queue = snd (sweeps (plan demo_rq_env demo_plan 0 (set_ran (\<lambda>_. None) (new_queue 1 1))))"

lemma demo_queue_reachable: "queue_reachable demo_rq_env demo_queue"
  unfolding demo_queue_def by (intro queue_reachable.intros)

lemma demo_every:
  "\<bar>t div 1000000\<bar> \<le> CHRONO_MAX \<Longrightarrow>
     next_after gregorian (Every 60000 0) t = Some ((t div 1000000 div 60000 + 1) * 60000 * 1000000)"
  by (subst next_after_every) (simp_all add: gregorian_def)

lemma demo_lane: "lane_of gregorian (Every 60000 0) 0 = Short"
  by (simp add: lane_of_def demo_every CHRONO_MAX_def SHORT_BELOW_def)

definition demo_entry :: qentry where
  "demo_entry = \<lparr>e_stream = JNull, e_clock = Every 60000 0, e_lane = Short, e_next = Some 0, e_queued = None,
     e_running = None, e_run = None, e_run_stream = None, e_sweep = False, e_stuck = False, e_last = None,
     e_retry = None, e_armed_for = None, e_attempts = 0, e_retried = []\<rparr>"

lemma demo_queue_eq:
  "demo_queue = (new_queue 1 1)\<lparr>q_ran := Some (\<lambda>_. None), q_planned_at := Some 0, q_entries := [(loop_key, demo_entry)]\<rparr>"
  by (simp add: demo_queue_def demo_plan_def plan_def plan_one_def drop_unwanted_def retries_def sweeps_def
      set_ran_def new_queue_def bt_empty_def demo_rq_env_def demo_lane demo_entry_def changed_unheld_def
      is_some_and_def retry_entry_def Let_def)


lemma demo_settle_due:
  "settle_due demo_rq_env [] 0 demo_queue =
     (demo_queue\<lparr>q_entries := [(loop_key, demo_entry\<lparr>e_queued := Some 0, e_next := Some 60000000000\<rparr>)]\<rparr>, [])"
  by (simp add: settle_due_def demo_queue_eq queue_due_def due_entry_def queue_retries_def retry_due_def
      demo_entry_def demo_rq_env_def demo_every CHRONO_MAX_def)

lemma demo_picked: "picked demo_rq_env 0 Short (fst (settle_due demo_rq_env [] 0 demo_queue)) = [(0, loop_key)]"
  unfolding demo_settle_due
  by (simp add: demo_queue_eq picked_def ready_def fresh_def is_some_and_def elapsed_def span_def
      STALE_PLAN_def waiting_def List.map_filter_simps demo_entry_def is_unbound_def new_queue_def limit_of_def busy_def)

lemma demo_lane_empty:
  "limit_of Short (fst (settle_due demo_rq_env [] 0 demo_queue)) = 1"
  "busy Short (fst (settle_due demo_rq_env [] 0 demo_queue)) = 0"
  unfolding demo_settle_due by (simp_all add: demo_queue_eq limit_of_def new_queue_def busy_def demo_entry_def)

subsection \<open>Properties\<close>

text \<open>
  Property C12. In every queue the locked sections can reach, in whatever order threads run them:
  a queued pipeline is neither running nor held, a running one has a run id and the hash of the
  stream it runs, and a pipeline's retries of the last day with its pending one are at most six.
\<close>

theorem queued_is_never_running_or_held:
  assumes "queue_reachable env q" "bt_get (q_entries q) k = Some e"
  shows "(e_queued e \<noteq> None \<longrightarrow> e_running e = None \<and> \<not> e_stuck e) \<and>
    (e_running e \<noteq> None \<longrightarrow> e_run e \<noteq> None \<and> e_run_stream e \<noteq> None) \<and>
    length (e_retried e) + (if e_retry e = None then 0 else 1) \<le> RETRIES_PER_DAY"
  using queue_ok_get [OF queue_reachable_ok [OF assms(1)] assms(2)] by (simp add: entry_ok_def)

theorem queued_is_never_running_or_held_witness:
  "bt_get (q_entries demo_queue) loop_key = Some demo_entry \<and>
   length (e_retried demo_entry) + (if e_retry demo_entry = None then 0 else 1) \<le> RETRIES_PER_DAY"
proof -
  have e: "bt_get (q_entries demo_queue) loop_key = Some demo_entry" by (simp add: demo_queue_eq)
  show ?thesis using queued_is_never_running_or_held [OF demo_queue_reachable e] e by blast
qed

text \<open>
  Property C16. What one step starts: in each lane, batch first, the queued runs whose account has
  a client, as many as the lane has room for, the earliest due first, then by project and name: none
  that waits is due before one that starts, and each carries the id of its due time. A queue no
  reconciler planned for ten minutes starts nothing.
\<close>

theorem settle_starts_earliest_due:
  assumes "queue_reachable env q" "mid = fst (settle_due env states now q)"
  shows "\<exists>batch short. snd (snd (settle env states now q)) = map (run_of env mid) (batch @ short) \<and>
    first_due (if fresh now mid then q_batch mid - busy Batch mid else 0) (startable env Batch mid) batch \<and>
    first_due (if fresh now mid then q_short mid - busy Short mid else 0) (startable env Short mid) short"
proof -
  have ok: "queue_ok q" by (rule queue_reachable_ok [OF assms(1)])
  obtain q3 starts3 q4 starts4 where
    a: "start_lane env now (Batch, limit_of Batch mid) (mid, []) = (q3, starts3)" and
    b: "start_lane env now (Short, limit_of Short q3) (q3, starts3) = (q4, starts4)" and
    r: "settle env states now q = (q4, snd (settle_due env states now q), starts4)" and
    m: "queue_ok mid" and ok3: "queue_ok q3"
    using settle_lanes [OF ok assms(2)] by metis
  have "snd (snd (settle env states now q)) =
      map (run_of env mid) (picked env now Batch mid @ picked env now Short mid)"
    using start_lane_exact(1) [OF m a] start_lane_exact(1) [OF ok3 b] short_lane_after_batch [OF m a]
    by (simp add: r)
  moreover note picked_first_due [OF m, of now Batch env] picked_first_due [OF m, of now Short env]
  ultimately show ?thesis
    by (rule_tac exI [of _ "picked env now Batch mid"], rule_tac exI [of _ "picked env now Short mid"])
      (simp only: limit_of_def queue_lane.case simp_thms)
qed

theorem settle_starts_earliest_due_witness:
  "\<exists>batch short. snd (snd (settle demo_rq_env [] 0 demo_queue)) =
     map (run_of demo_rq_env (fst (settle_due demo_rq_env [] 0 demo_queue))) (batch @ short) \<and>
    first_due (if fresh 0 (fst (settle_due demo_rq_env [] 0 demo_queue))
        then q_short (fst (settle_due demo_rq_env [] 0 demo_queue)) - busy Short (fst (settle_due demo_rq_env [] 0 demo_queue))
        else 0) (startable demo_rq_env Short (fst (settle_due demo_rq_env [] 0 demo_queue))) short"
  using settle_starts_earliest_due [OF demo_queue_reachable refl, of "[]" 0] by blast

text \<open>
  Property C18. A step never takes a lane past its limit: the runs of a lane afterwards are at most
  the limit, or those that ran before. It leaves no room unused either: while a queued run with an
  account still waits under a fresh plan, its lane holds at least its limit of runs.
\<close>

theorem lane_limit_is_kept_and_used:
  assumes "queue_reachable env q" "mid = fst (settle_due env states now q)" "q' = fst (settle env states now q)"
  shows "busy lane q' \<le> max (limit_of lane mid) (busy lane mid) \<and>
    (fresh now mid \<and> waiting lane q' \<noteq> [] \<longrightarrow> limit_of lane mid \<le> busy lane q')"
proof -
  have ok: "queue_ok q" by (rule queue_reachable_ok [OF assms(1)])
  note busy' = settle_busy(1) [OF ok, of lane env states now, folded assms(2,3)]
  have "length (picked env now lane mid) \<le> limit_of lane mid - busy lane mid" by (simp add: picked_def)
  moreover have "limit_of lane mid - busy lane mid \<le> length (picked env now lane mid)"
    if "fresh now mid" "waiting lane q' \<noteq> []"
  proof -
    obtain x where "x \<in> set (waiting lane q')" using \<open>waiting lane q' \<noteq> []\<close> by (metis hd_in_set)
    then have x: "x \<in> set (ready env lane mid)" "x \<notin> set (picked env now lane mid)"
      using settle_busy(2) [OF ok, of x lane env states now, folded assms(2,3)] \<open>fresh now mid\<close> by blast+
    then have "\<not> length (ready env lane mid) \<le> limit_of lane mid - busy lane mid"
      using \<open>fresh now mid\<close> by (auto simp: picked_def)
    then show ?thesis using \<open>fresh now mid\<close> by (simp add: picked_def)
  qed
  ultimately show ?thesis using busy' by fastforce
qed

theorem lane_limit_is_kept_and_used_witness:
  "busy Short (fst (settle demo_rq_env [] 0 demo_queue)) \<le> 1"
  using lane_limit_is_kept_and_used [OF demo_queue_reachable refl refl, of Short "[]" 0]
  by (simp add: demo_lane_empty)

text \<open>
  Property C19. After a plan the queue holds exactly the wanted pipelines, each with the wanted
  stream and clock; one it held before keeps its run, its place in the queue and its last result;
  and a run whose pipeline went away is named once for deletion.
\<close>

theorem plan_holds_exactly_the_wanted:
  assumes "queue_reachable env q" "bt_wf wanted"
  shows "map fst (q_entries (plan env wanted now q)) = map fst wanted \<and>
    (\<forall>k p. bt_get wanted k = Some p \<longrightarrow>
       (\<exists>e'. bt_get (q_entries (plan env wanted now q)) k = Some e' \<and> e_stream e' = pl_stream p \<and>
          e_clock e' = pl_clock p \<and> is_none_or (\<lambda>e. same_run e e') (bt_get (q_entries q) k))) \<and>
    q_gone (plan env wanted now q) =
      q_gone q @ map fst (filter (\<lambda>(k, e). bt_get wanted k = None \<and> e_running e \<noteq> None) (q_entries q))"
proof (intro conjI allI impI)
  note ok = queue_reachable_ok [OF assms(1)]
  show "map fst (q_entries (plan env wanted now q)) = map fst wanted" by (rule plan_entries(1) [OF ok assms(2)])
  show "q_gone (plan env wanted now q) =
      q_gone q @ map fst (filter (\<lambda>(k, e). bt_get wanted k = None \<and> e_running e \<noteq> None) (q_entries q))"
    by (rule plan_gone [OF ok])
  fix k p assume "bt_get wanted k = Some p"
  then have "(k, p) \<in> set wanted" using bt_mem_iff [OF assms(2)] by blast
  then show "\<exists>e'. bt_get (q_entries (plan env wanted now q)) k = Some e' \<and> e_stream e' = pl_stream p \<and>
      e_clock e' = pl_clock p \<and> is_none_or (\<lambda>e. same_run e e') (bt_get (q_entries q) k)"
    by (rule plan_entries(2) [OF ok assms(2)])
qed

theorem plan_holds_exactly_the_wanted_witness:
  "map fst (q_entries (plan demo_rq_env demo_plan 5 demo_queue)) = [loop_key]"
  using plan_holds_exactly_the_wanted [OF demo_queue_reachable, of demo_plan 5] by (simp add: demo_plan_def bt_wf_def)

text \<open>
  A held pipeline is started again. The run of a pipeline polled every minute starts at its due
  time and is still there three periods later, its cap: the same step ends the run, queues the
  pipeline for the period that came due and starts it, before the runner is asked to delete the
  old run. The runner does not let go of it, so the pipeline is held, and its new run is sent to
  the runner all the same.
\<close>

definition looping_runner :: runner where
  "looping_runner = \<lparr>r_state = (\<lambda>_. Running), r_delete = (\<lambda>_. False), r_start = (\<lambda>_ _. Inr ())\<rparr>"

definition loop_running :: qentry where
  "loop_running = demo_entry\<lparr>e_next := Some 60000000000, e_running := Some 0, e_run := Some ''0'', e_run_stream := Some ''ab''\<rparr>"

lemma show_small: "show_nat 0 = ''0''" "show_nat 60 = ''60''" "show_nat 3 = ''3''"
  by code_simp+

lemma demo_hash: "stream_hash demo_rq_env JNull = ''ab''" "stamp (calendar demo_rq_env) 0 = ''0''"
  "stamp (calendar demo_rq_env) 60000000000 = ''60''"
proof -
  have "hex2 171 = ''ab''" by code_simp
  then show "stream_hash demo_rq_env JNull = ''ab''" by (simp add: stream_hash_def demo_rq_env_def)
qed (simp_all add: demo_rq_env_def gregorian_def show_small)

lemmas queue_eval = demo_queue_eq fresh_def is_some_and_def elapsed_def span_def STALE_PLAN_def waiting_def
  List.map_filter_simps demo_entry_def is_unbound_def new_queue_def limit_of_def busy_def start_lane_def
  start_run_def with_run_def Let_def

definition loop_queue :: run_queue where
  "loop_queue = fst (settle demo_rq_env [] 0 demo_queue)"

lemma loop_queue_reachable: "queue_reachable demo_rq_env loop_queue"
  unfolding loop_queue_def by (intro queue_reachable.settled demo_queue_reachable)

lemma loop_queue_eq: "loop_queue = demo_queue\<lparr>q_entries := [(loop_key, loop_running)]\<rparr>"
  unfolding loop_queue_def settle_def demo_settle_due
  by (simp add: queue_eval loop_running_def demo_hash)

definition loop_again :: qentry where
  "loop_again = loop_running\<lparr>e_next := Some 240000000000, e_queued := Some 60000000000, e_running := None, e_run_stream := None,
     e_last := Some (RunFailed 180000000000 ''it ran past 3 min and was stopped'')\<rparr>"

lemma loop_settle_due:
  "settle_due demo_rq_env [(loop_key, Running)] 180000000000 loop_queue =
     (loop_queue\<lparr>q_entries := [(loop_key, loop_again)], q_ends := [(loop_key, ''0'', False, ''ab'')]\<rparr>, [loop_key])"
  by (simp add: settle_due_def settle_state_def run_outcome_def cap_def end_entry_def loop_queue_eq loop_running_def demo_queue_eq
      queue_due_def due_entry_def queue_retries_def retry_due_def demo_entry_def demo_rq_env_def demo_every CHRONO_MAX_def
      loop_again_def SHORT_BELOW_def RUN_TIMEOUT_def elapsed_def span_def new_queue_def Let_def unwrap_or_def show_small)

theorem held_pipeline_is_started_again:
  "\<exists>q' calls e stream. queue_reachable demo_rq_env loop_queue \<and>
     tick demo_rq_env looping_runner 180000000000 loop_queue = (q', calls) \<and>
     bt_get (q_entries q') loop_key = Some e \<and> e_stuck e \<and> CallStart loop_key stream \<in> set calls"
proof -
  have s: "sweeps loop_queue = ([], loop_queue)" "running loop_queue = [loop_key]"
    by (simp_all add: sweeps_def running_def loop_queue_eq loop_running_def demo_entry_def demo_queue_eq new_queue_def)
  have "settle demo_rq_env [(loop_key, Running)] 180000000000 loop_queue =
     (loop_queue\<lparr>q_entries := [(loop_key, start_entry demo_rq_env 180000000000 60000000000 loop_again)],
        q_ends := [(loop_key, ''0'', False, ''ab'')]\<rparr>, [loop_key], [(loop_key, JNull)])"
    unfolding settle_def loop_settle_due
    by (simp add: queue_eval loop_queue_eq loop_again_def loop_running_def demo_hash start_entry_def)
  then show ?thesis using loop_queue_reachable
    by (simp add: tick_def s looping_runner_def stuck_def take_ends_def)
qed

end
