(* ===== verification/Transitions.thy ===== *)
theory Transitions
  imports Store
begin

text \<open>
  A condition's \<open>lastTransitionTime\<close> moves only when the condition changes
  (\<open>src/reconciler/transitions.rs\<close>). A run takes the conditions of the mirror it starts from
  (\<open>transitions_of\<close>) and at its end gives each condition that still says the same the time it
  first said it (\<open>keep\<close> on one resource, \<open>keep_all\<close> on a mirror). Last, what was said of a pipeline
  that does not run (\<open>Unscheduled\<close> of \<open>src/reconciler/stall.rs\<close>).
\<close>

subsection \<open>Conditions of a run\<close>

type_synonym condition_key = "string \<times> string \<times> string \<times> string"

type_synonym transitions = "condition_key \<Rightarrow> (string \<times> string option \<times> int) option"

definition condition_key :: "envelope \<Rightarrow> string \<Rightarrow> condition_key" where
  "condition_key env condition_type =
     (unwrap_or [] (meta_namespace (metadata env)), env_kind env, meta_name (metadata env), condition_type)"

definition conditions_of :: "envelope \<Rightarrow> condition list" where
  "conditions_of env = (case env_status env of None \<Rightarrow> [] | Some st \<Rightarrow> st_conditions st)"

definition has_conditions :: "envelope \<Rightarrow> bool" where
  "has_conditions env = is_some_and (\<lambda>st. st_conditions st \<noteq> []) (env_status env)"

definition see_condition :: "envelope \<Rightarrow> condition \<Rightarrow> transitions \<Rightarrow> transitions" where
  "see_condition env c seen =
     (case cond_last_transition c of
        None \<Rightarrow> seen
      | Some at \<Rightarrow> seen(condition_key env (cond_type c) \<mapsto> (cond_status c, cond_reason c, at)))"

definition transitions_of :: "mirror \<Rightarrow> transitions" where
  "transitions_of m = fold (\<lambda>env. fold (see_condition env) (conditions_of env)) (matching m has_conditions) Map.empty"

definition keep_condition :: "transitions \<Rightarrow> envelope \<Rightarrow> condition \<Rightarrow> condition \<times> bool" where
  "keep_condition seen env c =
     (case seen (condition_key env (cond_type c)) of
        None \<Rightarrow> (c, False)
      | Some (was, why, at) \<Rightarrow>
          if was = cond_status c \<and> why = cond_reason c \<and> cond_last_transition c \<noteq> Some at
          then (c\<lparr>cond_last_transition := Some at\<rparr>, True) else (c, False))"

definition keep :: "transitions \<Rightarrow> envelope \<Rightarrow> envelope \<times> bool" where
  "keep seen env =
     (case env_status env of
        None \<Rightarrow> (env, False)
      | Some st \<Rightarrow>
          let kept = map (keep_condition seen env) (st_conditions st)
          in (env\<lparr>env_status := Some (st\<lparr>st_conditions := map fst kept\<rparr>)\<rparr>, list_ex snd kept))"

definition keep_one :: "jc_names \<Rightarrow> transitions \<Rightarrow> envelope \<Rightarrow> mirror \<Rightarrow> mirror" where
  "keep_one jc seen env m = (let (env', changed) = keep seen env in if changed then upsert jc env' m else m)"

definition keep_all :: "jc_names \<Rightarrow> transitions \<Rightarrow> mirror \<Rightarrow> mirror" where
  "keep_all jc seen m = fold (keep_one jc seen) (matching m has_conditions) m"

subsection \<open>What was said of a pipeline that does not run\<close>

type_synonym unscheduled = "string \<times> string \<Rightarrow> string option"

definition unscheduled_changed :: "string \<Rightarrow> string \<Rightarrow> string option \<Rightarrow> unscheduled \<Rightarrow> bool \<times> unscheduled" where
  "unscheduled_changed ns name reason said =
     (case reason of
        None \<Rightarrow> (False, said((ns, name) := None))
      | Some r \<Rightarrow> (said (ns, name) \<noteq> Some r, said((ns, name) \<mapsto> r)))"

subsection \<open>Keeping touches times only\<close>

text \<open>The time a condition has after a run: the one seen when it still says the same, else its own.\<close>

definition kept_time :: "transitions \<Rightarrow> envelope \<Rightarrow> condition \<Rightarrow> int option" where
  "kept_time seen env c =
     (case seen (condition_key env (cond_type c)) of
        Some (was, why, at) \<Rightarrow> if was = cond_status c \<and> why = cond_reason c then Some at else cond_last_transition c
      | None \<Rightarrow> cond_last_transition c)"

lemma keep_condition_eq: "fst (keep_condition seen env c) = c\<lparr>cond_last_transition := kept_time seen env c\<rparr>"
  by (simp add: keep_condition_def kept_time_def split: option.split prod.split)

lemma keep_condition_changed: "snd (keep_condition seen env c) \<longleftrightarrow> fst (keep_condition seen env c) \<noteq> c"
  by (cases c) (auto simp: keep_condition_def split: option.split prod.split)

lemma keep_eq:
  "fst (keep seen env) =
     env\<lparr>env_status := map_option (\<lambda>st. st\<lparr>st_conditions :=
       map (\<lambda>c. c\<lparr>cond_last_transition := kept_time seen env c\<rparr>) (st_conditions st)\<rparr>) (env_status env)\<rparr>"
  by (cases env) (simp add: keep_def Let_def keep_condition_eq split: option.split)

lemma keep_changed: "snd (keep seen env) \<longleftrightarrow> fst (keep seen env) \<noteq> env"
proof (cases "env_status env")
  case (Some st)
  have "map (fst \<circ> keep_condition seen env) (st_conditions st) = st_conditions st \<longleftrightarrow>
      (\<forall>c \<in> set (st_conditions st). fst (keep_condition seen env c) = c)"
    by (simp add: map_idI list_eq_iff_nth_eq Ball_set_list_all list_all_length)
  then show ?thesis using Some
    by (cases env; cases st) (auto simp: keep_def Let_def list_ex_iff keep_condition_changed)
qed (simp add: keep_def)

lemma keep_key [simp]: "envelope_key (fst (keep seen env)) = envelope_key env"
  by (simp add: keep_eq envelope_key_def)

lemma keep_without: "\<not> has_conditions env \<Longrightarrow> fst (keep seen env) = env"
  by (cases env) (auto simp: keep_def has_conditions_def is_some_and_def Let_def split: option.splits)

lemma keep_one_get:
  assumes "mirror_wf jc m" "bt_get (resources m) (envelope_key env) = Some env"
  shows "bt_get (resources (keep_one jc seen env m)) k =
    (if k = envelope_key env then Some (fst (keep seen env)) else bt_get (resources m) k)"
proof -
  have "(envelope_key env, env) \<in> set (resources m)" using assms by (simp add: mirror_wf_def bt_mem_iff)
  then have valid: "is_dns1123 jc (key_namespace (envelope_key env))"
    "is_manifest_name jc (key_kind (envelope_key env)) (key_name (envelope_key env))"
    using assms(1) by (auto simp: mirror_wf_def)
  show ?thesis
  proof (cases "snd (keep seen env)")
    case True
    then have "resources (keep_one jc seen env m) = bt_insert (envelope_key env) (fst (keep seen env)) (resources m)"
      using valid by (simp add: keep_one_def case_prod_unfold resources_upsert)
    then show ?thesis by (simp add: bt_simps)
  next
    case False
    then show ?thesis using assms(2) keep_changed [of seen env] by (simp add: keep_one_def case_prod_unfold)
  qed
qed

lemma mirror_wf_keep_one: "mirror_wf jc m \<Longrightarrow> mirror_wf jc (keep_one jc seen env m)"
  by (simp add: keep_one_def case_prod_unfold Let_def mirror_wf_upsert)

lemma fold_keep_get:
  assumes "mirror_wf jc m" "distinct (map envelope_key es)"
    "\<forall>env \<in> set es. bt_get (resources m) (envelope_key env) = Some env"
  shows "bt_get (resources (fold (keep_one jc seen) es m)) k =
    (case List.find (\<lambda>env. envelope_key env = k) es of
       Some env \<Rightarrow> Some (fst (keep seen env)) | None \<Rightarrow> bt_get (resources m) k)"
  using assms
proof (induction es arbitrary: m)
  case (Cons env es)
  let ?m = "keep_one jc seen env m"
  have get: "bt_get (resources ?m) j = (if j = envelope_key env then Some (fst (keep seen env)) else bt_get (resources m) j)" for j
    using keep_one_get [OF Cons.prems(1)] Cons.prems(3) by simp
  have other: "envelope_key e \<noteq> envelope_key env" if "e \<in> set es" for e
    using imageI [OF that, of envelope_key] Cons.prems(2) by auto
  have "\<forall>e \<in> set es. bt_get (resources ?m) (envelope_key e) = Some e" using Cons.prems(3) by (simp add: get other)
  then have IH: "bt_get (resources (fold (keep_one jc seen) es ?m)) k =
      (case List.find (\<lambda>e. envelope_key e = k) es of Some e \<Rightarrow> Some (fst (keep seen e)) | None \<Rightarrow> bt_get (resources ?m) k)"
    using Cons.IH [OF mirror_wf_keep_one [OF Cons.prems(1)]] Cons.prems(2) by simp
  have "List.find (\<lambda>e. envelope_key e = envelope_key env) es = None" using other by (auto simp: find_None_iff)
  then show ?case using IH by (auto simp: get split: option.split)
qed simp

lemma matching_entries:
  assumes "mirror_wf jc m"
  shows "distinct (map envelope_key (matching m P))"
    "env \<in> set (matching m P) \<longleftrightarrow> P env \<and> bt_get (resources m) (envelope_key env) = Some env"
proof -
  have wf: "bt_wf (resources m)" using assms by (simp add: mirror_wf_def)
  have keys: "map envelope_key (map snd (resources m)) = map fst (resources m)"
    using mirror_wf_key [OF assms] by simp
  then show "distinct (map envelope_key (matching m P))"
    unfolding matching_def using bt_wf_distinct [OF wf] by (metis distinct_map_filter)
  have "env \<in> snd ` set (resources m) \<longleftrightarrow> (envelope_key env, env) \<in> set (resources m)"
    using mirror_wf_key [OF assms] by force
  then show "env \<in> set (matching m P) \<longleftrightarrow> P env \<and> bt_get (resources m) (envelope_key env) = Some env"
    unfolding matching_def bt_mem_iff [OF wf] by auto
qed

lemma keep_all_get:
  assumes "mirror_wf jc m"
  shows "get (keep_all jc seen m) ns kind name = map_option (\<lambda>env. fst (keep seen env)) (get m ns kind name)"
proof -
  let ?k = "ResourceKey ns kind name" and ?es = "matching m has_conditions"
  have at: "\<forall>env \<in> set ?es. bt_get (resources m) (envelope_key env) = Some env" using matching_entries(2) [OF assms] by blast
  have a: "get (keep_all jc seen m) ns kind name = (case List.find (\<lambda>env. envelope_key env = ?k) ?es of
      Some env \<Rightarrow> Some (fst (keep seen env)) | None \<Rightarrow> get m ns kind name)"
    unfolding keep_all_def get_def by (rule fold_keep_get [OF assms matching_entries(1) [OF assms] at])
  have k: "get m ns kind name = Some env \<Longrightarrow> envelope_key env = ?k" for env
    using mirror_wf_entry [OF assms] mirror_get_mem [OF assms] by blast
  show ?thesis
  proof (cases "get m ns kind name")
    case None
    then have "List.find (\<lambda>env. envelope_key env = ?k) ?es = None"
      using at by (auto simp: find_None_iff get_def)
    then show ?thesis using a None by simp
  next
    case (Some env)
    then have key: "envelope_key env = ?k" by (rule k)
    show ?thesis
    proof (cases "List.find (\<lambda>env. envelope_key env = ?k) ?es")
      case None
      then have "env \<notin> set ?es" using key by (auto simp: find_None_iff)
      then have "\<not> has_conditions env" using matching_entries(2) [OF assms] Some key by (simp add: get_def)
      then show ?thesis using a None Some by (simp add: keep_without)
    next
      case (Some env')
      then have "env' \<in> set ?es" "envelope_key env' = ?k" using find_Some_in [OF Some] by simp_all
      then have "env' = env" using at \<open>get m ns kind name = Some env\<close> by (auto simp: get_def)
      then show ?thesis using a Some \<open>get m ns kind name = Some env\<close> by simp
    qed
  qed
qed


subsection \<open>What a run remembers\<close>

lemma condition_key_eq:
  "condition_key env ty = condition_key env' ty' \<longleftrightarrow> envelope_key env = envelope_key env' \<and> ty = ty'"
  by (auto simp: condition_key_def envelope_key_def)

lemma see_other: "key \<noteq> condition_key env (cond_type c) \<Longrightarrow> see_condition env c seen key = seen key"
  by (simp add: see_condition_def split: option.split)

lemma fold_see_other:
  "\<forall>c \<in> set cs. key \<noteq> condition_key env (cond_type c) \<Longrightarrow> fold (see_condition env) cs seen key = seen key"
  by (induction cs arbitrary: seen) (auto simp: see_other)

text \<open>What was said of a condition's type: the last timed condition of that type.\<close>

definition last_said :: "string \<Rightarrow> condition list \<Rightarrow> condition option" where
  "last_said ty cs = List.find (\<lambda>c. cond_type c = ty \<and> cond_last_transition c \<noteq> None) (rev cs)"

lemma fold_see:
  "fold (see_condition env) cs seen (condition_key env ty) =
     (case last_said ty cs of
        None \<Rightarrow> seen (condition_key env ty)
      | Some c \<Rightarrow> Some (cond_status c, cond_reason c, the (cond_last_transition c)))"
proof (induction cs rule: rev_induct)
  case (snoc c cs)
  then show ?case
    by (cases "cond_last_transition c"; cases "cond_type c = ty")
       (auto simp: last_said_def see_condition_def condition_key_eq)
qed (simp add: last_said_def)

lemma fold_see_envelopes:
  "\<forall>env' \<in> set es. envelope_key env' \<noteq> envelope_key env \<Longrightarrow>
     fold (\<lambda>env. fold (see_condition env) (conditions_of env)) es seen (condition_key env ty) = seen (condition_key env ty)"
  by (induction es arbitrary: seen) (auto simp: fold_see_other condition_key_eq)

lemma transitions_of_seen:
  assumes wf: "mirror_wf jc m" and key: "envelope_key env = ResourceKey ns kind name"
  shows "transitions_of m (condition_key env ty) =
    map_option (\<lambda>c. (cond_status c, cond_reason c, the (cond_last_transition c)))
      (Option.bind (get m ns kind name) (\<lambda>old. last_said ty (conditions_of old)))"
proof (cases "get m ns kind name")
  case None
  then have "\<forall>env' \<in> set (matching m has_conditions). envelope_key env' \<noteq> envelope_key env"
    using matching_entries(2) [OF wf] key by (auto simp: get_def)
  then show ?thesis using None by (simp add: transitions_of_def fold_see_envelopes)
next
  case (Some old)
  have ok: "envelope_key old = envelope_key env"
    using mirror_wf_entry [OF wf] mirror_get_mem [OF wf] Some key by fastforce
  then have ck: "condition_key env ty = condition_key old ty" by (simp add: condition_key_eq)
  show ?thesis
  proof (cases "old \<in> set (matching m has_conditions)")
    case True
    then obtain a b where es: "matching m has_conditions = a @ old # b" using split_list by fast
    have "envelope_key old \<notin> envelope_key ` set a \<union> envelope_key ` set b"
      using matching_entries(1) [OF wf, of has_conditions] unfolding es by simp
    then have "\<forall>env' \<in> set a \<union> set b. envelope_key env' \<noteq> envelope_key old" by (metis UnE UnI1 UnI2 imageI)
    then show ?thesis
      unfolding transitions_of_def es ck
      by (simp add: fold_see_envelopes fold_see Some split: option.split)
  next
    case False
    have at: "bt_get (resources m) (envelope_key old) = Some old" using Some key ok by (simp add: get_def)
    then have "\<not> has_conditions old" using False matching_entries(2) [OF wf] by blast
    then have "conditions_of old = []"
      by (auto simp: has_conditions_def conditions_of_def is_some_and_def split: option.splits)
    moreover have "\<forall>env' \<in> set (matching m has_conditions). envelope_key env' \<noteq> envelope_key old"
      using False at matching_entries(2) [OF wf] by (metis option.inject)
    ultimately show ?thesis
      unfolding transitions_of_def ck by (simp add: fold_see_envelopes Some last_said_def)
  qed
qed

subsection \<open>Properties\<close>

text \<open>
  The time a condition has to show after a run that started from \<open>old\<close>: the time of the last timed
  condition of its type when that one said the same status and reason, else its own.
\<close>

definition since :: "envelope option \<Rightarrow> condition \<Rightarrow> int option" where
  "since old d =
     (case last_said (cond_type d) (case old of None \<Rightarrow> [] | Some env \<Rightarrow> conditions_of env) of
        None \<Rightarrow> cond_last_transition d
      | Some c \<Rightarrow>
          if cond_status c = cond_status d \<and> cond_reason c = cond_reason d then cond_last_transition c
          else cond_last_transition d)"

definition with_times :: "(condition \<Rightarrow> int option) \<Rightarrow> envelope \<Rightarrow> envelope" where
  "with_times f env = env\<lparr>env_status := map_option (\<lambda>st. st\<lparr>st_conditions :=
     map (\<lambda>c. c\<lparr>cond_last_transition := f c\<rparr>) (st_conditions st)\<rparr>) (env_status env)\<rparr>"

lemma last_said_timed: "last_said ty cs = Some c \<Longrightarrow> \<exists>at. cond_last_transition c = Some at"
  by (auto simp: last_said_def find_Some_iff)

lemma kept_time_since:
  assumes "mirror_wf jc m" "envelope_key env = ResourceKey ns kind name"
  shows "kept_time (transitions_of m) env d = since (get m ns kind name) d"
proof (cases "get m ns kind name")
  case None
  then show ?thesis using transitions_of_seen [OF assms] by (simp add: kept_time_def since_def last_said_def)
next
  case (Some old)
  then show ?thesis
    using transitions_of_seen [OF assms, of "cond_type d"] last_said_timed [of "cond_type d" "conditions_of old"]
    by (auto simp: kept_time_def since_def split: option.split)
qed

text \<open>
  Property C38. What the mirror holds after a run, of every resource: the resource the run left, in
  which each condition that says the status and reason its type had when the run started has the time
  of then; a condition that says something else, one of a type that was not there or had no time, and
  every condition of a resource that was not there keep their own time; and nothing but these times
  is changed.
\<close>

theorem condition_time_moves_only_with_the_condition:
  assumes "mirror_reachable jc before" "mirror_reachable jc after"
  shows "get (keep_all jc (transitions_of before) after) ns kind name =
    map_option (with_times (since (get before ns kind name))) (get after ns kind name)"
proof (cases "get after ns kind name")
  case None
  then show ?thesis by (simp add: keep_all_get [OF mirror_reachable_wf [OF assms(2)]])
next
  case (Some new)
  note wf0 = mirror_reachable_wf [OF assms(1)] and wf1 = mirror_reachable_wf [OF assms(2)]
  have "envelope_key new = ResourceKey ns kind name"
    using mirror_wf_entry [OF wf1] mirror_get_mem [OF wf1] Some by blast
  then have "kept_time (transitions_of before) new d = since (get before ns kind name) d" for d
    by (rule kept_time_since [OF wf0])
  then show ?thesis by (simp add: keep_all_get [OF wf1] Some keep_eq with_times_def)
qed

definition demo_condition :: "string \<Rightarrow> int \<Rightarrow> condition" where
  "demo_condition reason at = \<lparr>cond_type = ''Ready'', cond_status = ''False'', cond_reason = Some reason,
     cond_message = None, cond_last_transition = Some at\<rparr>"

definition demo_app :: "string \<Rightarrow> int \<Rightarrow> envelope" where
  "demo_app reason at = (demo_env ''transport'' ''Pipeline'' ''buses'' JNull)
     \<lparr>env_status := Some \<lparr>st_phase = Pending, st_observed_revision = None, st_source_url = None,
        st_conditions = [demo_condition reason at], st_build = None, st_shard = None,
        st_domain_verification = None, st_jobs = [], st_notifications = None\<rparr>\<rparr>"

definition demo_after :: "string \<Rightarrow> int \<Rightarrow> mirror" where
  "demo_after reason at = upsert demo_names (demo_app reason at) new_mirror"

lemma demo_after_reachable: "mirror_reachable demo_names (demo_after reason at)"
  unfolding demo_after_def by (intro mirror_reachable.intros)

lemma demo_after_get:
  "get (demo_after ''NoBuild'' 5) ''transport'' ''Pipeline'' ''buses'' = Some (demo_app ''NoBuild'' 5)"
  "get (demo_after ''NoBuild'' 9) ''transport'' ''Pipeline'' ''buses'' = Some (demo_app ''NoBuild'' 9)"
  by code_simp+

theorem condition_time_moves_only_with_the_condition_witness:
  "get (keep_all demo_names (transitions_of (demo_after ''NoBuild'' 5)) (demo_after ''NoBuild'' 9))
      ''transport'' ''Pipeline'' ''buses'' = Some (demo_app ''NoBuild'' 5)"
  using condition_time_moves_only_with_the_condition [OF demo_after_reachable demo_after_reachable,
      of "''NoBuild''" 5 "''NoBuild''" 9 "''transport''" "''Pipeline''" "''buses''"]
  by (simp add: demo_after_get with_times_def demo_app_def demo_condition_def since_def last_said_def conditions_of_def)

end
