(* ===== verification/Agreements.thy ===== *)
theory Agreements
  imports Prelude
begin

text \<open>
  An accepted data-space agreement, compiled into Policies for the other participant
  (\<open>src/reconciler/agreements.rs\<close>).

  The kinds of jc-core are records of the fields the code reads or writes; what it copies untouched
  of a Policy is \<open>po_rest\<close>. The operations of a group and the reading of an operation's name are the
  record \<open>operations\<close>. An instant is an integer, a period includes its start and not its end.
\<close>

subsection \<open>Data\<close>

datatype op_ref = SingleOp string | OpGroup string

record operations =
  group_operations :: "string \<Rightarrow> string list"
  parse_op_ref :: "string \<Rightarrow> string + op_ref"
  show_value :: "json \<Rightarrow> string"

datatype principal_kind = RolePrincipal | DidPrincipal | OtherPrincipal string

record principal =
  pr_kind :: principal_kind
  pr_id :: string

record period =
  pd_from :: "int option"
  pd_to :: "int option"

record 'x policy_spec =
  po_assignee :: principal
  po_prohibition :: bool
  po_operations :: "op_ref list"
  po_q :: "string option"
  po_scope_q :: "string option"
  po_geo_q :: "string option"
  po_temporal_q :: "string option"
  po_validity :: "period option"
  po_rest :: 'x

datatype agreement_role = Provider | Consumer

datatype agreement_state = Accepted | Finalized | OtherState string

record agreement_spec =
  ag_role :: agreement_role
  ag_state :: agreement_state
  ag_participant :: string
  ag_q :: "string option"
  ag_scope_q :: "string option"
  ag_geo_q :: "string option"
  ag_temporal_q :: "string option"
  ag_validity :: period
  ag_offer :: "string option"

record offer_spec =
  of_space :: string
  of_endpoints :: "string list"
  of_policy :: json

datatype compile_error =
    NotAccepted string
  | NoOffer string
  | GrantsNothing
  | Widens string string
  | UnknownAction string
  | NoOverlap

definition state_str :: "agreement_state \<Rightarrow> string" where
  "state_str s = (case s of Accepted \<Rightarrow> ''accepted'' | Finalized \<Rightarrow> ''finalized'' | OtherState n \<Rightarrow> n)"

subsection \<open>Narrowing\<close>

definition is_public :: "principal \<Rightarrow> bool" where
  "is_public p \<longleftrightarrow> pr_kind p = RolePrincipal \<and> pr_id p = ''public''"

definition expand :: "operations \<Rightarrow> op_ref list \<Rightarrow> string list" where
  "expand ops refs = concat (map (\<lambda>r. case r of SingleOp op \<Rightarrow> [op] | OpGroup g \<Rightarrow> group_operations ops g) refs)"

text \<open>The loop of \<open>one_group\<close>: depth, within quotes, after a backslash.\<close>

fun group_scan :: "nat \<Rightarrow> bool \<Rightarrow> bool \<Rightarrow> string \<Rightarrow> bool" where
  "group_scan depth quoted escaped [] \<longleftrightarrow> depth = 0 \<and> \<not> quoted"
| "group_scan depth quoted escaped (c # cs) =
     (if quoted \<and> escaped then group_scan depth quoted False cs
      else if quoted \<and> \<not> escaped \<and> c = CHR 0x5C then group_scan depth quoted True cs
      else if c = CHR 0x22 then group_scan depth (\<not> quoted) escaped cs
      else if \<not> quoted \<and> c = CHR ''('' then group_scan (depth + 1) quoted escaped cs
      else if \<not> quoted \<and> c = CHR '')'' then
        (case depth of 0 \<Rightarrow> False | Suc n \<Rightarrow> group_scan n quoted escaped cs)
      else group_scan depth quoted escaped cs)"

definition one_group :: "string \<Rightarrow> bool" where
  "one_group text = group_scan 0 False False text"

definition both_filters :: "string \<Rightarrow> string \<Rightarrow> string" where
  "both_filters offer agreement = ''('' @ offer @ '');('' @ agreement @ '')''"

definition conjunction :: "string \<Rightarrow> string option \<Rightarrow> string option \<Rightarrow> compile_error + string option" where
  "conjunction dimension offer agreement =
     (case (offer, agreement) of
        (Some o', Some a) \<Rightarrow>
          if o' \<noteq> a then
            (if \<not> one_group a then Inl (Widens dimension a) else Inr (Some (both_filters o' a)))
          else Inr (or_else offer agreement)
      | _ \<Rightarrow> Inr (or_else offer agreement))"

definition fence :: "string \<Rightarrow> string option \<Rightarrow> string option \<Rightarrow> compile_error + string option" where
  "fence dimension offer agreement =
     (case (offer, agreement) of
        (Some o', Some a) \<Rightarrow> if o' \<noteq> a then Inl (Widens dimension a) else Inr (or_else offer agreement)
      | _ \<Rightarrow> Inr (or_else offer agreement))"

definition later :: "int option \<Rightarrow> int option \<Rightarrow> int option" where
  "later a b = (case (a, b) of (Some x, Some y) \<Rightarrow> Some (max x y) | _ \<Rightarrow> or_else a b)"

definition earlier :: "int option \<Rightarrow> int option \<Rightarrow> int option" where
  "earlier a b = (case (a, b) of (Some x, Some y) \<Rightarrow> Some (min x y) | _ \<Rightarrow> or_else a b)"

definition overlap :: "period option \<Rightarrow> period \<Rightarrow> compile_error + period" where
  "overlap policy agreement =
     (let v = \<lparr>pd_from = later (Option.bind policy pd_from) (pd_from agreement),
               pd_to = earlier (Option.bind policy pd_to) (pd_to agreement)\<rparr>
      in case (pd_from v, pd_to v) of
           (Some from, Some to) \<Rightarrow> if from \<ge> to then Inl NoOverlap else Inr v
         | _ \<Rightarrow> Inr v)"

subsection \<open>Compiling\<close>

text \<open>One Policy of the offer: \<open>None\<close> when it is passed over.\<close>

definition compile_policy ::
  "operations \<Rightarrow> agreement_spec \<Rightarrow> string list \<Rightarrow> 'x policy_spec \<Rightarrow> compile_error + 'x policy_spec option" where
  "compile_policy ops agreement actions policy =
     (let granted = policy\<lparr>po_assignee := \<lparr>pr_kind = DidPrincipal, pr_id = ag_participant agreement\<rparr>\<rparr>
      in if po_prohibition policy then Inr (Some granted)
         else if \<not> is_public (po_assignee policy) then Inr None
         else
           let kept = filter (\<lambda>op. op \<in> set actions) (expand ops (po_operations policy))
           in if kept = [] then Inr None
              else
                and_then (conjunction ''q'' (po_q policy) (ag_q agreement)) (\<lambda>q.
                and_then (conjunction ''scopeQ'' (po_scope_q policy) (ag_scope_q agreement)) (\<lambda>scope_q.
                and_then (fence ''geoQ'' (po_geo_q policy) (ag_geo_q agreement)) (\<lambda>geo_q.
                and_then (fence ''temporalQ'' (po_temporal_q policy) (ag_temporal_q agreement)) (\<lambda>temporal_q.
                and_then (overlap (po_validity policy) (ag_validity agreement)) (\<lambda>v.
                  Inr (Some (granted\<lparr>po_operations := map SingleOp kept, po_q := q, po_scope_q := scope_q,
                    po_geo_q := geo_q, po_temporal_q := temporal_q, po_validity := Some v\<rparr>))))))))"

fun compile_policies ::
  "operations \<Rightarrow> string \<Rightarrow> agreement_spec \<Rightarrow> string list \<Rightarrow> (string \<times> 'x policy_spec) list \<Rightarrow>
   compile_error + (string \<times> 'x policy_spec) list" where
  "compile_policies ops name agreement actions [] = Inr []"
| "compile_policies ops name agreement actions ((policy_name, policy) # offered) =
     and_then (compile_policy ops agreement actions policy) (\<lambda>granted.
     and_then (compile_policies ops name agreement actions offered) (\<lambda>rest.
       Inr (case granted of
              None \<Rightarrow> rest
            | Some g \<Rightarrow> (''agreement-'' @ name @ ''-'' @ policy_name, g) # rest)))"

definition compile ::
  "operations \<Rightarrow> string \<Rightarrow> agreement_spec \<Rightarrow> string list \<Rightarrow> (string \<times> 'x policy_spec) list \<Rightarrow>
   compile_error + (string \<times> 'x policy_spec) list" where
  "compile ops name agreement actions offered =
     (if ag_role agreement \<noteq> Provider then Inr []
      else if ag_state agreement \<noteq> Accepted \<and> ag_state agreement \<noteq> Finalized
      then Inl (NotAccepted (state_str (ag_state agreement)))
      else and_then (compile_policies ops name agreement actions offered) (\<lambda>compiled.
        if \<not> list_ex (\<lambda>(_, p). \<not> po_prohibition p) compiled then Inl GrantsNothing else Inr compiled))"

definition action_names :: "json \<Rightarrow> json list" where
  "action_names policy =
     concat (map (\<lambda>rule.
       case jget ''action'' rule of
         Some (JArray actions) \<Rightarrow> actions
       | Some action \<Rightarrow> [action]
       | None \<Rightarrow> []) (unwrap_or [] (get_array ''permission'' policy)))"

definition action_operations :: "operations \<Rightarrow> json \<Rightarrow> compile_error + string list" where
  "action_operations ops action =
     (let name = (case action of JString n \<Rightarrow> n | other \<Rightarrow> unwrap_or [] (get_str ''@id'' other));
          bare = unwrap_or name (strip_prefix ''ngsi-ld:'' name);
          parsed = (if bare = ''odrl:read'' \<or> bare = ''read'' then Inr (OpGroup ''retrieveOps'') else parse_op_ref ops bare)
      in case parsed of
           Inl _ \<Rightarrow> Inl (UnknownAction (show_value ops action))
         | Inr r \<Rightarrow> Inr (expand ops [r]))"

fun collect_actions :: "operations \<Rightarrow> json list \<Rightarrow> compile_error + string list" where
  "collect_actions ops [] = Inr []"
| "collect_actions ops (action # actions) =
     and_then (action_operations ops action) (\<lambda>first.
     and_then (collect_actions ops actions) (\<lambda>rest. Inr (first @ rest)))"

definition offer_actions :: "operations \<Rightarrow> json \<Rightarrow> compile_error + string list" where
  "offer_actions ops policy = collect_actions ops (action_names policy)"

fun push_new :: "(string \<times> 'x) list \<Rightarrow> (string \<times> 'x) list \<Rightarrow> (string \<times> 'x) list" where
  "push_new seen [] = seen"
| "push_new seen (p # ps) = push_new (if list_ex (\<lambda>(n, _). n = fst p) seen then seen else seen @ [p]) ps"

definition compile_agreement ::
  "operations \<Rightarrow> (string \<times> string, offer_spec) btree \<Rightarrow> (string \<Rightarrow> string \<Rightarrow> (string \<times> 'x policy_spec) list) \<Rightarrow>
   string \<Rightarrow> string \<Rightarrow> agreement_spec \<Rightarrow> compile_error + (string \<times> (string \<times> 'x policy_spec) list)" where
  "compile_agreement ops offers bound project name agreement =
     (let offer_name = unwrap_or [] (ag_offer agreement)
      in case bt_get offers (project, offer_name) of
           None \<Rightarrow> Inl (NoOffer offer_name)
         | Some offer \<Rightarrow>
             let offered = fold (\<lambda>endpoint seen. push_new seen (bound project endpoint)) (of_endpoints offer) []
             in and_then (offer_actions ops (of_policy offer)) (\<lambda>actions.
                and_then (compile ops name agreement actions offered) (\<lambda>policies. Inr (of_space offer, policies))))"

definition compile_all ::
  "operations \<Rightarrow> (string \<times> string, offer_spec) btree \<Rightarrow> (string \<Rightarrow> string \<Rightarrow> (string \<times> 'x policy_spec) list) \<Rightarrow>
   (string \<times> string \<times> agreement_spec) list \<Rightarrow> ((string \<times> string) \<times> (string \<times> 'x policy_spec) list) list" where
  "compile_all ops offers bound agreements =
     List.map_filter (\<lambda>(project, name, agreement).
       if ag_role agreement \<noteq> Provider then None
       else (case compile_agreement ops offers bound project name agreement of
               Inl _ \<Rightarrow> None
             | Inr (space, policies) \<Rightarrow> if policies \<noteq> [] then Some ((project, space), policies) else None)) agreements"

subsection \<open>What a Policy permits\<close>

text \<open>
  The reference: an instant of a period, a filter that is absent or holds of a record, and an
  operation a Policy permits on a record at an instant. What a filter text means is the parameter
  \<open>holds\<close>, by dimension; of it only that \<open>;\<close> between two parenthesized terms is AND is used
  (\<open>conjunctive\<close>), for texts whose parentheses balance.
\<close>

definition in_period :: "period \<Rightarrow> int \<Rightarrow> bool" where
  "in_period v now \<longleftrightarrow>
     (case pd_from v of None \<Rightarrow> True | Some f \<Rightarrow> f \<le> now) \<and> (case pd_to v of None \<Rightarrow> True | Some t \<Rightarrow> now < t)"

definition opt_holds :: "(string \<Rightarrow> 'r \<Rightarrow> bool) \<Rightarrow> string option \<Rightarrow> 'r \<Rightarrow> bool" where
  "opt_holds hold f r \<longleftrightarrow> (case f of None \<Rightarrow> True | Some t \<Rightarrow> hold t r)"

definition conjunctive :: "(string \<Rightarrow> 'r \<Rightarrow> bool) \<Rightarrow> bool" where
  "conjunctive hold \<longleftrightarrow>
     (\<forall>t u r. one_group t \<and> one_group u \<longrightarrow> hold (both_filters t u) r = (hold t r \<and> hold u r))"

definition permits ::
  "operations \<Rightarrow> (string \<Rightarrow> string \<Rightarrow> 'r \<Rightarrow> bool) \<Rightarrow> 'x policy_spec \<Rightarrow> string \<Rightarrow> int \<Rightarrow> 'r \<Rightarrow> bool" where
  "permits ops holds p op now r \<longleftrightarrow>
     op \<in> set (expand ops (po_operations p)) \<and>
     (case po_validity p of None \<Rightarrow> True | Some v \<Rightarrow> in_period v now) \<and>
     opt_holds (holds ''q'') (po_q p) r \<and> opt_holds (holds ''scopeQ'') (po_scope_q p) r \<and>
     opt_holds (holds ''geoQ'') (po_geo_q p) r \<and> opt_holds (holds ''temporalQ'') (po_temporal_q p) r"

definition agreed :: "(string \<Rightarrow> string \<Rightarrow> 'r \<Rightarrow> bool) \<Rightarrow> agreement_spec \<Rightarrow> int \<Rightarrow> 'r \<Rightarrow> bool" where
  "agreed holds a now r \<longleftrightarrow>
     in_period (ag_validity a) now \<and>
     opt_holds (holds ''q'') (ag_q a) r \<and> opt_holds (holds ''scopeQ'') (ag_scope_q a) r \<and>
     opt_holds (holds ''geoQ'') (ag_geo_q a) r \<and> opt_holds (holds ''temporalQ'') (ag_temporal_q a) r"

definition balanced :: "'x policy_spec \<Rightarrow> bool" where
  "balanced p \<longleftrightarrow> pred_option one_group (po_q p) \<and> pred_option one_group (po_scope_q p)"

text \<open>The characters of a text outside its parentheses and its quoted strings.\<close>

fun outer :: "nat \<Rightarrow> bool \<Rightarrow> bool \<Rightarrow> string \<Rightarrow> string" where
  "outer depth quoted escaped [] = []"
| "outer depth quoted escaped (c # cs) =
     (if quoted then
        (if escaped then outer depth True False cs
         else if c = CHR 0x5C then outer depth True True cs
         else outer depth (c \<noteq> CHR 0x22) False cs)
      else if c = CHR 0x22 then outer depth True False cs
      else if c = CHR ''('' then outer (depth + 1) False False cs
      else if c = CHR '')'' \<and> 0 < depth then outer (depth - 1) False False cs
      else if depth = 0 then c # outer depth False False cs
      else outer depth False False cs)"

text \<open>
  A filter that stands for itself wherever it is put in parentheses, as a grammar: plain characters,
  quoted strings in which a backslash takes the next character along, and balanced text in
  parentheses.
\<close>

inductive quoted_body :: "string \<Rightarrow> bool" where
  quoted_end: "quoted_body []"
| quoted_char: "c \<noteq> CHR 0x22 \<Longrightarrow> c \<noteq> CHR 0x5C \<Longrightarrow> quoted_body s \<Longrightarrow> quoted_body (c # s)"
| quoted_escape: "quoted_body s \<Longrightarrow> quoted_body (CHR 0x5C # c # s)"

inductive balanced_text :: "string \<Rightarrow> bool" where
  balanced_end: "balanced_text []"
| balanced_char: "c \<noteq> CHR ''('' \<Longrightarrow> c \<noteq> CHR '')'' \<Longrightarrow> c \<noteq> CHR 0x22 \<Longrightarrow> balanced_text t \<Longrightarrow> balanced_text (c # t)"
| balanced_quoted: "quoted_body s \<Longrightarrow> balanced_text t \<Longrightarrow> balanced_text (CHR 0x22 # s @ CHR 0x22 # t)"
| balanced_group: "balanced_text s \<Longrightarrow> balanced_text t \<Longrightarrow> balanced_text (CHR ''('' # s @ CHR '')'' # t)"

subsection \<open>A concrete agreement\<close>

text \<open>
  An offer of one Endpoint with one public Policy, and an accepted agreement on it. A filter text
  here holds of a character it does not contain, so that a conjunction holds as its terms do.
\<close>

definition sample_ops :: operations where
  "sample_ops = \<lparr>group_operations = (\<lambda>g. if g = ''retrieveOps'' then [''queryEntity''] else []),
     parse_op_ref = (\<lambda>n. Inr (SingleOp n)), show_value = (\<lambda>_. [])\<rparr>"

definition sample_policy :: "nat policy_spec" where
  "sample_policy = \<lparr>po_assignee = \<lparr>pr_kind = RolePrincipal, pr_id = ''public''\<rparr>, po_prohibition = False,
     po_operations = [OpGroup ''retrieveOps'', SingleOp ''createEntity''], po_q = Some ''a'', po_scope_q = None,
     po_geo_q = None, po_temporal_q = None, po_validity = Some \<lparr>pd_from = Some 5, pd_to = None\<rparr>, po_rest = 7\<rparr>"

definition sample_agreement :: agreement_spec where
  "sample_agreement = \<lparr>ag_role = Provider, ag_state = Accepted, ag_participant = ''did:web:p'', ag_q = Some ''b'',
     ag_scope_q = None, ag_geo_q = None, ag_temporal_q = None, ag_validity = \<lparr>pd_from = None, pd_to = Some 9\<rparr>,
     ag_offer = Some ''air''\<rparr>"

definition sample_offer :: offer_spec where
  "sample_offer = \<lparr>of_space = ''s'', of_endpoints = [''e''],
     of_policy = JObject [(''permission'', JArray [JObject [(''action'', JString ''odrl:read'')]])]\<rparr>"

definition sample_bound :: "string \<Rightarrow> string \<Rightarrow> (string \<times> nat policy_spec) list" where
  "sample_bound project endpoint = [(''open'', sample_policy)]"

definition sample_holds :: "string \<Rightarrow> string \<Rightarrow> char \<Rightarrow> bool" where
  "sample_holds dimension text c \<longleftrightarrow> c \<in> set ''();'' \<or> c \<notin> set text"

definition sample_granted :: "nat policy_spec" where
  "sample_granted = sample_policy\<lparr>po_assignee := \<lparr>pr_kind = DidPrincipal, pr_id = ''did:web:p''\<rparr>,
     po_operations := [SingleOp ''queryEntity''], po_q := Some ''(a);(b)'',
     po_validity := Some \<lparr>pd_from = Some 5, pd_to = Some 9\<rparr>\<rparr>"

subsection \<open>Lemmas\<close>

lemma group_scan_outer:
  assumes "group_scan d q e t" "e \<longrightarrow> q"
  shows "outer (Suc d) q e (t @ u) = outer 1 False False u"
  using assms
proof (induction d q e t rule: group_scan.induct)
  case (2 depth quoted escaped c cs)
  then show ?case
    by (cases quoted; cases escaped; cases "c = CHR 0x22"; cases "c = CHR 0x5C"; cases "c = CHR ''(''";
        cases "c = CHR '')''"; cases depth; simp)
qed simp

lemma group_scan_append:
  assumes "group_scan d q e t" "e \<longrightarrow> q"
  shows "group_scan (d + k) q e (t @ u) = group_scan k False False u"
  using assms
proof (induction d q e t rule: group_scan.induct)
  case (2 depth quoted escaped c cs)
  then show ?case
    by (cases quoted; cases escaped; cases "c = CHR 0x22"; cases "c = CHR 0x5C"; cases "c = CHR ''(''";
        cases "c = CHR '')''"; cases depth; simp)
qed auto

lemma one_group_wrapped:
  assumes "one_group t"
  shows "outer 0 False False (''('' @ t @ '')'' @ u) = outer 0 False False u"
    and "group_scan k False False (''('' @ t @ '')'' @ u) = group_scan k False False u"
  using group_scan_outer [of 0 False False t "'')'' @ u"] group_scan_append [of 0 False False t "k + 1" "'')'' @ u"]
    assms by (simp_all add: one_group_def)

text \<open>The loop of \<open>one_group\<close> accepts the texts of the grammar and no other.\<close>

lemma quoted_body_scan: "quoted_body s \<Longrightarrow> group_scan d True False (s @ CHR 0x22 # t) = group_scan d False False t"
  by (induction rule: quoted_body.induct) simp_all

lemma balanced_scan: "balanced_text t \<Longrightarrow> group_scan 0 False False t"
proof (induction rule: balanced_text.induct)
  case (balanced_group s t)
  then show ?case using group_scan_append [OF balanced_group.IH(1), of 1 "CHR '')'' # t"] by simp
qed (simp_all add: quoted_body_scan)

text \<open>A text that closes \<open>d\<close> parentheses opened before it.\<close>

fun closes :: "nat \<Rightarrow> string \<Rightarrow> bool" where
  "closes 0 t = balanced_text t"
| "closes (Suc d) t = (\<exists>s u. t = s @ CHR '')'' # u \<and> balanced_text s \<and> closes d u)"

lemma closes_front:
  assumes "\<And>t. balanced_text t \<Longrightarrow> balanced_text (p @ t)" "closes d t"
  shows "closes d (p @ t)"
proof (cases d)
  case (Suc n)
  then obtain s u where "t = s @ CHR '')'' # u" "balanced_text s" "closes n u" using assms(2) by auto
  then have "p @ t = (p @ s) @ CHR '')'' # u \<and> balanced_text (p @ s) \<and> closes n u" using assms(1) by simp
  then show ?thesis unfolding Suc closes.simps by blast
qed (use assms in simp)

lemma closes_open:
  assumes "closes (Suc d) t"
  shows "closes d (CHR ''('' # t)"
proof -
  obtain s u where t: "t = s @ CHR '')'' # u" "balanced_text s" "closes d u" using assms by auto
  then have "closes d ((CHR ''('' # s @ [CHR '')'']) @ u)"
    using balanced_group by (intro closes_front) auto
  with t(1) show ?thesis by simp
qed

lemma scan_closes:
  "group_scan d q e t \<Longrightarrow> (e \<longrightarrow> q) \<Longrightarrow>
   (if q then \<exists>s u. t = s @ CHR 0x22 # u \<and> quoted_body (if e then CHR 0x5C # s else s) \<and> closes d u else closes d t)"
proof (induction d q e t rule: group_scan.induct)
  case (2 d q e c cs)
  show ?case
  proof (cases q)
    case q: True
    show ?thesis
    proof (cases e)
      case True
      with 2 q obtain s u where "cs = s @ CHR 0x22 # u" "quoted_body s" "closes d u" by auto
      then have "c # cs = (c # s) @ CHR 0x22 # u \<and> quoted_body (CHR 0x5C # c # s) \<and> closes d u"
        by (simp add: quoted_escape)
      then show ?thesis using q True unfolding if_True by metis
    next
      case False
      consider "c = CHR 0x5C" | "c = CHR 0x22" | "c \<noteq> CHR 0x5C" "c \<noteq> CHR 0x22" by blast
      then show ?thesis
      proof cases
        case 1
        with 2 q False obtain s u where "cs = s @ CHR 0x22 # u" "quoted_body (CHR 0x5C # s)" "closes d u" by auto
        then have "c # cs = (c # s) @ CHR 0x22 # u \<and> quoted_body (c # s) \<and> closes d u" using 1 by simp
        then show ?thesis using q False by metis
      next
        case c: 2
        with 2 q False have "closes d cs" by auto
        then have "c # cs = [] @ CHR 0x22 # cs \<and> quoted_body [] \<and> closes d cs" using c quoted_end by simp
        then show ?thesis using q False by metis
      next
        case 3
        with 2 q False obtain s u where "cs = s @ CHR 0x22 # u" "quoted_body s" "closes d u" by auto
        then have "c # cs = (c # s) @ CHR 0x22 # u \<and> quoted_body (c # s) \<and> closes d u" using 3 quoted_char by simp
        then show ?thesis using q False by metis
      qed
    qed
  next
    case q: False
    consider "c = CHR 0x22" | "c = CHR ''(''" | "c = CHR '')''" | "c \<noteq> CHR 0x22" "c \<noteq> CHR ''(''" "c \<noteq> CHR '')''" by blast
    then show ?thesis
    proof cases
      case 1
      with 2 q obtain s u where "cs = s @ CHR 0x22 # u" "quoted_body s" "closes d u" by auto
      moreover from this have "closes d ((CHR 0x22 # s @ [CHR 0x22]) @ u)"
        using balanced_quoted by (intro closes_front) auto
      ultimately show ?thesis using 1 q by simp
    next
      case c: 2
      with 2 q have "closes (Suc d) cs" by auto
      with c q show ?thesis by (simp add: closes_open)
    next
      case 3
      with 2 q obtain n where "d = Suc n" "closes n cs" by (cases d) auto
      then have "c # cs = [] @ CHR '')'' # cs \<and> balanced_text [] \<and> closes n cs" using 3 balanced_end by simp
      then show ?thesis using q unfolding \<open>d = Suc n\<close> closes.simps by metis
    next
      case 4
      with 2 q have "closes d cs" by auto
      then have "closes d ([c] @ cs)" using 4 balanced_char by (intro closes_front) auto
      with q show ?thesis by simp
    qed
  qed
qed (auto intro: balanced_end)

lemma one_group_iff: "one_group t \<longleftrightarrow> balanced_text t"
  using scan_closes [of 0 False False t] balanced_scan [of t] by (auto simp: one_group_def)

lemma both_filters_outer:
  assumes "one_group t" "one_group u"
  shows "outer 0 False False (both_filters t u) = '';''" "one_group (both_filters t u)"
  using one_group_wrapped [OF assms(1), where u = "'';('' @ u @ '')''"] one_group_wrapped [OF assms(2), where u = "[]"]
  by (simp_all add: both_filters_def one_group_def)

lemma or_else_holds:
  "offer = None \<or> asked = None \<or> offer = asked \<Longrightarrow>
   opt_holds hold (or_else offer asked) r \<longleftrightarrow> opt_holds hold offer r \<and> opt_holds hold asked r"
  by (auto simp: opt_holds_def or_else_def split: option.splits)

lemma conjunction_holds:
  assumes "conjunctive hold" "pred_option one_group offer" "conjunction d offer asked = Inr f"
  shows "opt_holds hold f r \<longleftrightarrow> opt_holds hold offer r \<and> opt_holds hold asked r"
proof (cases "offer = None \<or> asked = None \<or> offer = asked")
  case True
  then have "f = or_else offer asked"
    using assms(3) by (cases offer; cases asked) (auto simp: conjunction_def)
  with True show ?thesis by (simp add: or_else_holds)
next
  case False
  then obtain t u where "offer = Some t" "asked = Some u" "t \<noteq> u" by auto
  with assms show ?thesis
    by (auto simp: conjunction_def conjunctive_def opt_holds_def split: if_splits)
qed

lemma fence_holds:
  assumes "fence d offer asked = Inr f"
  shows "opt_holds hold f r \<longleftrightarrow> opt_holds hold offer r \<and> opt_holds hold asked r"
proof -
  have "f = or_else offer asked \<and> (offer = None \<or> asked = None \<or> offer = asked)"
    using assms by (cases offer; cases asked) (auto simp: fence_def split: if_splits)
  then show ?thesis by (simp add: or_else_holds)
qed

lemmas period_simps = overlap_def Let_def later_def earlier_def in_period_def or_else_def

lemma overlap_Inr:
  assumes "overlap own v = Inr w"
  shows "in_period w now \<longleftrightarrow> (case own of None \<Rightarrow> True | Some o' \<Rightarrow> in_period o' now) \<and> in_period v now"
  using assms
  by (cases own; cases "pd_from v"; cases "pd_to v"; cases "pd_from (the own)"; cases "pd_to (the own)")
     (auto simp: period_simps split: if_splits)

lemma overlap_Inl:
  assumes "overlap own v = Inl e"
  shows "e = NoOverlap \<and> \<not> ((case own of None \<Rightarrow> True | Some o' \<Rightarrow> in_period o' now) \<and> in_period v now)"
  using assms
  by (cases own; cases "pd_from v"; cases "pd_to v"; cases "pd_from (the own)"; cases "pd_to (the own)")
     (auto simp: period_simps split: if_splits)

lemma overlap_has_instant:
  assumes "overlap own v = Inr w"
  shows "\<exists>now. in_period w now"
proof (cases "pd_from w")
  case None
  then show ?thesis
    by (cases "pd_to w") (auto simp: in_period_def intro: exI [of _ "the (pd_to w) - 1"])
next
  case (Some f)
  then show ?thesis
    using assms
    by (intro exI [of _ f]) (auto simp: overlap_def Let_def in_period_def split: option.splits if_splits)
qed

lemma expand_singles [simp]: "expand ops (map SingleOp xs) = xs"
  by (induction xs) (auto simp: expand_def)

lemma compile_policy_permits:
  assumes "compile_policy ops agreement actions p = Inr (Some g)" "\<not> po_prohibition p" "balanced p"
    and "conjunctive (holds ''q'')" "conjunctive (holds ''scopeQ'')"
  shows "permits ops holds g op now r \<longleftrightarrow>
    permits ops holds p op now r \<and> op \<in> set actions \<and> agreed holds agreement now r"
    and "is_public (po_assignee p)"
    and "\<not> po_prohibition g \<and> po_assignee g = \<lparr>pr_kind = DidPrincipal, pr_id = ag_participant agreement\<rparr> \<and> po_rest g = po_rest p"
proof -
  let ?kept = "filter (\<lambda>op. op \<in> set actions) (expand ops (po_operations p))"
  obtain q s geo t v where ok: "is_public (po_assignee p)"
    "conjunction ''q'' (po_q p) (ag_q agreement) = Inr q"
    "conjunction ''scopeQ'' (po_scope_q p) (ag_scope_q agreement) = Inr s"
    "fence ''geoQ'' (po_geo_q p) (ag_geo_q agreement) = Inr geo"
    "fence ''temporalQ'' (po_temporal_q p) (ag_temporal_q agreement) = Inr t"
    "overlap (po_validity p) (ag_validity agreement) = Inr v"
    "g = p\<lparr>po_assignee := \<lparr>pr_kind = DidPrincipal, pr_id = ag_participant agreement\<rparr>,
      po_operations := map SingleOp ?kept, po_q := q, po_scope_q := s, po_geo_q := geo,
      po_temporal_q := t, po_validity := Some v\<rparr>"
    using assms(1,2) by (auto simp: compile_policy_def Let_def and_then_Inr_iff split: if_splits)
  have bal: "pred_option one_group (po_q p)" "pred_option one_group (po_scope_q p)"
    using assms(3) by (simp_all add: balanced_def)
  show "permits ops holds g op now r \<longleftrightarrow>
    permits ops holds p op now r \<and> op \<in> set actions \<and> agreed holds agreement now r"
    by (auto simp: permits_def agreed_def ok(7) conjunction_holds [OF assms(4) bal(1) ok(2)]
      conjunction_holds [OF assms(5) bal(2) ok(3)] fence_holds [OF ok(4)] fence_holds [OF ok(5)] overlap_Inr [OF ok(6)])
  show "is_public (po_assignee p)" by (rule ok(1))
  show "\<not> po_prohibition g \<and> po_assignee g = \<lparr>pr_kind = DidPrincipal, pr_id = ag_participant agreement\<rparr> \<and> po_rest g = po_rest p"
    using assms(2) by (simp add: ok(7))
qed

lemma compile_policies_Cons:
  assumes "compile_policies ops name agreement actions (a # offered) = Inr compiled"
  obtains granted rest where "compile_policy ops agreement actions (snd a) = Inr granted"
    "compile_policies ops name agreement actions offered = Inr rest"
    "compiled = (case granted of None \<Rightarrow> rest
       | Some g \<Rightarrow> (''agreement-'' @ name @ ''-'' @ fst a, g) # rest)"
proof (cases a)
  case (Pair m p)
  show thesis
    using assms unfolding Pair compile_policies.simps and_then_Inr_iff
    by (elim exE conjE, intro that) (auto simp: Pair cong: option.case_cong)
qed

lemma compile_policies_elem:
  assumes "compile_policies ops name agreement actions offered = Inr compiled" "(n, g) \<in> set compiled"
  shows "\<exists>m p. (m, p) \<in> set offered \<and> n = ''agreement-'' @ name @ ''-'' @ m \<and>
    compile_policy ops agreement actions p = Inr (Some g)"
  using assms
proof (induction offered arbitrary: compiled)
  case (Cons a offered)
  obtain granted rest where "compile_policy ops agreement actions (snd a) = Inr granted"
    "compile_policies ops name agreement actions offered = Inr rest"
    "compiled = (case granted of None \<Rightarrow> rest
       | Some g \<Rightarrow> (''agreement-'' @ name @ ''-'' @ fst a, g) # rest)"
    by (rule compile_policies_Cons [OF Cons.prems(1)])
  with Cons.IH [of rest] Cons.prems(2) show ?case
    by (cases granted; cases a) fastforce+
qed simp

lemma compile_policies_prohibitions:
  assumes "compile_policies ops name agreement actions offered = Inr compiled" "(m, p) \<in> set offered" "po_prohibition p"
  shows "(''agreement-'' @ name @ ''-'' @ m,
    p\<lparr>po_assignee := \<lparr>pr_kind = DidPrincipal, pr_id = ag_participant agreement\<rparr>\<rparr>) \<in> set compiled"
  using assms
proof (induction offered arbitrary: compiled)
  case (Cons a offered)
  obtain granted rest where *: "compile_policy ops agreement actions (snd a) = Inr granted"
    "compile_policies ops name agreement actions offered = Inr rest"
    "compiled = (case granted of None \<Rightarrow> rest
       | Some g \<Rightarrow> (''agreement-'' @ name @ ''-'' @ fst a, g) # rest)"
    by (rule compile_policies_Cons [OF Cons.prems(1)])
  show ?case
  proof (cases "a = (m, p)")
    case True
    with * Cons.prems(3) show ?thesis by (auto simp: compile_policy_def Let_def)
  next
    case False
    with Cons.IH [OF *(2)] Cons.prems(2,3) *(3) show ?thesis by (cases granted) auto
  qed
qed simp

lemma push_new_sub: "set (push_new seen ps) \<subseteq> set seen \<union> set ps"
  by (induction seen ps rule: push_new.induct) (auto split: if_splits)

lemma offered_elem:
  "x \<in> set (fold (\<lambda>e seen. push_new seen (bound e)) es seen) \<Longrightarrow> x \<in> set seen \<or> (\<exists>e \<in> set es. x \<in> set (bound e))"
proof (induction es arbitrary: seen)
  case (Cons e es)
  then show ?case using push_new_sub [of seen "bound e"] by fastforce
qed simp

lemma compile_all_elem:
  assumes "((project, space), policies) \<in> set (compile_all ops offers bound agreements)" "(n, g) \<in> set policies"
  obtains name agreement offer actions endpoint m p where "(project, name, agreement) \<in> set agreements"
    "ag_role agreement = Provider" "ag_state agreement \<in> {Accepted, Finalized}"
    "bt_get offers (project, unwrap_or [] (ag_offer agreement)) = Some offer" "of_space offer = space"
    "offer_actions ops (of_policy offer) = Inr actions" "endpoint \<in> set (of_endpoints offer)"
    "(m, p) \<in> set (bound project endpoint)" "n = ''agreement-'' @ name @ ''-'' @ m"
    "compile_policy ops agreement actions p = Inr (Some g)"
proof -
  obtain name agreement where a: "(project, name, agreement) \<in> set agreements" "ag_role agreement = Provider"
    "compile_agreement ops offers bound project name agreement = Inr (space, policies)"
    using assms(1)
    by (auto simp: compile_all_def map_filter_def split: if_splits sum.splits)
  then obtain offer actions where o': "bt_get offers (project, unwrap_or [] (ag_offer agreement)) = Some offer"
    "offer_actions ops (of_policy offer) = Inr actions" "of_space offer = space"
    "compile ops name agreement actions
       (fold (\<lambda>endpoint seen. push_new seen (bound project endpoint)) (of_endpoints offer) []) = Inr policies"
    by (auto simp: compile_agreement_def Let_def and_then_Inr_iff split: option.splits)
  then have st: "ag_state agreement \<in> {Accepted, Finalized}"
    and cp: "compile_policies ops name agreement actions
       (fold (\<lambda>endpoint seen. push_new seen (bound project endpoint)) (of_endpoints offer) []) = Inr policies"
    using a(2) by (auto simp: compile_def and_then_Inr_iff split: if_splits)
  obtain m p where mp: "(m, p) \<in> set (fold (\<lambda>endpoint seen. push_new seen (bound project endpoint)) (of_endpoints offer) [])"
    "n = ''agreement-'' @ name @ ''-'' @ m" "compile_policy ops agreement actions p = Inr (Some g)"
    using compile_policies_elem [OF cp assms(2)] by blast
  from offered_elem [OF mp(1)] obtain endpoint where "endpoint \<in> set (of_endpoints offer)" "(m, p) \<in> set (bound project endpoint)"
    by auto
  then show thesis by (rule that [OF a(1,2) st o'(1,3,2) _ _ mp(2,3)])
qed

lemma sample_holds_conjunctive: "conjunctive (sample_holds d)"
  by (auto simp: conjunctive_def sample_holds_def both_filters_def)

lemmas sample_defs = sample_ops_def sample_policy_def sample_agreement_def sample_offer_def sample_bound_def
  sample_granted_def

lemma sample_actions: "offer_actions sample_ops (of_policy sample_offer) = Inr [''queryEntity'']"
  by code_simp

lemma sample_compiled:
  "compile_policy sample_ops sample_agreement [''queryEntity''] sample_policy = Inr (Some sample_granted)"
  by (simp add: compile_policy_def sample_defs Let_def is_public_def expand_def conjunction_def one_group_def
    both_filters_def fence_def overlap_def later_def earlier_def or_else_def)

lemma sample_compile_all:
  "compile_all sample_ops [((''p'', ''air''), sample_offer)] sample_bound [(''p'', ''n'', sample_agreement)] =
     [((''p'', ''s''), [(''agreement-n-open'', sample_granted)])]"
proof -
  have one: "compile_policies sample_ops ''n'' sample_agreement [''queryEntity''] [(''open'', sample_policy)] =
    Inr [(''agreement-n-open'', sample_granted)]"
    by (simp add: sample_compiled)
  have facts: "ag_role sample_agreement = Provider" "ag_state sample_agreement = Accepted"
    "ag_offer sample_agreement = Some ''air''" "of_endpoints sample_offer = [''e'']" "of_space sample_offer = ''s''"
    "\<not> po_prohibition sample_granted" "sample_bound ''p'' ''e'' = [(''open'', sample_policy)]"
    by (simp_all add: sample_defs)
  have "compile_agreement sample_ops [((''p'', ''air''), sample_offer)] sample_bound ''p'' ''n'' sample_agreement =
    Inr (''s'', [(''agreement-n-open'', sample_granted)])"
    using one by (simp add: compile_agreement_def compile_def sample_actions facts Let_def unwrap_or_def)
  then show ?thesis
    by (simp add: compile_all_def map_filter_def facts)
qed

subsection \<open>Properties\<close>

text \<open>
  Property C13. A data-space agreement never reaches past its offer: a Policy that some agreement
  compiles into and that permits an operation on a record at an instant belongs to the participant's
  DID and is the copy of a public Policy bound to an Endpoint of the offer, in the offer's space, of
  an accepted or finalized provider agreement of the same project; that Policy permits the same
  operation on the same record at the same instant, the offer's ODRL actions name the operation, and
  the agreement's own period and filters hold.
\<close>

theorem agreement_reaches_no_further:
  assumes "((project, space), policies) \<in> set (compile_all ops offers bound agreements)"
    and "(n, g) \<in> set policies" "\<not> po_prohibition g" "permits ops holds g op now r"
    and "\<forall>e m p. (m, p) \<in> set (bound project e) \<longrightarrow> balanced p"
    and "conjunctive (holds ''q'')" "conjunctive (holds ''scopeQ'')"
  shows "\<exists>name agreement offer actions endpoint m p.
    (project, name, agreement) \<in> set agreements \<and> ag_role agreement = Provider \<and>
    ag_state agreement \<in> {Accepted, Finalized} \<and>
    bt_get offers (project, unwrap_or [] (ag_offer agreement)) = Some offer \<and> of_space offer = space \<and>
    offer_actions ops (of_policy offer) = Inr actions \<and> endpoint \<in> set (of_endpoints offer) \<and>
    (m, p) \<in> set (bound project endpoint) \<and> \<not> po_prohibition p \<and> is_public (po_assignee p) \<and>
    po_assignee g = \<lparr>pr_kind = DidPrincipal, pr_id = ag_participant agreement\<rparr> \<and> po_rest g = po_rest p \<and>
    permits ops holds p op now r \<and> op \<in> set actions \<and> agreed holds agreement now r"
proof -
  obtain name agreement offer actions endpoint m p where el: "(project, name, agreement) \<in> set agreements"
    "ag_role agreement = Provider" "ag_state agreement \<in> {Accepted, Finalized}"
    "bt_get offers (project, unwrap_or [] (ag_offer agreement)) = Some offer" "of_space offer = space"
    "offer_actions ops (of_policy offer) = Inr actions" "endpoint \<in> set (of_endpoints offer)"
    "(m, p) \<in> set (bound project endpoint)" "n = ''agreement-'' @ name @ ''-'' @ m"
    "compile_policy ops agreement actions p = Inr (Some g)"
    by (rule compile_all_elem [OF assms(1,2)])
  have np: "\<not> po_prohibition p"
    using el(10) assms(3) by (auto simp: compile_policy_def Let_def)
  have bal: "balanced p" using assms(5) el(8) by blast
  note cp = compile_policy_permits [OF el(10) np bal, of holds, OF assms(6,7)]
  show ?thesis
    using el(1-8) np cp(2,3) assms(4) cp(1) by blast
qed

lemma agreement_reaches_no_further_witness:
  "permits sample_ops sample_holds sample_granted ''queryEntity'' 6 CHR ''c'' \<and>
   (\<exists>name agreement offer actions endpoint m p.
    (''p'', name, agreement) \<in> set [(''p'', ''n'', sample_agreement)] \<and> ag_role agreement = Provider \<and>
    ag_state agreement \<in> {Accepted, Finalized} \<and>
    bt_get [((''p'', ''air''), sample_offer)] (''p'', unwrap_or [] (ag_offer agreement)) = Some offer \<and>
    of_space offer = ''s'' \<and>
    offer_actions sample_ops (of_policy offer) = Inr actions \<and> endpoint \<in> set (of_endpoints offer) \<and>
    (m, p) \<in> set (sample_bound ''p'' endpoint) \<and> \<not> po_prohibition p \<and> is_public (po_assignee p) \<and>
    po_assignee sample_granted = \<lparr>pr_kind = DidPrincipal, pr_id = ag_participant agreement\<rparr> \<and>
    po_rest sample_granted = po_rest p \<and>
    permits sample_ops sample_holds p ''queryEntity'' 6 CHR ''c'' \<and> ''queryEntity'' \<in> set actions \<and>
    agreed sample_holds agreement 6 CHR ''c'')"
proof -
  have p: "permits sample_ops sample_holds sample_granted ''queryEntity'' 6 CHR ''c''"
    by (simp add: permits_def sample_defs expand_def in_period_def opt_holds_def sample_holds_def)
  have np: "\<not> po_prohibition sample_granted" by (simp add: sample_defs)
  have bal: "\<forall>e m p. (m, p) \<in> set (sample_bound ''p'' e) \<longrightarrow> balanced p"
    by (simp add: sample_defs balanced_def one_group_def)
  have "((''p'', ''s''), [(''agreement-n-open'', sample_granted)]) \<in>
    set (compile_all sample_ops [((''p'', ''air''), sample_offer)] sample_bound [(''p'', ''n'', sample_agreement)])"
    by (simp add: sample_compile_all)
  from p agreement_reaches_no_further [OF this list.set_intros(1) np p bal sample_holds_conjunctive
      sample_holds_conjunctive]
  show ?thesis by (rule conjI)
qed

text \<open>
  Property C39. A filter of the agreement is conjoined with the offer's exactly when it stands for itself
  in parentheses, whatever the other participant wrote. It is accepted when it is balanced by the
  grammar above and refused otherwise, by its text; the result is the offer's filter and the
  agreement's, both whole, each in its parentheses, with \<open>;\<close> between. When the offer's filter is
  balanced too, that \<open>;\<close> is all that stands outside parentheses and quoted strings, so that no \<open>|\<close>
  of the agreement reaches the top, and the result is balanced again.
\<close>

theorem conjoined_filter_is_one_conjunction:
  fixes offer asked
  defines "text \<equiv> ''('' @ offer @ '');('' @ asked @ '')''"
  assumes "offer \<noteq> asked"
  shows "conjunction dimension (Some offer) (Some asked) =
      (if balanced_text asked then Inr (Some text) else Inl (Widens dimension asked)) \<and>
    (balanced_text offer \<and> balanced_text asked \<longrightarrow> outer 0 False False text = '';'' \<and> balanced_text text)"
  using assms both_filters_outer [of offer asked]
  by (simp add: conjunction_def one_group_iff both_filters_def)

lemma conjoined_filter_is_one_conjunction_witness:
  "conjunction ''q'' (Some ''a|b'') (Some ''c|d'') = Inr (Some ''(a|b);(c|d)'') \<and>
   conjunction ''q'' (Some ''a|b'') (Some ''c)|(d'') = Inl (Widens ''q'' ''c)|(d'') \<and>
   outer 0 False False ''(a|b);(c|d)'' = '';''"
proof -
  have "balanced_text ''a|b''" "balanced_text ''c|d''" "\<not> balanced_text ''c)|(d''"
    by (simp_all add: one_group_iff [symmetric] one_group_def)
  then show ?thesis
    using conjoined_filter_is_one_conjunction [of "''a|b''" "''c|d''" "''q''"]
      conjoined_filter_is_one_conjunction [of "''a|b''" "''c)|(d''" "''q''"] by simp
qed

end
