(* ===== verification/Secrets.thy ===== *)
theory Secrets
  imports Plan
begin

text \<open>
  Credentials in manifests, plans, exports, arguments and answers: the write door and its list of
  names (\<open>src/api/mutate.rs\<close>), the redaction of a plan (\<open>src/api/changes.rs\<close>), the stripping of an
  export (\<open>src/api/export.rs\<close>), the scan of arguments and the mask of answers
  (\<open>src/secret_scan.rs\<close>, \<open>src/pipeline_outcomes.rs\<close>, \<open>shown\<close> of \<open>src/ops/mod.rs\<close>).

  \<open>lower\<close> is \<open>char::to_lowercase\<close> over the characters of a text, and \<open>query_pairs\<close> the reading of an
  address by the \<open>url\<close> crate with its decoded query, \<open>None\<close> when it does not parse.
\<close>

subsection \<open>The write door\<close>

definition SECRET_KEYS :: "string list" where
  "SECRET_KEYS =
     [''password'', ''token'', ''secret'', ''clientSecret'', ''apiKey'', ''client_secret'', ''api_key'', ''apiToken'',
      ''api_token'', ''access_token'', ''accessToken'', ''access_token_secret'', ''accessTokenSecret'',
      ''consumer_secret'', ''consumerSecret'', ''auth_secret'', ''authSecret'', ''account_key'', ''accountKey'',
      ''bot_token'', ''botToken'', ''private_key'', ''privateKey'', ''private_key_pass'', ''privateKeyPass'',
      ''passphrase'', ''user_jwt'', ''userJwt'', ''user_nkey_seed'', ''userNkeySeed'']"

definition is_variable_reference :: "string \<Rightarrow> bool" where
  "is_variable_reference text =
     is_some_and (\<lambda>name.
         name \<noteq> [] \<and> (is_ascii_alpha (hd name) \<or> hd name = CHR ''_'') \<and>
         list_all (\<lambda>c. is_ascii_alphanumeric c \<or> c = CHR ''_'') name)
       (Option.bind (strip_prefix ''${'' text) (strip_suffix ''}''))"

fun scalar :: "json \<Rightarrow> bool" where
  "scalar (JString s) \<longleftrightarrow> \<not> is_variable_reference s"
| "scalar (JNumber _) \<longleftrightarrow> True"
| "scalar (JBool _) \<longleftrightarrow> True"
| "scalar _ \<longleftrightarrow> False"

definition header_words :: "string list" where
  "header_words = [''auth'', ''token'', ''secret'', ''password'', ''key'', ''cookie'']"

definition credential_named :: "string \<Rightarrow> json \<Rightarrow> bool" where
  "credential_named name v \<longleftrightarrow>
     (let plain = to_ascii_lowercase (filter is_ascii_alphanumeric name);
          holds = is_some_and (\<lambda>text. \<not> str_contains ''${'' text) (as_str v)
      in holds \<and> list_ex (\<lambda>word. str_contains word plain) header_words)"

fun credential_header :: "json \<Rightarrow> string option" where
  "credential_header (JObject headers) = map_option fst (List.find (\<lambda>(name, v). credential_named name v) headers)"
| "credential_header _ = None"

fun find_literal_secret :: "json \<Rightarrow> string option"
  and literal_members :: "(string \<times> json) list \<Rightarrow> string option"
  and literal_items :: "json list \<Rightarrow> string option" where
  "find_literal_secret (JObject m) = literal_members m"
| "find_literal_secret (JArray items) = literal_items items"
| "find_literal_secret v = None"
| "literal_members [] = None"
| "literal_members ((k, v) # m) =
     (if k \<in> set SECRET_KEYS \<and> scalar v then Some k
      else
        (case if k = ''headers'' then credential_header v else None of
           Some header \<Rightarrow> Some (''headers.'' @ header)
         | None \<Rightarrow>
             (case find_literal_secret v of Some found \<Rightarrow> Some found | None \<Rightarrow> literal_members m)))"
| "literal_items [] = None"
| "literal_items (v # vs) =
     (case find_literal_secret v of Some found \<Rightarrow> Some found | None \<Rightarrow> literal_items vs)"

subsection \<open>Plans and exports\<close>

definition is_sensitive_path :: "string \<Rightarrow> bool" where
  "is_sensitive_path path \<longleftrightarrow>
     (let last_seg = last (str_split (CHR ''.'') path);
          clean = hd (str_split (CHR ''['') last_seg)
      in clean \<in> set SECRET_KEYS)"

definition REDACTED :: json where
  "REDACTED = JString ''[REDACTED]''"

definition redact_field :: "field_change \<Rightarrow> field_change" where
  "redact_field f =
     (if is_sensitive_path (fc_path f)
      then f\<lparr>fc_from := map_option (\<lambda>_. REDACTED) (fc_from f), fc_to := map_option (\<lambda>_. REDACTED) (fc_to f)\<rparr>
      else f)"

definition redact :: "field_change list \<Rightarrow> field_change list" where
  "redact fs = map redact_field fs"

fun strip_secret_values :: "json \<Rightarrow> json"
  and strip_members :: "(string \<times> json) list \<Rightarrow> (string \<times> json) list"
  and strip_items :: "json list \<Rightarrow> json list" where
  "strip_secret_values (JObject m) = JObject (strip_members m)"
| "strip_secret_values (JArray items) = JArray (strip_items items)"
| "strip_secret_values v = v"
| "strip_members [] = []"
| "strip_members ((key, child) # m) =
     (key, if key \<in> set SECRET_KEYS \<and> scalar child then JString [] else strip_secret_values child) # strip_members m"
| "strip_items [] = []"
| "strip_items (v # vs) = strip_secret_values v # strip_items vs"

subsection \<open>Arguments\<close>

definition SECRET_ENDINGS :: "string list" where
  "SECRET_ENDINGS =
     [''apikey'', ''apitoken'', ''accesstoken'', ''authtoken'', ''token'', ''secret'', ''password'', ''passwd'',
      ''authorization'', ''privatekey'', ''accesskey'']"

definition SECRET_PARAMS :: "string list" where
  "SECRET_PARAMS =
     [''apikey'', ''key'', ''token'', ''accesstoken'', ''apitoken'', ''authtoken'', ''secret'', ''clientsecret'',
      ''password'', ''sig'', ''signature'']"

definition folded :: "(string \<Rightarrow> string) \<Rightarrow> string \<Rightarrow> string" where
  "folded lower name = lower (filter (\<lambda>c. c \<noteq> CHR ''-'' \<and> c \<noteq> CHR ''_'') name)"

definition secret_name :: "(string \<Rightarrow> string) \<Rightarrow> string \<Rightarrow> bool" where
  "secret_name lower name \<longleftrightarrow>
     (let n = folded lower name
      in list_ex (\<lambda>k. folded lower k = n) SECRET_KEYS \<or> list_ex (\<lambda>ending. ends_with ending n) SECRET_ENDINGS)"

definition TOKEN_PREFIXES :: "string list" where
  "TOKEN_PREFIXES = [''ghp_'', ''gho_'', ''github_pat_'', ''glpat-'', ''sk-'', ''xoxb-'', ''xoxp-'', ''AKIA'']"

definition rsplit_once_at :: "string \<Rightarrow> string option" where
  "rsplit_once_at s =
     (if CHR ''@'' \<in> set s then Some (rev (tl (dropWhile (\<lambda>c. c \<noteq> CHR ''@'') (rev s)))) else None)"

definition is_ascii_hexdigit :: "char \<Rightarrow> bool" where
  "is_ascii_hexdigit c \<longleftrightarrow> is_ascii_digit c \<or> c \<in> set ''abcdefABCDEF''"

definition token_char :: "char \<Rightarrow> bool" where
  "token_char c \<longleftrightarrow> is_ascii_alphanumeric c \<or> c = CHR ''-'' \<or> c = CHR ''_''"

definition jwt_shaped :: "string \<Rightarrow> bool" where
  "jwt_shaped trimmed \<longleftrightarrow>
     (let parts = str_split (CHR ''.'') trimmed
      in length parts = 3 \<and> starts_with ''eyJ'' (hd parts) \<and>
         list_all (\<lambda>part. 4 \<le> length part \<and> list_all (\<lambda>c. token_char c \<or> c = CHR ''='') part) parts)"

definition userinfo_shaped :: "string \<Rightarrow> bool" where
  "userinfo_shaped trimmed =
     is_some_and (\<lambda>(_, rest).
       let authority = takeWhile (\<lambda>c. c \<notin> set ''/?#'') rest
       in is_some_and (\<lambda>(_, password). \<not> is_variable_reference password)
            (Option.bind (rsplit_once_at authority) (split_once '':''))) (split_once ''://'' trimmed)"

definition api_key_shaped :: "string \<Rightarrow> bool" where
  "api_key_shaped trimmed =
     is_some_and (\<lambda>(key_id, secret).
       length key_id = 16 \<and> list_all is_ascii_hexdigit key_id \<and> 16 \<le> length secret \<and> list_all token_char secret)
       (Option.bind (strip_prefix ''jc_'' trimmed) (split_once ''_''))"

definition credential_shaped :: "string \<Rightarrow> bool" where
  "credential_shaped text =
     (let trimmed = str_trim text; lower = to_ascii_lowercase trimmed
      in if starts_with ''bearer '' lower \<or> starts_with ''basic '' lower then True
         else if str_contains ''-----BEGIN'' trimmed then True
         else if jwt_shaped trimmed then True
         else if userinfo_shaped trimmed then True
         else if api_key_shaped trimmed then True
         else list_ex (\<lambda>prefix. starts_with prefix trimmed \<and> length prefix + 16 \<le> length trimmed \<and>
                \<not> list_ex is_whitespace (rchars trimmed)) TOKEN_PREFIXES)"

definition secret_param :: "(string \<Rightarrow> string) \<Rightarrow> string \<Rightarrow> bool" where
  "secret_param lower name \<longleftrightarrow>
     (let n = folded lower name
      in n \<in> set SECRET_PARAMS \<or> n \<in> {''auth'', ''credential''} \<or> list_ex (\<lambda>key. folded lower key = n) SECRET_KEYS)"

definition secret_in_query :: "(string \<Rightarrow> string) \<Rightarrow> (string \<Rightarrow> (string \<times> string) list option) \<Rightarrow> string \<Rightarrow> bool" where
  "secret_in_query lower query_pairs text =
     (case query_pairs (str_trim text) of
        None \<Rightarrow> False
      | Some pairs \<Rightarrow>
          list_ex (\<lambda>(name, v). secret_param lower name \<and> v \<noteq> [] \<and> \<not> is_variable_reference v) pairs)"

definition secret_text :: "(string \<Rightarrow> string) \<Rightarrow> (string \<Rightarrow> (string \<times> string) list option) \<Rightarrow> string \<Rightarrow> bool" where
  "secret_text lower query_pairs text \<longleftrightarrow>
     (let public_pem = str_contains ''-----BEGIN CERTIFICATE'' text \<or> str_contains ''-----BEGIN PUBLIC KEY'' text \<or>
            str_contains ''-----BEGIN X509 CRL'' text
      in (credential_shaped text \<and> \<not> public_pem) \<or> secret_in_query lower query_pairs text)"

definition escape_token :: "string \<Rightarrow> string" where
  "escape_token key =
     concat (map (\<lambda>c. if c = CHR ''/'' then ''~1'' else [c])
       (concat (map (\<lambda>c. if c = CHR ''~'' then ''~0'' else [c]) key)))"

text \<open>The arms of \<open>walk\<close> for a leaf: whether it is reported.\<close>

definition leaf_found ::
  "(string \<Rightarrow> string) \<Rightarrow> (string \<Rightarrow> (string \<times> string) list option) \<Rightarrow> bool \<Rightarrow> json \<Rightarrow> bool" where
  "leaf_found lower query_pairs named v =
     (case v of
        JString text \<Rightarrow>
          if is_variable_reference text \<or> text = [] then False else named \<or> secret_text lower query_pairs text
      | JNumber _ \<Rightarrow> named
      | JBool _ \<Rightarrow> named
      | _ \<Rightarrow> False)"

fun walk :: "(string \<Rightarrow> string) \<Rightarrow> (string \<Rightarrow> (string \<times> string) list option) \<Rightarrow> string \<Rightarrow> bool \<Rightarrow> json \<Rightarrow> string list"
  and walk_members :: "(string \<Rightarrow> string) \<Rightarrow> (string \<Rightarrow> (string \<times> string) list option) \<Rightarrow> string \<Rightarrow>
    (string \<times> json) list \<Rightarrow> string list"
  and walk_items :: "(string \<Rightarrow> string) \<Rightarrow> (string \<Rightarrow> (string \<times> string) list option) \<Rightarrow> string \<Rightarrow> bool \<Rightarrow>
    nat \<Rightarrow> json list \<Rightarrow> string list" where
  "walk lower qp at named (JObject m) = walk_members lower qp at m"
| "walk lower qp at named (JArray items) = walk_items lower qp at named 0 items"
| "walk lower qp at named v = (if leaf_found lower qp named v then [at] else [])"
| "walk_members lower qp at [] = []"
| "walk_members lower qp at ((key, child) # m) =
     walk lower qp (at @ ''/'' @ escape_token key) (secret_name lower key) child @ walk_members lower qp at m"
| "walk_items lower qp at named n [] = []"
| "walk_items lower qp at named n (item # items) =
     walk lower qp (at @ ''/'' @ show_nat n) named item @ walk_items lower qp at named (Suc n) items"

definition find_secrets :: "(string \<Rightarrow> string) \<Rightarrow> (string \<Rightarrow> (string \<times> string) list option) \<Rightarrow> json \<Rightarrow> string list" where
  "find_secrets lower qp input = walk lower qp [] False input"

subsection \<open>Answers\<close>

definition MASK :: string where
  "MASK = ''[MASKED]''"

definition masked_member :: "(string \<Rightarrow> string) \<Rightarrow> string \<Rightarrow> json \<Rightarrow> bool" where
  "masked_member lower key v \<longleftrightarrow>
     secret_name lower key \<and>
     (case v of
        JObject _ \<Rightarrow> False | JArray _ \<Rightarrow> False | JNull \<Rightarrow> False
      | JString text \<Rightarrow> \<not> is_variable_reference text | _ \<Rightarrow> True)"

fun mask_json :: "(string \<Rightarrow> string) \<Rightarrow> json \<Rightarrow> json"
  and mask_members :: "(string \<Rightarrow> string) \<Rightarrow> (string \<times> json) list \<Rightarrow> (string \<times> json) list"
  and mask_items :: "(string \<Rightarrow> string) \<Rightarrow> json list \<Rightarrow> json list" where
  "mask_json lower (JObject m) = JObject (mask_members lower m)"
| "mask_json lower (JArray items) = JArray (mask_items lower items)"
| "mask_json lower (JString text) = (if credential_shaped text then JString MASK else JString text)"
| "mask_json lower v = v"
| "mask_members lower [] = []"
| "mask_members lower ((key, v) # m) =
     (key, if masked_member lower key v then JString MASK else mask_json lower v) # mask_members lower m"
| "mask_items lower [] = []"
| "mask_items lower (v # vs) = mask_json lower v # mask_items lower vs"

fun mask_words :: "string \<Rightarrow> string list \<Rightarrow> string list" where
  "mask_words previous [] = []"
| "mask_words previous (w # ws) =
     (if eq_ignore_ascii_case previous ''bearer'' \<or> eq_ignore_ascii_case previous ''basic'' \<or> credential_shaped w
      then MASK else w) # mask_words w ws"

definition mask_text :: "string \<Rightarrow> string" where
  "mask_text text = str_join '' '' (mask_words [] (str_split (CHR '' '') text))"

fun words :: "json \<Rightarrow> json"
  and member_words :: "(string \<times> json) list \<Rightarrow> (string \<times> json) list"
  and item_words :: "json list \<Rightarrow> json list" where
  "words (JString text) = JString (mask_text text)"
| "words (JArray items) = JArray (item_words items)"
| "words (JObject m) = JObject (member_words m)"
| "words v = v"
| "member_words [] = []"
| "member_words ((k, v) # m) = (k, words v) # member_words m"
| "item_words [] = []"
| "item_words (v # vs) = words v # item_words vs"

definition masked :: "(string \<Rightarrow> string) \<Rightarrow> json \<Rightarrow> json" where
  "masked lower answer = words (mask_json lower answer)"

datatype via = ViaSession | ViaBearer | ViaMcp | ViaAgent

definition shown :: "(string \<Rightarrow> string) \<Rightarrow> via \<Rightarrow> json \<Rightarrow> json" where
  "shown lower v answer =
     (case v of ViaSession \<Rightarrow> answer | ViaBearer \<Rightarrow> answer | ViaMcp \<Rightarrow> masked lower answer | ViaAgent \<Rightarrow> masked lower answer)"

subsection \<open>References\<close>

text \<open>The members of the objects of a document, at any depth.\<close>

fun members :: "json \<Rightarrow> (string \<times> json) list"
  and members_in :: "(string \<times> json) list \<Rightarrow> (string \<times> json) list"
  and items_in :: "json list \<Rightarrow> (string \<times> json) list" where
  "members (JObject m) = members_in m"
| "members (JArray items) = items_in items"
| "members v = []"
| "members_in [] = []"
| "members_in ((k, v) # m) = (k, v) # members v @ members_in m"
| "items_in [] = []"
| "items_in (v # vs) = members v @ items_in vs"

text \<open>A member that holds a literal credential, and the name it is reported under.\<close>

definition literal_member :: "string \<Rightarrow> json \<Rightarrow> string option" where
  "literal_member k v =
     (if k \<in> set SECRET_KEYS \<and> scalar v then Some k
      else if k = ''headers'' then map_option (\<lambda>h. ''headers.'' @ h) (credential_header v)
      else None)"

text \<open>
  A document read as its shape, every leaf emptied, and its leaves in order, each with the name of the
  member it is the value of. An item of a list has no name of its own.
\<close>

fun skeleton :: "json \<Rightarrow> json"
  and member_skeletons :: "(string \<times> json) list \<Rightarrow> (string \<times> json) list"
  and item_skeletons :: "json list \<Rightarrow> json list" where
  "skeleton (JObject m) = JObject (member_skeletons m)"
| "skeleton (JArray xs) = JArray (item_skeletons xs)"
| "skeleton v = JNull"
| "member_skeletons [] = []"
| "member_skeletons ((k, v) # m) = (k, skeleton v) # member_skeletons m"
| "item_skeletons [] = []"
| "item_skeletons (v # vs) = skeleton v # item_skeletons vs"

fun named_leaves :: "string option \<Rightarrow> json \<Rightarrow> (string option \<times> json) list"
  and leaves_of_members :: "(string \<times> json) list \<Rightarrow> (string option \<times> json) list"
  and leaves_of_items :: "json list \<Rightarrow> (string option \<times> json) list" where
  "named_leaves k (JObject m) = leaves_of_members m"
| "named_leaves k (JArray xs) = leaves_of_items xs"
| "named_leaves k v = [(k, v)]"
| "leaves_of_members [] = []"
| "leaves_of_members ((k, v) # m) = named_leaves (Some k) v @ leaves_of_members m"
| "leaves_of_items [] = []"
| "leaves_of_items (v # vs) = named_leaves None v @ leaves_of_items vs"

text \<open>
  A leaf of an answer and what stands in its place. Under a credential's name a number, a boolean and
  a text that is no whole \<open>${VAR}\<close> are masked; a text shaped like a credential is masked under any
  name; in any other text the words shaped like one and those after \<open>Bearer\<close> or \<open>Basic\<close> are
  masked and the rest is kept.
\<close>

definition scheme :: "string \<Rightarrow> bool" where
  "scheme w \<longleftrightarrow> eq_ignore_ascii_case w ''bearer'' \<or> eq_ignore_ascii_case w ''basic''"

definition words_masked :: "string \<Rightarrow> string \<Rightarrow> bool" where
  "words_masked s t \<longleftrightarrow>
     (let before = str_split (CHR '' '') s; after = str_split (CHR '' '') t
      in length after = length before \<and>
         (\<forall>i < length before. after ! i =
            (if credential_shaped (before ! i) \<or> 0 < i \<and> scheme (before ! (i - 1)) then MASK else before ! i)))"

definition leaf_masked :: "(string \<Rightarrow> string) \<Rightarrow> string option \<times> json \<Rightarrow> string option \<times> json \<Rightarrow> bool" where
  "leaf_masked lower before after \<longleftrightarrow>
     fst after = fst before \<and>
     (let secret = is_some_and (secret_name lower) (fst before)
      in case snd before of
           JString s \<Rightarrow>
             if secret \<and> \<not> is_variable_reference s \<or> credential_shaped s then snd after = JString MASK
             else is_some_and (words_masked s) (as_str (snd after))
         | JNumber n \<Rightarrow> snd after = (if secret then JString MASK else JNumber n)
         | JBool b \<Rightarrow> snd after = (if secret then JString MASK else JBool b)
         | v \<Rightarrow> snd after = v)"

text \<open>A leaf of a manifest and what an export holds in its place.\<close>

definition exported_leaf :: "string option \<times> json \<Rightarrow> string option \<times> json" where
  "exported_leaf leaf =
     (case leaf of
        (Some k, JString s) \<Rightarrow>
          (Some k, if k \<in> set SECRET_KEYS \<and> \<not> is_variable_reference s then JString [] else JString s)
      | (Some k, JNumber n) \<Rightarrow> (Some k, if k \<in> set SECRET_KEYS then JString [] else JNumber n)
      | (Some k, JBool b) \<Rightarrow> (Some k, if k \<in> set SECRET_KEYS then JString [] else JBool b)
      | _ \<Rightarrow> leaf)"

subsection \<open>Lemmas\<close>

lemma literal_members_step:
  "literal_members ((k, v) # m) =
     (case literal_member k v of Some f \<Rightarrow> Some f
      | None \<Rightarrow> (case find_literal_secret v of Some f \<Rightarrow> Some f | None \<Rightarrow> literal_members m))"
  by (cases "credential_header v") (auto simp: literal_member_def)

declare literal_members.simps(2) [simp del]
declare literal_members_step [simp]

lemma none_found:
  "find_literal_secret v = None \<longleftrightarrow> list_all (\<lambda>(k, x). literal_member k x = None) (members v)"
  "literal_members m = None \<longleftrightarrow> list_all (\<lambda>(k, x). literal_member k x = None) (members_in m)"
  "literal_items vs = None \<longleftrightarrow> list_all (\<lambda>(k, x). literal_member k x = None) (items_in vs)"
  by (induction v and m and vs rule: members_members_in_items_in.induct)
     (auto split: option.splits)

lemma some_found:
  "find_literal_secret v = Some f \<Longrightarrow> list_ex (\<lambda>(k, x). literal_member k x = Some f) (members v)"
  "literal_members m = Some f \<Longrightarrow> list_ex (\<lambda>(k, x). literal_member k x = Some f) (members_in m)"
  "literal_items vs = Some f \<Longrightarrow> list_ex (\<lambda>(k, x). literal_member k x = Some f) (items_in vs)"
  by (induction v and m and vs rule: members_members_in_items_in.induct)
     (auto split: option.splits)

lemma secret_keys_plain: "k \<in> set SECRET_KEYS \<Longrightarrow> CHR ''.'' \<notin> set k \<and> CHR ''['' \<notin> set k"
proof -
  have "list_all (\<lambda>k. CHR ''.'' \<notin> set k \<and> CHR ''['' \<notin> set k) SECRET_KEYS" by code_simp
  then show "k \<in> set SECRET_KEYS \<Longrightarrow> CHR ''.'' \<notin> set k \<and> CHR ''['' \<notin> set k" by (auto simp: list_all_iff)
qed

lemma sensitive_member: "k \<in> set SECRET_KEYS \<Longrightarrow> is_sensitive_path (member_path p k)"
  using secret_keys_plain [of k]
  by (simp add: is_sensitive_path_def member_path_def str_split_at str_split_no_delim)

definition hide :: "string \<times> json \<Rightarrow> string \<times> json" where
  "hide leaf = (fst leaf, if is_sensitive_path (fst leaf) then REDACTED else snd leaf)"

lemma scalar_leaf: "scalar v \<Longrightarrow> collect_leaves p v = [(p, v)]"
  by (cases v) auto

lemma strip_members_Nil [simp]: "strip_members m = [] \<longleftrightarrow> m = []"
  by (cases m) auto

lemma strip_items_Nil [simp]: "strip_items m = [] \<longleftrightarrow> m = []"
  by (cases m) auto

lemma hidden_leaves:
  "map hide (collect_leaves p (strip_secret_values v)) = map hide (collect_leaves p v)"
  "map hide (member_leaves p (strip_members m)) = map hide (member_leaves p m)"
  "map hide (element_leaves p i (strip_items vs)) = map hide (element_leaves p i vs)"
  by (induction p v and p m and p i vs rule: collect_leaves_member_leaves_element_leaves.induct)
     (auto simp: scalar_leaf hide_def sensitive_member)

lemma redact_fields:
  "redact (added_fields ls) = added_fields (map hide ls)"
  "redact (removed_fields ls) = removed_fields (map hide ls)"
  by (auto simp: redact_def redact_field_def added_fields_def removed_fields_def hide_def)

lemma hidden_envelope:
  "map hide (envelope_leaves mv (e\<lparr>env_spec := strip_secret_values (env_spec e)\<rparr>)) = map hide (envelope_leaves mv e)"
  by (simp add: envelope_leaves_def hidden_leaves)

definition flagged :: "string \<Rightarrow> json \<Rightarrow> bool" where
  "flagged k v \<longleftrightarrow> k \<in> set SECRET_KEYS \<and> scalar v"

lemma flagged_found: "list_ex (\<lambda>(k, v). flagged k v) m \<Longrightarrow> literal_members m \<noteq> None"
  by (induction m) (auto simp: flagged_def literal_member_def split: option.splits)

lemma empty_is_no_reference [simp]: "\<not> is_variable_reference []"
  by (simp add: is_variable_reference_def is_some_and_def)

lemma strip_scalar [simp]: "scalar (strip_secret_values v) = scalar v"
  by (cases v) auto

lemma strip_as_str [simp]: "as_str (strip_secret_values v) = as_str v"
  by (cases v) auto

lemma strip_header:
  "\<not> list_ex (\<lambda>(k, v). flagged k v) m \<Longrightarrow>
   credential_header (JObject (strip_members m)) = credential_header (JObject m)"
  by (induction m) (auto simp: flagged_def credential_named_def)

lemma strip_verdict:
  "find_literal_secret (strip_secret_values v) = None \<longleftrightarrow> find_literal_secret v = None"
  "literal_members (strip_members m) = None \<longleftrightarrow> literal_members m = None"
  "literal_items (strip_items vs) = None \<longleftrightarrow> literal_items vs = None"
proof (induction v and m and vs rule: members_members_in_items_in.induct)
  case (5 k v m)
  show ?case
  proof (cases "flagged k v")
    case True
    then show ?thesis by (auto simp: flagged_def literal_member_def)
  next
    case False
    have "literal_member k (strip_secret_values v) = None \<and> find_literal_secret (strip_secret_values v) = None \<longleftrightarrow>
      literal_member k v = None \<and> find_literal_secret v = None"
    proof (cases v)
      case (JObject h)
      show ?thesis
      proof (cases "list_ex (\<lambda>(k, v). flagged k v) h")
        case True
        with JObject 5(1) flagged_found [OF True] show ?thesis by auto
      next
        case nf: False
        with JObject 5(1) show ?thesis
          by (simp add: literal_member_def strip_header [OF nf] del: credential_header.simps)
      qed
    qed (use 5(1) in \<open>auto simp: literal_member_def\<close>)
    with False 5(2) show ?thesis
      by (auto simp: flagged_def split: option.splits)
  qed
qed (auto split: option.splits)

lemma MASK_plain [simp]: "\<not> credential_shaped MASK" "CHR '' '' \<notin> set MASK" "\<not> is_variable_reference MASK"
  by code_simp+

lemma mask_words_clean:
  "list_all (\<lambda>w. \<not> credential_shaped w) (mask_words previous ws)"
  by (induction previous ws rule: mask_words.induct) auto

lemma mask_words_plain: "list_all (\<lambda>w. d \<notin> set w) ws \<Longrightarrow> d \<notin> set MASK \<Longrightarrow> list_all (\<lambda>w. d \<notin> set w) (mask_words p ws)"
  by (induction p ws rule: mask_words.induct) auto

lemma mask_text_words:
  "str_split (CHR '' '') (mask_text text) = mask_words [] (str_split (CHR '' '') text)"
proof -
  have "list_all (\<lambda>w. CHR '' '' \<notin> set w) (str_split (CHR '' '') text)"
    using str_split_parts by (auto simp: list_all_iff)
  moreover have "mask_words [] (str_split (CHR '' '') text) \<noteq> []"
    by (cases "str_split (CHR '' '') text") auto
  ultimately show ?thesis
    by (simp add: mask_text_def str_split_join mask_words_plain)
qed

lemma mask_words_nth:
  "length (mask_words p ws) = length ws"
  "i < length ws \<Longrightarrow> mask_words p ws ! i =
     (if credential_shaped (ws ! i) \<or> scheme (if i = 0 then p else ws ! (i - 1)) then MASK else ws ! i)"
proof (induction p ws arbitrary: i rule: mask_words.induct)
  case (2 p w ws)
  {
    case 1
    then show ?case using 2 by simp
  next
    case 2
    then show ?case using 2 "2.IH"(2) [of "i - 1"] by (cases i) (auto simp: scheme_def)
  }
qed simp_all

lemma mask_text_masks: "words_masked s (mask_text s)"
proof -
  have "\<not> scheme []" by code_simp
  then show ?thesis
    unfolding words_masked_def mask_text_words Let_def by (auto simp: mask_words_nth)
qed

text \<open>The texts of a document, at any depth.\<close>

fun texts :: "json \<Rightarrow> string list"
  and member_texts :: "(string \<times> json) list \<Rightarrow> string list"
  and item_texts :: "json list \<Rightarrow> string list" where
  "texts (JString s) = [s]"
| "texts (JObject m) = member_texts m"
| "texts (JArray items) = item_texts items"
| "texts v = []"
| "member_texts [] = []"
| "member_texts ((k, v) # m) = texts v @ member_texts m"
| "item_texts [] = []"
| "item_texts (v # vs) = texts v @ item_texts vs"

lemma texts_words:
  "texts (words v) = map mask_text (texts v)"
  "member_texts (member_words m) = map mask_text (member_texts m)"
  "item_texts (item_words vs) = map mask_text (item_texts vs)"
  by (induction v and m and vs rule: texts_member_texts_item_texts.induct) auto

lemma mask_text_mask [simp]: "mask_text MASK = MASK"
  by code_simp

lemma skeleton_words:
  "skeleton (words v) = skeleton v"
  "member_skeletons (member_words m) = member_skeletons m"
  "item_skeletons (item_words vs) = item_skeletons vs"
  by (induction v and m and vs rule: words_member_words_item_words.induct) auto

lemma skeleton_mask_json:
  "skeleton (mask_json lower v) = skeleton v"
  "member_skeletons (mask_members lower m) = member_skeletons m"
  "item_skeletons (mask_items lower vs) = item_skeletons vs"
proof (induction lower v and lower m and lower vs rule: mask_json_mask_members_mask_items.induct)
  case (6 lower key v m)
  then show ?case by (cases v) (auto simp: masked_member_def)
qed auto

text \<open>\<open>mask_json\<close> of a value under a name: what \<open>mask_members\<close> does with it.\<close>

definition mask_at :: "(string \<Rightarrow> string) \<Rightarrow> string option \<Rightarrow> json \<Rightarrow> json" where
  "mask_at lower k v = (if is_some_and (\<lambda>key. masked_member lower key v) k then JString MASK else mask_json lower v)"

lemma mask_at_simps [simp]:
  "mask_at lower None v = mask_json lower v"
  "mask_at lower k (JObject m) = JObject (mask_members lower m)"
  "mask_at lower k (JArray xs) = JArray (mask_items lower xs)"
  "mask_members lower ((key, v) # m) = (key, mask_at lower (Some key) v) # mask_members lower m"
  by (auto simp: mask_at_def masked_member_def is_some_and_def split: option.splits)

lemma leaf_masked_scalar:
  "(\<And>m. v \<noteq> JObject m) \<Longrightarrow> (\<And>xs. v \<noteq> JArray xs) \<Longrightarrow>
   list_all2 (leaf_masked lower) [(k, v)] (named_leaves k (words (mask_at lower k v)))"
  by (cases v) (auto simp: leaf_masked_def mask_at_def masked_member_def is_some_and_def mask_text_masks
      split: option.splits)

lemma leaves_masked:
  "list_all2 (leaf_masked lower) (named_leaves k v) (named_leaves k (words (mask_at lower k v)))"
  "list_all2 (leaf_masked lower) (leaves_of_members m) (leaves_of_members (member_words (mask_members lower m)))"
  "list_all2 (leaf_masked lower) (leaves_of_items xs) (leaves_of_items (item_words (mask_items lower xs)))"
proof (induction k v and m and xs rule: named_leaves_leaves_of_members_leaves_of_items.induct)
  case (5 k v m)
  then show ?case by (simp del: mask_members.simps(2) add: list_all2_appendI)
qed (simp_all add: leaf_masked_scalar list_all2_appendI del: mask_members.simps(2))

lemma skeleton_strip:
  "skeleton (strip_secret_values v) = skeleton v"
  "member_skeletons (strip_members m) = member_skeletons m"
  "item_skeletons (strip_items vs) = item_skeletons vs"
proof (induction v and m and vs rule: members_members_in_items_in.induct)
  case (5 k v m)
  then show ?case by (cases v) auto
qed auto

lemma leaves_strip:
  "named_leaves None (strip_secret_values v) = map exported_leaf (named_leaves None v)"
  "leaves_of_members (strip_members m) = map exported_leaf (leaves_of_members m)"
  "leaves_of_items (strip_items vs) = map exported_leaf (leaves_of_items vs)"
proof (induction v and m and vs rule: members_members_in_items_in.induct)
  case (5 k v m)
  then show ?case by (cases v) (auto simp: exported_leaf_def)
qed (auto simp: exported_leaf_def)

text \<open>
  Reading a JSON pointer back (RFC 6901), and whether the place it names lies under the name of a
  credential: directly, or in an array under it.
\<close>

fun unescape_token :: "string \<Rightarrow> string" where
  "unescape_token [] = []"
| "unescape_token [c] = [c]"
| "unescape_token (c # d # cs) =
     (if c = CHR ''~'' \<and> d = CHR ''0'' then CHR ''~'' # unescape_token cs
      else if c = CHR ''~'' \<and> d = CHR ''1'' then CHR ''/'' # unescape_token cs
      else c # unescape_token (d # cs))"

definition tokens_of :: "string \<Rightarrow> string list" where
  "tokens_of p = map unescape_token (tl (str_split (CHR ''/'') p))"

definition pointer_text :: "string list \<Rightarrow> string" where
  "pointer_text ts = concat (map (\<lambda>t. CHR ''/'' # escape_token t) ts)"

fun named_at :: "(string \<Rightarrow> string) \<Rightarrow> bool \<Rightarrow> string list \<Rightarrow> json \<Rightarrow> bool" where
  "named_at lower named [] v = named"
| "named_at lower named (t # ts) (JObject m) =
     (case bt_get m t of None \<Rightarrow> False | Some c \<Rightarrow> named_at lower (secret_name lower t) ts c)"
| "named_at lower named (t # ts) (JArray xs) =
     (case array_index t of
        None \<Rightarrow> False
      | Some i \<Rightarrow> if i < length xs then named_at lower named ts (xs ! i) else False)"
| "named_at lower named (t # ts) v = False"

lemma escape_token_step:
  "escape_token [] = []"
  "escape_token (c # cs) = (if c = CHR ''~'' then ''~0'' else if c = CHR ''/'' then ''~1'' else [c]) @ escape_token cs"
  by (simp_all add: escape_token_def)

lemma escape_no_slash: "CHR ''/'' \<notin> set (escape_token t)"
  by (induction t) (auto simp: escape_token_step)

lemma unescape_plain: "c \<noteq> CHR ''~'' \<Longrightarrow> unescape_token (c # cs) = c # unescape_token cs"
  by (cases cs) auto

lemma unescape_escape [simp]: "unescape_token (escape_token t) = t"
  by (induction t) (auto simp: escape_token_step unescape_plain)

lemma split_pointer_text: "str_split (CHR ''/'') (pointer_text ts) = [] # map escape_token ts"
proof (induction ts)
  case (Cons t ts)
  have "pointer_text (t # ts) = CHR ''/'' # escape_token t @ pointer_text ts" by (simp add: pointer_text_def)
  moreover have "str_split (CHR ''/'') (escape_token t @ pointer_text ts) = escape_token t # map escape_token ts"
  proof (cases ts)
    case Nil
    then show ?thesis by (simp add: pointer_text_def str_split_no_delim escape_no_slash)
  next
    case (Cons u us)
    then have "pointer_text ts = CHR ''/'' # escape_token u @ pointer_text us" by (simp add: pointer_text_def)
    with Cons.IH show ?thesis by (simp add: str_split_append escape_no_slash)
  qed
  ultimately show ?case by simp
qed (simp add: pointer_text_def)

lemma tokens_of_text [simp]: "tokens_of (pointer_text ts) = ts"
  by (simp add: tokens_of_def split_pointer_text comp_def)

lemma digits_value_append: "digits_value (s @ [c]) = 10 * digits_value s + (of_char c - 48)"
  by (simp add: digits_value_def)

lemma show_nat_step: "show_nat n = (if n < 10 then [digit_char n] else show_nat (n div 10) @ [digit_char (n mod 10)])"
  unfolding show_nat_def by (subst show_base.simps) simp

lemma digit_char_digit:
  "d < 10 \<Longrightarrow> is_ascii_digit (digit_char d)" "d < 10 \<Longrightarrow> of_char (digit_char d) = d + (48::nat)"
  by (simp_all add: digit_char_def is_ascii_digit_def Let_def)

lemma digit_char_zero: "d < 10 \<Longrightarrow> digit_char d = CHR ''0'' \<longleftrightarrow> d = 0"
proof -
  assume "d < 10"
  moreover have "digit_char 0 = CHR ''0''" by code_simp
  moreover have "of_char (CHR ''0'') = (48 :: nat)" by simp
  ultimately show ?thesis using digit_char_digit(2) [of d] by auto
qed

lemma show_nat_canonical:
  "show_nat n \<noteq> [] \<and> list_all is_ascii_digit (show_nat n) \<and> digits_value (show_nat n) = n \<and>
   (hd (show_nat n) = CHR ''0'' \<longleftrightarrow> n = 0)"
proof (induction n rule: less_induct)
  case (less n)
  show ?case
  proof (cases "n < 10")
    case True
    then show ?thesis
      by (simp add: show_nat_step [of n] digit_char_digit digit_char_zero) (simp add: digits_value_def digit_char_digit)
  next
    case False
    then have "n div 10 < n" "n div 10 \<noteq> 0" by auto
    with less [of "n div 10"] False show ?thesis
      by (simp add: show_nat_step [of n] digits_value_append digit_char_digit)
  qed
qed

lemma index_of_show: "array_index (show_nat n) = Some n"
proof (cases "n = 0")
  case True
  have "array_index (show_nat 0) = Some 0" by code_simp
  with True show ?thesis by simp
next
  case False
  then show ?thesis using show_nat_canonical [of n] by (simp add: array_index_def)
qed

lemma show_of_digits:
  "t \<noteq> [] \<Longrightarrow> list_all is_ascii_digit t \<Longrightarrow> hd t \<noteq> CHR ''0'' \<or> length t = 1 \<Longrightarrow> show_nat (digits_value t) = t"
proof (induction t rule: rev_induct)
  case (snoc c s)
  define d where "d = (of_char c :: nat) - 48"
  have d: "d < 10" "digit_char d = c"
    using snoc.prems(2) by (auto simp: d_def is_ascii_digit_def Let_def digit_char_def)
  show ?case
  proof (cases "s = []")
    case True
    with d show ?thesis by (simp add: show_nat_step digits_value_def d_def)
  next
    case False
    with snoc.prems have "hd s \<noteq> CHR ''0''" "list_all is_ascii_digit s" by auto
    with snoc.IH False have s: "show_nat (digits_value s) = s" by simp
    with \<open>hd s \<noteq> CHR ''0''\<close> show_nat_canonical [of "digits_value s"] have "digits_value s \<noteq> 0" by auto
    with d s show ?thesis
      by (subst show_nat_step) (auto simp: digits_value_append d_def [symmetric])
  qed
qed simp

lemma array_index_iff: "array_index t = Some i \<longleftrightarrow> t = show_nat i"
  using show_of_digits [of t] index_of_show [of i] by (auto simp: array_index_def split: if_splits)

lemma escape_show [simp]: "escape_token (show_nat i) = show_nat i"
proof -
  have "list_all is_ascii_digit s \<Longrightarrow> escape_token s = s" for s
  proof (induction s)
    case (Cons c s)
    have "\<not> is_ascii_digit (CHR ''~'')" "\<not> is_ascii_digit (CHR ''/'')" by code_simp+
    with Cons show ?case by (auto simp: escape_token_step)
  qed (simp add: escape_token_step)
  then show ?thesis using show_nat_canonical by blast
qed


lemma pointer_text_simps [simp]:
  "pointer_text [] = []" "pointer_text (t # ts) = CHR ''/'' # escape_token t @ pointer_text ts"
  by (simp_all add: pointer_text_def)

lemma json_members: "bt_wf m \<Longrightarrow> bt_get m k = Some c \<longleftrightarrow> (k, c) \<in> set m"
  by (auto simp: bt_get_def bt_wf_def strict_sorted_iff dest: map_of_SomeD)

text \<open>What the three walks report, by place.\<close>

definition reported ::
  "(string \<Rightarrow> string) \<Rightarrow> (string \<Rightarrow> (string \<times> string) list option) \<Rightarrow> string \<Rightarrow> bool \<Rightarrow> json \<Rightarrow> string \<Rightarrow> bool" where
  "reported lower qp at named v p \<longleftrightarrow>
     (\<exists>ts leaf. p = at @ pointer_text ts \<and> pointer ts v = Some leaf \<and>
        leaf_found lower qp (named_at lower named ts v) leaf)"

lemma reported_leaf:
  assumes "\<And>ts t. pointer (t # ts) v = None"
  shows "reported lower qp at named v p \<longleftrightarrow> leaf_found lower qp named v \<and> p = at"
proof -
  have "pointer ts v = Some leaf \<longleftrightarrow> ts = [] \<and> leaf = v" for ts leaf
    using assms by (cases ts) auto
  then show ?thesis by (auto simp: reported_def)
qed

lemma reported_object:
  assumes "bt_wf m"
  shows "reported lower qp at named (JObject m) p \<longleftrightarrow>
    (\<exists>k c. (k, c) \<in> set m \<and> reported lower qp (at @ ''/'' @ escape_token k) (secret_name lower k) c p)"
  (is "_ \<longleftrightarrow> ?R")
proof
  assume "reported lower qp at named (JObject m) p"
  then obtain ts leaf where *: "p = at @ pointer_text ts" "pointer ts (JObject m) = Some leaf"
    "leaf_found lower qp (named_at lower named ts (JObject m)) leaf" by (auto simp: reported_def)
  then obtain k us where "ts = k # us" by (cases ts) (auto simp: leaf_found_def)
  with * assms show ?R
    by (auto simp: reported_def json_members split: option.splits intro!: exI [of _ k])
next
  assume ?R
  then obtain k c ts leaf where "(k, c) \<in> set m" "p = at @ pointer_text (k # ts)" "pointer ts c = Some leaf"
    "leaf_found lower qp (named_at lower (secret_name lower k) ts c) leaf" by (auto simp: reported_def)
  with assms show "reported lower qp at named (JObject m) p"
    unfolding reported_def by (intro exI [of _ "k # ts"] exI [of _ leaf]) (auto simp: json_members [symmetric])
qed

lemma reported_array:
  "reported lower qp at named (JArray xs) p \<longleftrightarrow>
    (\<exists>i < length xs. reported lower qp (at @ ''/'' @ show_nat i) named (xs ! i) p)"
  (is "_ \<longleftrightarrow> ?R")
proof
  assume "reported lower qp at named (JArray xs) p"
  then obtain ts leaf where *: "p = at @ pointer_text ts" "pointer ts (JArray xs) = Some leaf"
    "leaf_found lower qp (named_at lower named ts (JArray xs)) leaf" by (auto simp: reported_def)
  then obtain k us where "ts = k # us" by (cases ts) (auto simp: leaf_found_def)
  with * show ?R
    by (auto simp: reported_def array_index_iff split: option.splits if_splits)
next
  assume ?R
  then obtain i ts leaf where "i < length xs" "p = at @ pointer_text (show_nat i # ts)" "pointer ts (xs ! i) = Some leaf"
    "leaf_found lower qp (named_at lower named ts (xs ! i)) leaf" by (auto simp: reported_def)
  then show "reported lower qp at named (JArray xs) p"
    unfolding reported_def by (intro exI [of _ "show_nat i # ts"] exI [of _ leaf]) (auto simp: index_of_show)
qed

lemma ex_index_Cons: "(\<exists>i < length (x # xs). P i ((x # xs) ! i)) \<longleftrightarrow> P 0 x \<or> (\<exists>i < length xs. P (Suc i) (xs ! i))"
  by (metis Suc_less_eq length_Cons nat.exhaust nth_Cons_0 nth_Cons_Suc zero_less_Suc)

lemma walk_reports:
  "json_wf v \<Longrightarrow> p \<in> set (walk lower qp at named v) \<longleftrightarrow> reported lower qp at named v p"
  "(\<forall>c \<in> snd ` set m. json_wf c) \<Longrightarrow> p \<in> set (walk_members lower qp at m) \<longleftrightarrow>
     (\<exists>k c. (k, c) \<in> set m \<and> reported lower qp (at @ ''/'' @ escape_token k) (secret_name lower k) c p)"
  "(\<forall>c \<in> set xs. json_wf c) \<Longrightarrow> p \<in> set (walk_items lower qp at named n xs) \<longleftrightarrow>
     (\<exists>i < length xs. reported lower qp (at @ ''/'' @ show_nat (n + i)) named (xs ! i) p)"
proof (induction lower qp at named v and lower qp at m and lower qp at named n xs
    rule: walk_walk_members_walk_items.induct)
  case (5 lower qp at key child m)
  then show ?case by auto
next
  case (7 lower qp at named n item items)
  then show ?case
    using ex_index_Cons [of item items
      "\<lambda>i x. reported lower qp (at @ ''/'' @ show_nat (n + i)) named x p"] by simp
qed (auto simp: reported_leaf reported_object reported_array)

lemma find_secrets_reports:
  assumes "json_wf v"
  shows "p \<in> set (find_secrets lower qp v) \<longleftrightarrow>
    (\<exists>leaf. p = pointer_text (tokens_of p) \<and> pointer (tokens_of p) v = Some leaf \<and>
       leaf_found lower qp (named_at lower False (tokens_of p) v) leaf)"
  using walk_reports(1) [OF assms, of p lower qp "[]" False]
  by (auto simp: find_secrets_def reported_def)

lemma password_is_secret: "secret_name lower ''password''"
  by (simp add: secret_name_def SECRET_KEYS_def)

subsection \<open>Where the parts disagree\<close>

text \<open>A field that changes its type is shown whole: the redaction looks at its path alone.\<close>

lemma type_change_is_shown_whole:
  "redact (diff_values ''spec'' (JObject [(''auth'', JNull)])
     (JObject [(''auth'', JObject [(''password'', JString ''hunter2'')])])) =
   [\<lparr>fc_path = ''spec.auth'', fc_from = Some JNull, fc_to = Some (JObject [(''password'', JString ''hunter2'')])\<rparr>]"
proof -
  have "\<not> is_sensitive_path ''spec.auth''" by code_simp
  then show ?thesis
    by (simp add: diff_values.simps bt_set_def bt_get_def member_path_def redact_def redact_field_def)
qed

text \<open>A list under a credential's name is refused as an argument and answered as it is.\<close>

lemma list_under_a_secret_name_is_shown:
  "find_secrets lower qp (JObject [(''password'', JArray [JString ''hunter2''])]) = [''/password/0'']"
  "shown lower ViaMcp (JObject [(''password'', JArray [JString ''hunter2''])]) =
     JObject [(''password'', JArray [JString ''hunter2''])]"
proof -
  have c: "\<not> is_variable_reference ''hunter2''" "\<not> credential_shaped ''hunter2''" "mask_text ''hunter2'' = ''hunter2''"
    "escape_token ''password'' = ''password''" "show_nat 0 = ''0''" by code_simp+
  show "find_secrets lower qp (JObject [(''password'', JArray [JString ''hunter2''])]) = [''/password/0'']"
    by (simp add: find_secrets_def c leaf_found_def password_is_secret)
  show "shown lower ViaMcp (JObject [(''password'', JArray [JString ''hunter2''])]) =
     JObject [(''password'', JArray [JString ''hunter2''])]"
    by (simp add: shown_def masked_def masked_member_def c)
qed

text \<open>
  An exported manifest is refused on its way back exactly when the stored one would be: the export
  empties the value of a credential and keeps its key, and the write door refuses an empty credential
  like any other.
\<close>

lemma stripped_manifest_keeps_its_verdict:
  "find_literal_secret (strip_secret_values v) = None \<longleftrightarrow> find_literal_secret v = None"
  by (rule strip_verdict)

subsection \<open>Properties\<close>

text \<open>
  Property C26. The write door finds a literal credential exactly when the manifest holds one: it
  reports nothing only when no member of any object, at any depth, is a scalar under a credential's
  name (a whole variable reference apart) or a set of request headers with a credential in plain text,
  and what it reports is the name of such a member.
\<close>

theorem literal_secret_found_exactly:
  "case find_literal_secret v of
     None \<Rightarrow> list_all (\<lambda>(k, x). literal_member k x = None) (members v)
   | Some f \<Rightarrow> list_ex (\<lambda>(k, x). literal_member k x = Some f) (members v)"
  using none_found(1) [of v] some_found(1) [of v] by (cases "find_literal_secret v") auto

text \<open>
  Property C14. What a reviewer reads of the plan that creates or removes a manifest does not depend on
  the credentials in it: the redacted fields are those of the same manifest with the values of its
  credentials emptied, at any depth.
\<close>

theorem redacted_plan_does_not_depend_on_secrets:
  "redact (pd_fields (diff mv None (Some (e\<lparr>env_spec := strip_secret_values (env_spec e)\<rparr>)))) =
     redact (pd_fields (diff mv None (Some e))) \<and>
   redact (pd_fields (diff mv (Some (e\<lparr>env_spec := strip_secret_values (env_spec e)\<rparr>)) None)) =
     redact (pd_fields (diff mv (Some e) None))"
  by (simp add: diff_def redact_fields hidden_envelope)

text \<open>
  Property C40. An export keeps a manifest whole but for its credentials: the document has the same
  shape, and its leaves are the same in the same order, except that a text, a number or a boolean
  directly under one of the names of credentials is the empty text. A whole \<open>${VAR}\<close> there is kept,
  since it names a credential and holds none, and so are \<open>null\<close> and the items of a list.
\<close>

theorem export_keeps_all_but_credentials:
  "skeleton (strip_secret_values v) = skeleton v \<and>
   named_leaves None (strip_secret_values v) = map exported_leaf (named_leaves None v)"
  by (simp add: skeleton_strip leaves_strip)

text \<open>
  Property C27. The scan of an argument reports exactly the places of credentials: each pointer it
  gives, read back by the rules of JSON pointers, leads to a value that is reported for its name or
  its shape, and each such value of the document is reported under its pointer.
\<close>

theorem found_pointers_are_exact:
  assumes "json_wf v"
  shows "set (find_secrets lower qp v) =
    {p. \<exists>leaf. p = pointer_text (tokens_of p) \<and> pointer (tokens_of p) v = Some leaf \<and>
       leaf_found lower qp (named_at lower False (tokens_of p) v) leaf}"
  using find_secrets_reports [OF assms] by blast

definition sample_argument :: json where
  "sample_argument = JObject [(''a/b'', JArray [JNull, JObject [(''token'', JString ''x'')]])]"

lemma found_pointers_are_exact_witness:
  "''/a~1b/1/token'' \<in> set (find_secrets to_ascii_lowercase (\<lambda>_. None) sample_argument) \<and>
   set (find_secrets to_ascii_lowercase (\<lambda>_. None) sample_argument) =
    {p. \<exists>leaf. p = pointer_text (tokens_of p) \<and> pointer (tokens_of p) sample_argument = Some leaf \<and>
       leaf_found to_ascii_lowercase (\<lambda>_. None) (named_at to_ascii_lowercase False (tokens_of p) sample_argument) leaf}"
proof -
  have "json_wf sample_argument" by (simp add: sample_argument_def bt_wf_def)
  moreover have "''/a~1b/1/token'' \<in> set (find_secrets to_ascii_lowercase (\<lambda>_. None) sample_argument)" by code_simp
  ultimately show ?thesis using found_pointers_are_exact by blast
qed


end
