(* ===== verification/PipelineRights.thy ===== *)
theory PipelineRights
  imports Judgements
begin

text \<open>
  A pipeline reaches only what its people reach (\<open>src/pipeline_rights.rs\<close>, with \<open>space_of_endpoint\<close> and
  \<open>spaces_written\<close> of \<open>src/pipeline_expiry.rs\<close>).

  jc-core reads a Pipeline's specification (\<open>read_refs\<close>): of a source, the DataSource and the Endpoint
  it names, an Endpoint with the project it names beside it; of an output, the name of its Endpoint.
  \<open>to_value\<close> is serde's writing of an envelope, and the clock an argument.
\<close>

subsection \<open>Definitions\<close>

record source_refs =
  sr_data_source :: "string option"
  sr_endpoint :: "(string option \<times> string) option"

record pipeline_refs =
  pf_sources :: "source_refs list"
  pf_targets :: "string list"

definition space_of_endpoint :: "mirror \<Rightarrow> string \<Rightarrow> string \<Rightarrow> string option" where
  "space_of_endpoint m project endpoint =
     Option.bind (get m project ''Endpoint'' endpoint) (\<lambda>envelope.
     Option.bind (jget ''contextSpaceRef'' (env_spec envelope)) (\<lambda>reference.
       or_else (as_str reference) (get_str ''name'' reference)))"

definition spaces_written :: "mirror \<Rightarrow> string \<Rightarrow> pipeline_refs \<Rightarrow> string list" where
  "spaces_written m project refs = List.map_filter (space_of_endpoint m project) (pf_targets refs)"

definition lacks :: "string \<Rightarrow> string list \<Rightarrow> string list" where
  "lacks item missing = (if item \<in> set missing then missing else missing @ [item])"

definition data_source_readable ::
  "jc_core \<Rightarrow> (envelope \<Rightarrow> string + json) \<Rightarrow> mirror \<Rightarrow> effective \<Rightarrow> string \<Rightarrow> string \<Rightarrow> bool" where
  "data_source_readable jc to_value m eff project name =
     (case get m project ''DataSource'' name of
        Some envelope \<Rightarrow>
          (case to_value envelope of
             Inl _ \<Rightarrow> False
           | Inr manifest \<Rightarrow>
               list_ex (\<lambda>held. check jc eff ''DataSource'' held (Some manifest) = Inr ()) [Read, Propose])
      | None \<Rightarrow> may_read jc eff ''DataSource'')"

definition public_endpoint :: "envelope \<Rightarrow> bool" where
  "public_endpoint endpoint =
     is_none_or (\<lambda>audience. audience = ''public'') (get_str ''audience'' (env_spec endpoint))"

definition source_endpoint_readable :: "jc_core \<Rightarrow> mirror \<Rightarrow> effective \<Rightarrow> string \<Rightarrow> string \<Rightarrow> bool" where
  "source_endpoint_readable jc m eff project name =
     (case get m project ''Endpoint'' name of
        None \<Rightarrow> False
      | Some endpoint \<Rightarrow>
          public_endpoint endpoint \<or>
          is_some_and (\<lambda>space. may_read_in jc eff ''Entity'' (Some space)) (space_of_endpoint m project name))"

text \<open>One turn of the loop over the sources, and one of the loop over the outputs.\<close>

definition source_step ::
  "jc_core \<Rightarrow> (envelope \<Rightarrow> string + json) \<Rightarrow> mirror \<Rightarrow> effective \<Rightarrow> string \<Rightarrow> source_refs \<Rightarrow> string list \<Rightarrow> string list" where
  "source_step jc to_value m eff project source missing =
     (let missing1 =
            (case sr_data_source source of
               None \<Rightarrow> missing
             | Some name \<Rightarrow>
                 if \<not> data_source_readable jc to_value m eff project name
                 then lacks (''DataSource '' @ name) missing else missing)
      in case sr_endpoint source of
           None \<Rightarrow> missing1
         | Some (namespace, name) \<Rightarrow>
             if is_some_and (\<lambda>owner. owner \<noteq> project) namespace then missing1
             else if \<not> source_endpoint_readable jc m eff project name
             then lacks (''source Endpoint '' @ name) missing1 else missing1)"

definition target_step ::
  "jc_core \<Rightarrow> mirror \<Rightarrow> effective \<Rightarrow> string \<Rightarrow> verb \<Rightarrow> string \<Rightarrow> string list \<Rightarrow> string list" where
  "target_step jc m eff project verb name missing =
     (case space_of_endpoint m project name of
        None \<Rightarrow> missing
      | Some space \<Rightarrow>
          if \<not> (may_in jc eff ''Pipeline'' verb (Some space) \<and> may_read_in jc eff ''Entity'' (Some space))
          then lacks (''target Endpoint '' @ name) missing else missing)"

definition unreachable ::
  "jc_core \<Rightarrow> (envelope \<Rightarrow> string + json) \<Rightarrow> mirror \<Rightarrow> effective \<Rightarrow> string \<Rightarrow> pipeline_refs \<Rightarrow> verb \<Rightarrow> string list" where
  "unreachable jc to_value m eff project refs verb =
     fold (target_step jc m eff project verb) (pf_targets refs)
       (fold (source_step jc to_value m eff project) (pf_sources refs) [])"

definition missing_rights_of ::
  "jc_core \<Rightarrow> (envelope \<Rightarrow> string + json) \<Rightarrow> (json \<Rightarrow> pipeline_refs option) \<Rightarrow> mirror \<Rightarrow> string \<Rightarrow> identity \<Rightarrow>
   string \<Rightarrow> json \<Rightarrow> verb \<Rightarrow> int \<Rightarrow> string list" where
  "missing_rights_of jc to_value read_refs m bootstrap_group identity project manifest verb now =
     (if get_str ''kind'' manifest \<noteq> Some ''Pipeline'' then []
      else
        let eff = effective_of jc m bootstrap_group identity project now
        in if e_bootstrap eff then []
           else
             (case Option.bind (jget ''spec'' manifest) read_refs of
                None \<Rightarrow> []
              | Some refs \<Rightarrow> unreachable jc to_value m eff project refs verb))"

definition check_pipeline_rights ::
  "jc_core \<Rightarrow> (envelope \<Rightarrow> string + json) \<Rightarrow> (json \<Rightarrow> pipeline_refs option) \<Rightarrow> mirror \<Rightarrow> string \<Rightarrow> identity \<Rightarrow>
   string \<Rightarrow> json \<Rightarrow> verb \<Rightarrow> int \<Rightarrow> api_error + unit" where
  "check_pipeline_rights jc to_value read_refs m bootstrap_group identity project manifest verb now =
     (let missing = missing_rights_of jc to_value read_refs m bootstrap_group identity project manifest verb now
      in if missing = [] then Inr ()
         else
           let who = (if verb = Approve then ''approve'' else ''propose'')
           in Inl (Denied (''No access to '' @ str_join '', '' missing @
                '': a pipeline reads and writes only what the person who may '' @ who @
                '' it reads and writes, ask for read on the source or write on the target first (PL-94)'')))"

subsection \<open>Lemmas\<close>

text \<open>What a source or an output lacks, by itself.\<close>

definition source_lacks ::
  "jc_core \<Rightarrow> (envelope \<Rightarrow> string + json) \<Rightarrow> mirror \<Rightarrow> effective \<Rightarrow> string \<Rightarrow> source_refs \<Rightarrow> string set" where
  "source_lacks jc to_value m eff project source =
     {item. \<exists>name. sr_data_source source = Some name \<and> item = ''DataSource '' @ name \<and>
        \<not> data_source_readable jc to_value m eff project name} \<union>
     {item. \<exists>ns name. sr_endpoint source = Some (ns, name) \<and> ns \<in> {None, Some project} \<and>
        item = ''source Endpoint '' @ name \<and> \<not> source_endpoint_readable jc m eff project name}"

definition target_lacks :: "jc_core \<Rightarrow> mirror \<Rightarrow> effective \<Rightarrow> string \<Rightarrow> verb \<Rightarrow> string \<Rightarrow> string set" where
  "target_lacks jc m eff project verb name =
     {item. item = ''target Endpoint '' @ name \<and>
        (\<exists>space. space_of_endpoint m project name = Some space \<and>
           \<not> (may_in jc eff ''Pipeline'' verb (Some space) \<and> may_read_in jc eff ''Entity'' (Some space)))}"

lemma set_lacks [simp]: "set (lacks x xs) = insert x (set xs)"
  by (auto simp: lacks_def)

lemma distinct_lacks [simp]: "distinct xs \<Longrightarrow> distinct (lacks x xs)"
  by (simp add: lacks_def)

lemma set_source_step:
  "set (source_step jc to_value m eff project source missing) =
     source_lacks jc to_value m eff project source \<union> set missing"
proof (cases "sr_endpoint source")
  case None
  then show ?thesis
    by (cases "sr_data_source source") (auto simp: source_step_def source_lacks_def)
next
  case (Some e)
  then show ?thesis
    by (cases e; cases "fst e"; cases "sr_data_source source")
       (auto simp: source_step_def source_lacks_def is_some_and_def Let_def)
qed

lemma set_target_step:
  "set (target_step jc m eff project verb name missing) = target_lacks jc m eff project verb name \<union> set missing"
  by (auto simp: target_step_def target_lacks_def split: option.splits)

lemma distinct_steps:
  "distinct missing \<Longrightarrow> distinct (source_step jc to_value m eff project source missing)"
  "distinct missing \<Longrightarrow> distinct (target_step jc m eff project verb name missing)"
  by (simp_all add: source_step_def target_step_def Let_def split: option.splits prod.splits)

lemma fold_collects:
  assumes "\<And>x acc. set (f x acc) = F x \<union> set acc"
  shows "set (fold f xs acc) = (\<Union>x \<in> set xs. F x) \<union> set acc"
  by (induction xs arbitrary: acc) (auto simp: assms)

lemma fold_distinct:
  assumes "\<And>x acc. distinct acc \<Longrightarrow> distinct (f x acc)"
  shows "distinct acc \<Longrightarrow> distinct (fold f xs acc)"
  by (induction xs arbitrary: acc) (auto simp: assms)

lemma set_unreachable:
  "set (unreachable jc to_value m eff project refs verb) =
     (\<Union>s \<in> set (pf_sources refs). source_lacks jc to_value m eff project s) \<union>
     (\<Union>t \<in> set (pf_targets refs). target_lacks jc m eff project verb t)"
  unfolding unreachable_def
  by (subst fold_collects [OF set_target_step], subst fold_collects [OF set_source_step]) auto

lemma rights_accepted:
  assumes "check_pipeline_rights jc to_value read_refs m boot identity project manifest verb now = Inr ()"
    and "get_str ''kind'' manifest = Some ''Pipeline''"
    and "\<not> e_bootstrap (effective_of jc m boot identity project now)"
    and "Option.bind (jget ''spec'' manifest) read_refs = Some refs"
  shows "unreachable jc to_value m (effective_of jc m boot identity project now) project refs verb = []"
  using assms
  by (auto simp: check_pipeline_rights_def missing_rights_of_def Let_def split: if_splits)

lemma may_in_space_reached:
  assumes "spaces_reached eff = Some spaces" "may_in jc eff kind verb (Some space)"
  shows "space \<in> set spaces"
proof -
  have "\<not> e_bootstrap eff" "\<forall>g \<in> set (e_grants eff). g_space g \<noteq> None"
    "spaces = bt_set (List.map_filter g_space (e_grants eff))"
    using assms(1) by (auto simp: spaces_reached_def list_ex_iff split: if_splits)
  with assms(2) show ?thesis
    by (fastforce simp: may_in_def list_ex_iff map_filter_Some_iff split: option.splits)
qed

text \<open>The source Endpoints a Pipeline names in its own project, and its DataSources.\<close>

definition own_endpoints :: "string \<Rightarrow> pipeline_refs \<Rightarrow> string list" where
  "own_endpoints project refs =
     map snd (filter (\<lambda>(owner, name). owner = None \<or> owner = Some project) (List.map_filter sr_endpoint (pf_sources refs)))"

definition data_sources :: "pipeline_refs \<Rightarrow> string list" where
  "data_sources refs = List.map_filter sr_data_source (pf_sources refs)"

text \<open>An Endpoint that is there and open to all or of one of the spaces, and a DataSource that is there
  and belongs to one of them.\<close>

definition endpoint_within :: "mirror \<Rightarrow> string \<Rightarrow> string list \<Rightarrow> string \<Rightarrow> bool" where
  "endpoint_within m project spaces name =
     is_some_and (\<lambda>endpoint. public_endpoint endpoint \<or>
         is_some_and (\<lambda>space. space \<in> set spaces) (space_of_endpoint m project name))
       (get m project ''Endpoint'' name)"

definition data_source_within :: "(envelope \<Rightarrow> string + json) \<Rightarrow> mirror \<Rightarrow> string \<Rightarrow> string list \<Rightarrow> string \<Rightarrow> bool" where
  "data_source_within to_value m project spaces name =
     is_some_and (\<lambda>env. case to_value env of
         Inl _ \<Rightarrow> False
       | Inr doc \<Rightarrow> is_some_and (\<lambda>space. space \<in> set spaces) (space_ref doc))
       (get m project ''DataSource'' name)"

lemma nothing_lacking_target:
  assumes "spaces_reached eff = Some spaces" "target_lacks jc m eff project verb t = {}"
    and "space_of_endpoint m project t = Some space"
  shows "space \<in> set spaces"
proof -
  have "may_in jc eff ''Pipeline'' verb (Some space)" using assms(2,3) by (auto simp: target_lacks_def)
  with may_in_space_reached [OF assms(1)] show ?thesis by blast
qed

lemma nothing_lacking_endpoint:
  assumes "spaces_reached eff = Some spaces" "source_lacks jc to_value m eff project s = {}"
    and "sr_endpoint s = Some (owner, name)" "owner = None \<or> owner = Some project"
  shows "endpoint_within m project spaces name"
proof -
  have "source_endpoint_readable jc m eff project name" using assms(2-4) by (auto simp: source_lacks_def)
  then show ?thesis
    using may_in_space_reached [OF assms(1)]
    by (fastforce simp: endpoint_within_def source_endpoint_readable_def is_some_and_iff may_read_in_def split: option.splits)
qed

text \<open>Where every grant is bound to a space, a DataSource that is not in the mirror is not readable:
  DataSources do not live in a space.\<close>

lemma no_unheld_data_source: "spaces_reached eff = Some spaces \<Longrightarrow> \<not> may_read jc eff ''DataSource''"
  by (auto simp: spaces_reached_def may_read_def may_def list_ex_iff lives_in_space_def split: if_splits)

lemma nothing_lacking_data_source:
  assumes "spaces_reached eff = Some spaces" "source_lacks jc to_value m eff project s = {}"
    and "sr_data_source s = Some name"
  shows "data_source_within to_value m project spaces name"
proof -
  have readable: "data_source_readable jc to_value m eff project name" using assms(2,3) by (auto simp: source_lacks_def)
  then obtain env where "get m project ''DataSource'' name = Some env"
    using no_unheld_data_source [OF assms(1)] by (auto simp: data_source_readable_def split: option.splits)
  with readable obtain doc held where "get m project ''DataSource'' name = Some env" "to_value env = Inr doc"
    "check jc eff ''DataSource'' held (Some doc) = Inr ()"
    by (cases "to_value env") (auto simp: data_source_readable_def)
  with steward_confined_to_spaces [OF assms(1) this(3)] show ?thesis
    by (auto simp: data_source_within_def is_some_and_def)
qed

subsection \<open>Properties\<close>

text \<open>
  What a Pipeline's proposer or approver is told they lack is exact: each reference of the
  manifest once, a DataSource they may not read, a source Endpoint of their own project that is not
  there or is neither public nor in a space whose entities they read, and a target Endpoint whose space
  they may not write pipelines into or read.
\<close>

theorem unreachable_is_exact:
  "distinct (unreachable jc to_value m eff project refs verb) \<and>
   set (unreachable jc to_value m eff project refs verb) =
     (\<Union>s \<in> set (pf_sources refs). source_lacks jc to_value m eff project s) \<union>
     (\<Union>t \<in> set (pf_targets refs). target_lacks jc m eff project verb t)"
  using set_unreachable unfolding unreachable_def by (simp add: fold_distinct distinct_steps)

text \<open>
  Property C9. A pipeline is no deputy: when a person whose every grant is bound to a space gets a
  Pipeline accepted, at the proposal or at the approval, every space the Pipeline writes is one they
  reach, every source Endpoint it names in its own project is there and public or in a space they reach,
  and every DataSource it names is there and belongs to a space they reach. The spaces written are
  those of the outputs whose Endpoint the mirror holds with a space: an output into an Endpoint that is
  not there yet, and a source Endpoint of another project, are not judged here.
\<close>

theorem steward_pipeline_stays_in_its_spaces:
  assumes "check_pipeline_rights jc to_value read_refs m boot identity project manifest verb now = Inr ()"
    and "get_str ''kind'' manifest = Some ''Pipeline''"
    and "Option.bind (jget ''spec'' manifest) read_refs = Some refs"
    and "spaces_reached (effective_of jc m boot identity project now) = Some spaces"
  shows "set (spaces_written m project refs) \<subseteq> set spaces \<and>
    list_all (endpoint_within m project spaces) (own_endpoints project refs) \<and>
    list_all (data_source_within to_value m project spaces) (data_sources refs)"
proof -
  let ?eff = "effective_of jc m boot identity project now"
  have nb: "\<not> e_bootstrap ?eff" using assms(4) by (auto simp: spaces_reached_def split: if_splits)
  have none: "source_lacks jc to_value m ?eff project s = {}" if "s \<in> set (pf_sources refs)" for s
    using set_unreachable [of jc to_value m ?eff project refs verb] that
      rights_accepted [OF assms(1,2) nb assms(3)] by auto
  have none': "target_lacks jc m ?eff project verb t = {}" if "t \<in> set (pf_targets refs)" for t
    using set_unreachable [of jc to_value m ?eff project refs verb] that
      rights_accepted [OF assms(1,2) nb assms(3)] by auto
  show ?thesis
    using nothing_lacking_target [OF assms(4) none'] nothing_lacking_endpoint [OF assms(4) none]
      nothing_lacking_data_source [OF assms(4) none]
    by (fastforce simp: list_all_iff spaces_written_def own_endpoints_def data_sources_def map_filter_Some_iff)
qed

text \<open>A steward of one space, a DataSource of it, an Endpoint into it and one into another space.\<close>

definition demo_stewardship :: mirror where
  "demo_stewardship =
     \<lparr>resources =
       [demo_row ''bikes'' ''ContextSpace'' ''stations'' (JObject []),
        demo_row ''bikes'' ''DataSource'' ''feed'' (JObject [(''contextSpaceRef'', JString ''stations'')]),
        demo_row ''bikes'' ''Endpoint'' ''air'' (JObject [(''audience'', JString ''project''), (''contextSpaceRef'', JString ''air'')]),
        demo_row ''bikes'' ''Endpoint'' ''out'' (JObject [(''contextSpaceRef'', JObject [(''name'', JString ''stations'')])]),
        demo_row ''org'' ''Organization'' ''espoo'' (JObject []),
        demo_row ''org'' ''Project'' ''bikes'' (JObject [(''organizationRef'', JString ''espoo'')]),
        demo_row ''org'' ''Role'' ''steward'' (JObject [(''rules'', JArray [JObject
          [(''kinds'', demo_strings [''DataSource'', ''Entity'', ''Pipeline'']), (''verbs'', demo_strings [''read'', ''propose''])]])]),
        demo_binding_row ''stations'' ''sam'' ''steward'' [(''contextSpace'', JString ''stations'')]],
      repositories = [], raw_layout = 0\<rparr>"

definition demo_pipeline_manifest :: json where
  "demo_pipeline_manifest = JObject [(''kind'', JString ''Pipeline''), (''spec'', JObject [])]"

definition demo_refs :: "string option \<Rightarrow> pipeline_refs" where
  "demo_refs endpoint =
     \<lparr>pf_sources = [\<lparr>sr_data_source = Some ''feed'', sr_endpoint = map_option (\<lambda>e. (None, e)) endpoint\<rparr>], pf_targets = [''out'']\<rparr>"

definition demo_to_value :: "envelope \<Rightarrow> string + json" where
  "demo_to_value env = Inr (JObject [(''metadata'', JObject [(''name'', JString (meta_name (metadata env)))]), (''spec'', env_spec env)])"

theorem steward_pipeline_stays_in_its_spaces_witness:
  "check_pipeline_rights demo_core demo_to_value (\<lambda>_. Some (demo_refs None)) demo_stewardship ''boot'' (demo_person ''sam'')
     ''bikes'' demo_pipeline_manifest Propose 0 = Inr () \<and>
   set (spaces_written demo_stewardship ''bikes'' (demo_refs None)) \<subseteq> set [''stations''] \<and>
   list_all (endpoint_within demo_stewardship ''bikes'' [''stations'']) (own_endpoints ''bikes'' (demo_refs None)) \<and>
   list_all (data_source_within demo_to_value demo_stewardship ''bikes'' [''stations'']) (data_sources (demo_refs None))"
proof -
  have c: "check_pipeline_rights demo_core demo_to_value (\<lambda>_. Some (demo_refs None)) demo_stewardship ''boot''
    (demo_person ''sam'') ''bikes'' demo_pipeline_manifest Propose 0 = Inr ()" by code_simp
  have k: "get_str ''kind'' demo_pipeline_manifest = Some ''Pipeline''" by code_simp
  have r: "Option.bind (jget ''spec'' demo_pipeline_manifest) (\<lambda>_. Some (demo_refs None)) = Some (demo_refs None)" by code_simp
  have s: "spaces_reached (effective_of demo_core demo_stewardship ''boot'' (demo_person ''sam'') ''bikes'' 0) = Some [''stations'']"
    by code_simp
  from c steward_pipeline_stays_in_its_spaces [OF c k r s] show ?thesis by (rule conjI)
qed

text \<open>
  The source Endpoint of another space, and one that the mirror does not hold, are refused; a target
  Endpoint that it does not hold is not.
\<close>

lemma unreachable_endpoints_named:
  "missing_rights_of demo_core demo_to_value (\<lambda>_. Some (demo_refs (Some ''air''))) demo_stewardship ''boot'' (demo_person ''sam'')
     ''bikes'' demo_pipeline_manifest Propose 0 = [''source Endpoint air'']"
  "missing_rights_of demo_core demo_to_value (\<lambda>_. Some (demo_refs (Some ''new''))) demo_stewardship ''boot'' (demo_person ''sam'')
     ''bikes'' demo_pipeline_manifest Propose 0 = [''source Endpoint new'']"
  "missing_rights_of demo_core demo_to_value (\<lambda>_. Some ((demo_refs None)\<lparr>pf_targets := [''new'']\<rparr>)) demo_stewardship ''boot''
     (demo_person ''sam'') ''bikes'' demo_pipeline_manifest Propose 0 = []"
  by code_simp+

end
