(* ===== verification/Patch.thy ===== *)
theory Patch
  imports Selector
begin

text \<open>
  The SEARCH/REPLACE blocks of a model's answer, applied to the files of a run (\<open>src/agents/patch.rs\<close>).

  The \<open>regex\<close> crate is the record \<open>regex_ops\<close>: escaping a text, replacing each run of white space of a
  pattern by one that matches any run, and the matches of a pattern as ranges of bytes, \<open>None\<close> for a
  pattern that does not compile. The reading of the blocks out of an answer (\<open>parse\<close>) is left out.
  \<open>nearly_whole\<close> compares lengths in \<open>f64\<close>: below \<open>2 ^ 50\<close> bytes its rounding never reaches the next
  integer, so that the comparison is the one of the tenths.
\<close>

subsection \<open>Definitions\<close>

record regex_ops =
  re_escape :: "string \<Rightarrow> string"
  re_spaces :: "string \<Rightarrow> string"
  re_find :: "string \<Rightarrow> string \<Rightarrow> (nat \<times> nat) list option"

definition GAP :: string where
  "GAP = ''@@QZXJK@@''"

record block =
  bl_path :: string
  bl_search :: string
  bl_replace :: string

record applied_block =
  ap_path :: string
  ap_how :: string

record refused_block =
  rf_path :: string
  rf_reason :: string

definition quote_char :: "char \<Rightarrow> bool" where
  "quote_char c \<longleftrightarrow> c \<in> {CHR 0x60, CHR 0x27, CHR 0x22}"

definition is_path :: "string \<Rightarrow> bool" where
  "is_path text =
     (let line = rev (dropWhile quote_char (rev (dropWhile quote_char (str_trim text))))
      in line \<noteq> [] \<and> \<not> list_ex is_whitespace (rchars line) \<and>
         (CHR ''/'' \<in> set line \<or> CHR ''.'' \<in> set line) \<and> \<not> ends_with ''.'' line)"

definition nearly_whole :: "string \<Rightarrow> string \<Rightarrow> bool" where
  "nearly_whole search content \<longleftrightarrow>
     (let s = length search; c = length content in 9 * c \<le> 10 * s \<and> 10 * s \<le> 11 * c)"

definition line_hits :: "regex_ops \<Rightarrow> string \<Rightarrow> string \<Rightarrow> (nat \<times> nat) list option" where
  "line_hits re content pattern =
     map_option (map (\<lambda>(start, end'). (start, end' - (if ends_with newline (take end' content) then 1 else 0))))
       (re_find re (''(?m)^'' @ pattern @ ''(?:'' @ newline @ ''|$)'') content)"

fun first_hits :: "regex_ops \<Rightarrow> string \<Rightarrow> (string \<times> string) list \<Rightarrow> string \<times> (nat \<times> nat) list" where
  "first_hits re content [] = (''none'', [])"
| "first_hits re content ((how, pattern) # rest) =
     (case line_hits re content pattern of
        None \<Rightarrow> first_hits re content rest
      | Some hits \<Rightarrow> if hits \<noteq> [] then (how, hits) else first_hits re content rest)"

definition find_all :: "regex_ops \<Rightarrow> string \<Rightarrow> string \<Rightarrow> string \<times> (nat \<times> nat) list" where
  "find_all re content text =
     (let escaped = re_escape re text;
          fuzzy = ''[ '' @ [CHR 0x5C] @ ''t]*'' @ re_spaces re escaped
      in first_hits re content [(''Exact'', escaped), (''Fuzzy'', fuzzy)])"

definition locate_plain :: "regex_ops \<Rightarrow> string \<Rightarrow> string \<Rightarrow> string + nat \<times> nat \<times> string" where
  "locate_plain re content text =
     (let (how, hits) = find_all re content text
      in case hits of
           [] \<Rightarrow> Inl ''No match''
         | [(start, end')] \<Rightarrow> Inr (start, end', how)
         | many \<Rightarrow> Inl (''Ambiguous - '' @ show_nat (length many) @ '' '' @ to_ascii_lowercase how @ '' matches''))"

definition locate_anchored :: "regex_ops \<Rightarrow> string \<Rightarrow> string \<Rightarrow> string \<Rightarrow> string + nat \<times> nat \<times> string" where
  "locate_anchored re content head tail =
     (if str_trim head = [] \<or> str_trim tail = []
      then Inl (''Anchor missing - need lines before and after '' @ GAP)
      else
        let (how, starts) = find_all re content head
        in case starts of
             [] \<Rightarrow> Inl ''Start anchor not found''
           | [(start, after_head)] \<Rightarrow>
               (case List.find (\<lambda>(begin', _). begin' \<ge> after_head) (snd (find_all re content tail)) of
                  None \<Rightarrow> Inl ''End anchor not found after start anchor''
                | Some (_, end') \<Rightarrow> Inr (start, end', ''Anchored/'' @ how))
           | many \<Rightarrow> Inl (''Ambiguous start anchor - '' @ show_nat (length many) @ '' matches''))"

definition locate :: "regex_ops \<Rightarrow> string \<Rightarrow> string \<Rightarrow> string + nat \<times> nat \<times> string" where
  "locate re content text =
     (let ls = str_split (CHR 0x0A) text;
          before = takeWhile (\<lambda>line. str_trim line \<noteq> GAP) ls
      in if length before = length ls then locate_plain re content text
         else locate_anchored re content (str_join newline before) (str_join newline (drop (length before + 1) ls)))"

record patch_state =
  ps_files :: "(string, string) btree"
  ps_applied :: "applied_block list"
  ps_refused :: "refused_block list"

definition refuse_block :: "string \<Rightarrow> string \<Rightarrow> patch_state \<Rightarrow> patch_state" where
  "refuse_block path reason st = st\<lparr>ps_refused := ps_refused st @ [\<lparr>rf_path = path, rf_reason = reason\<rparr>]\<rparr>"

definition land :: "string \<Rightarrow> string \<Rightarrow> string \<Rightarrow> patch_state \<Rightarrow> patch_state" where
  "land path content how st =
     st\<lparr>ps_files := bt_insert path content (ps_files st),
        ps_applied := ps_applied st @ [\<lparr>ap_path = path, ap_how = how\<rparr>]\<rparr>"

definition writable :: "(string \<Rightarrow> bool) \<Rightarrow> string \<Rightarrow> bool" where
  "writable allowed path \<longleftrightarrow>
     \<not> (path = [] \<or> starts_with ''/'' path \<or> list_ex (\<lambda>part. part = ''..'') (str_split (CHR ''/'') path) \<or> \<not> allowed path)"

definition apply_at :: "regex_ops \<Rightarrow> block \<Rightarrow> string \<Rightarrow> patch_state \<Rightarrow> patch_state" where
  "apply_at re b path st =
     (if str_trim (bl_search b) = []
      then land path (bl_replace b @ newline) (if bt_get (ps_files st) path \<noteq> None then ''Replaced'' else ''Created'') st
      else
        (case bt_get (ps_files st) path of
           None \<Rightarrow> refuse_block path ''file not found (non-empty SEARCH)'' st
         | Some content \<Rightarrow>
             (case locate re content (bl_search b) of
                Inr (start, end', how) \<Rightarrow>
                  let end'' = (if bl_replace b = [] \<and> starts_with newline (drop end' content) then end' + 1 else end')
                  in land path (take start content @ bl_replace b @ drop end'' content)
                       (if bl_replace b = [] then ''Deleted'' else how) st
              | Inl reason \<Rightarrow>
                  if reason = ''No match'' \<and> nearly_whole (bl_search b) content
                  then land path (bl_replace b @ newline) ''Rewrote (SEARCH ~ whole file, no exact match)'' st
                  else refuse_block path reason st)))"

definition apply_block :: "regex_ops \<Rightarrow> (string \<Rightarrow> bool) \<Rightarrow> string \<Rightarrow> block \<Rightarrow> patch_state \<Rightarrow> patch_state" where
  "apply_block re allowed refusal b st =
     (let hits = map fst (filter (\<lambda>(_, content). snd (find_all re content (bl_search b)) \<noteq> []) (ps_files st));
          nameless = \<not> is_path (bl_path b) \<and> str_trim (bl_search b) \<noteq> []
      in if nameless \<and> length hits \<noteq> 1
         then refuse_block (bl_path b) (''no path line before <<<<<<< SEARCH and the SEARCH text is in '' @
                show_nat (length hits) @ '' files'') st
         else
           let path = (if nameless then hd hits else bl_path b)
           in if \<not> writable allowed path then refuse_block (bl_path b) refusal st else apply_at re b path st)"

definition apply_where ::
  "regex_ops \<Rightarrow> (string \<Rightarrow> bool) \<Rightarrow> string \<Rightarrow> block list \<Rightarrow> (string, string) btree \<Rightarrow> patch_state" where
  "apply_where re allowed refusal blocks files =
     fold (apply_block re allowed refusal) blocks \<lparr>ps_files = files, ps_applied = [], ps_refused = []\<rparr>"

definition apply_blocks :: "regex_ops \<Rightarrow> string list \<Rightarrow> block list \<Rightarrow> (string, string) btree \<Rightarrow> patch_state" where
  "apply_blocks re allowed blocks files =
     apply_where re (\<lambda>path. path \<in> set allowed)
       (''not a file this run may write; the files are: '' @ str_join '', '' allowed) blocks files"

subsection \<open>Lemmas\<close>

lemma writable_iff:
  "writable allowed path \<longleftrightarrow>
     allowed path \<and> path \<noteq> [] \<and> \<not> starts_with ''/'' path \<and> ''..'' \<notin> set (str_split (CHR ''/'') path)"
  by (auto simp: writable_def list_ex_iff)

text \<open>One block either lands a writable file or is refused, and touches no other file.\<close>

definition one_step :: "(string \<Rightarrow> bool) \<Rightarrow> patch_state \<Rightarrow> patch_state \<Rightarrow> bool" where
  "one_step allowed st st' \<longleftrightarrow>
     (\<exists>path reason. st' = refuse_block path reason st) \<or>
     (\<exists>path content how. writable allowed path \<and> st' = land path content how st)"

lemma one_step_intros:
  "one_step allowed st (refuse_block path reason st)"
  "writable allowed path \<Longrightarrow> one_step allowed st (land path content how st)"
  unfolding one_step_def by blast+

lemma apply_at_step: "writable allowed path \<Longrightarrow> one_step allowed st (apply_at re b path st)"
  by (simp add: apply_at_def Let_def one_step_intros split: option.splits sum.splits)

lemma apply_block_step: "one_step allowed st (apply_block re allowed refusal b st)"
  by (simp add: apply_block_def Let_def apply_at_step one_step_intros)

definition patched :: "(string \<Rightarrow> bool) \<Rightarrow> patch_state \<Rightarrow> nat \<Rightarrow> patch_state \<Rightarrow> bool" where
  "patched allowed st n st' \<longleftrightarrow>
     (\<forall>path. bt_get (ps_files st') path = bt_get (ps_files st) path \<or> path \<in> set (map ap_path (ps_applied st'))) \<and>
     set (map fst (ps_files st)) \<subseteq> set (map fst (ps_files st')) \<and>
     set (map ap_path (ps_applied st')) \<subseteq> set (map ap_path (ps_applied st)) \<union> Collect (writable allowed) \<and>
     length (ps_applied st') + length (ps_refused st') = length (ps_applied st) + length (ps_refused st) + n \<and>
     set (map ap_path (ps_applied st)) \<subseteq> set (map ap_path (ps_applied st'))"

lemma patched_step: "patched allowed st n st' \<Longrightarrow> one_step allowed st' st'' \<Longrightarrow> patched allowed st (Suc n) st''"
  unfolding one_step_def
proof (elim disjE exE conjE)
  fix path reason
  assume "patched allowed st n st'" "st'' = refuse_block path reason st'"
  then show ?thesis by (simp add: patched_def refuse_block_def)
next
  fix path content how
  assume p: "patched allowed st n st'" and w: "writable allowed path" and l: "st'' = land path content how st'"
  have "set (map fst (ps_files st'')) = insert path (set (map fst (ps_files st')))"
    using bt_insert_keys [of path content "ps_files st'"] by (simp add: l land_def)
  with p w show ?thesis
    unfolding patched_def by (auto simp: l land_def bt_get_insert)
qed

lemma patched_fold:
  "patched allowed st n st' \<Longrightarrow> patched allowed st (n + length bs) (fold (apply_block re allowed refusal) bs st')"
proof (induction bs arbitrary: n st')
  case (Cons b bs)
  from Cons.IH [OF patched_step [OF Cons.prems apply_block_step]] show ?case by simp
qed simp

lemma patched_refl: "patched allowed st 0 st"
  by (simp add: patched_def)

lemma locate_plain_unique:
  "locate_plain re content text = Inr (start, end', how) \<longleftrightarrow> find_all re content text = (how, [(start, end')])"
  by (cases "find_all re content text") (auto simp: locate_plain_def split: list.splits)

subsection \<open>Properties\<close>

text \<open>
  Property C17. Whatever a model answers, its blocks write only files the run may write: a file that
  differs afterwards is one an applied block names, every applied block names an allowed relative path
  without a parent step, no file disappears, and each block is either applied or refused.
\<close>

theorem patch_writes_only_allowed_files:
  "let st = apply_where re allowed refusal blocks files in
   (bt_get (ps_files st) path = bt_get files path \<or> path \<in> set (map ap_path (ps_applied st))) \<and>
   list_all (\<lambda>p. allowed p \<and> p \<noteq> [] \<and> \<not> starts_with ''/'' p \<and> ''..'' \<notin> set (str_split (CHR ''/'') p))
     (map ap_path (ps_applied st)) \<and>
   set (map fst files) \<subseteq> set (map fst (ps_files st)) \<and>
   length (ps_applied st) + length (ps_refused st) = length blocks"
proof -
  let ?start = "\<lparr>ps_files = files, ps_applied = [], ps_refused = []\<rparr>"
  have "patched allowed ?start (length blocks) (apply_where re allowed refusal blocks files)"
    using patched_fold [OF patched_refl, of allowed ?start blocks re refusal] by (simp add: apply_where_def)
  then show ?thesis
    unfolding patched_def Let_def list_all_iff writable_iff [symmetric] by auto
qed

end
