(* ===== verification/Spec2Isabelle.thy ===== *)
theory Spec2Isabelle
  imports AccessGuards GroupDoors Merge Cache Stall FilterGrammar Listing Quotas RunQueue Transitions Agreements Secrets
    PipelineRights Patch
begin

text \<open>
  A verification of the core of the joinedcontext portal, the Rust program under \<open>src/src\<close>.

  The portal keeps a city's data platform as manifests in Git repositories. A sync reads them into
  the mirror, an ordered map in memory; REST and MCP callers list, read and change manifests; every
  write is judged against the grants the mirror's own RoleBindings give the caller and becomes a
  change on a green, yellow or red lane; a reconciler compares the mirror with the outside world and
  runs pipelines. The theories follow that order.

  \<^bold>\<open>Theories and sources\<close>

  \<^item> \<open>Prelude\<close>: text as UTF-8 bytes, ordered maps (locale \<open>ordered_map\<close>, interpreted as \<open>bt\<close> on sorted
    association lists), JSON values, option and sum helpers.
  \<^item> \<open>Errors\<close> (\<open>error.rs\<close>): refusals as a datatype, and the problem document and status of each.
  \<^item> \<open>Resource\<close> (\<open>resource/mod.rs\<close>): the envelope of a manifest, its key, names, kinds and paths.
  \<^item> \<open>Selector\<close> (\<open>resource/selector.rs\<close>): label and field selectors, their parsers and matching.
  \<^item> \<open>Store\<close> (\<open>store.rs\<close>): the mirror with its operations; \<open>mirror_reachable\<close> and \<open>mirror_wf\<close>.
  \<^item> \<open>Identity\<close>, \<open>Organizations\<close>, \<open>Grants\<close>, \<open>Judgements\<close>, \<open>AccessGuards\<close> (\<open>permissions.rs\<close>): whom a
    binding names, which Organization a project belongs to, the rules in force for a caller and how
    they land in one project, what they allow, and the guards on a change of roles and bindings.
  \<^item> \<open>GroupDoors\<close> (\<open>groups.rs\<close>): who a Group belongs to, and the doors of a project's own people at the
    organization.
  \<^item> \<open>PipelineRights\<close> (\<open>pipeline_rights.rs\<close>): what the people of a Pipeline must reach themselves.
  \<^item> \<open>Change\<close> (\<open>change.rs\<close>): lanes, channels and trailers of changes. \<open>Plan\<close> and \<open>Merge\<close>
    (\<open>plan.rs\<close>): deltas, JSON merge patch and the three-way merge.
  \<^item> \<open>Secrets\<close> (\<open>secret_scan.rs\<close>, with functions of \<open>api/mutate.rs\<close>, \<open>api/changes.rs\<close>, \<open>api/export.rs\<close>,
    \<open>pipeline_outcomes.rs\<close> and \<open>ops/mod.rs\<close>): credentials in manifests, plans, exports, arguments and
    answers.
  \<^item> \<open>Patch\<close> (\<open>agents/patch.rs\<close>): the edits of a model's answer applied to the files of a run.
  \<^item> \<open>Cache\<close> (\<open>cache.rs\<close>): the byte-weighted cache.
  \<^item> \<open>ListFilter\<close>, \<open>FilterGrammar\<close> (\<open>resource/filter.rs\<close>): the filter language, its evaluation and the
    printer its parser inverts. \<open>Listing\<close> (\<open>api/list_query.rs\<close> and the list handler of
    \<open>api/resources.rs\<close>): query parameters, signed cursors and pages.
  \<^item> \<open>Quotas\<close> (\<open>quotas.rs\<close>, with \<open>stays_resident\<close> of \<open>reconciler/streams.rs\<close>).
  \<^item> \<open>Clock\<close>, \<open>RunQueue\<close>, \<open>OneRun\<close> (\<open>reconciler/run_queue.rs\<close>, parts of \<open>pipeline_log.rs\<close> and of
    \<open>reconciler/streams/render.rs\<close>): cron and periods, the queue of runs with its two lanes, and the
    stream of one run. \<open>Stall\<close> (\<open>reconciler/stall.rs\<close>) and \<open>Transitions\<close>
    (\<open>reconciler/transitions.rs\<close>): stalled streams, and the times of conditions.
  \<^item> \<open>Agreements\<close> (\<open>reconciler/agreements.rs\<close>): data-space agreements compiled into Policies.

  \<^bold>\<open>State and operations\<close>

  A struct is a record, an enum a datatype, a method a function on the record, an early return or an
  error a value of a sum or option type. A \<open>BTreeMap\<close> is a sorted association list, a \<open>HashMap\<close> that
  is only looked up a function. Integers stay at their width where they can overflow: counts of
  quotas are 32-bit words, cron fields 64-bit words, the arithmetic of periods
  wraps at 64 bits, and the cache's counters are checked at 64 bits, an overflow being \<open>None\<close>. A lock makes each locked section one step: \<open>queue_reachable\<close> and
  \<open>mirror_reachable\<close> let any step follow any other, so what they show holds for every interleaving.

  What one part promises another is a locale, interpreted on the definitions of the part that provides
  it: \<open>ordered_map\<close> for maps, \<open>forward_clock\<close> for the clocks the queue asks, \<open>grant_judgement\<close> for
  questions asked of a list of grants and \<open>list_order\<close> for the order of a listing.

  \<^bold>\<open>What is shown\<close>

  Permissions: nobody grants more than they hold, the last administrator stays, an Organization's
  administrator is confined to it, the doors opened beside the roles let through no more than they say,
  a pipeline writes no space and reads no source of its project past those its steward reaches, and the optimised loops (\<open>check\<close>, \<open>in_force\<close>, \<open>only_drops_grants\<close>)
  decide their specifications. Mirror and listings: names are valid, tokens and cursors hand out every
  row once and in order, a list holds only what its caller may read, and what they may not read leaves
  no trace in it unless their permissions are read from it. Languages: selectors and
  filters are parsed back from their printed form. Merge: both sides' edits survive, and conflicts are
  exactly the fields to answer. Cache: it refines a list by last use and stays in its budget. Quotas: an
  accepted manifest leaves the project within its limits, a DataSource that makes pipelines resident
  apart. Run queue: the next run of a clock is the
  first one it names, a plan holds exactly the wanted pipelines, lanes are filled earliest due first and
  never past their limit, the stream of one run ends. Agreements: a compiled Policy permits nothing its offer does not, and a
  filter of the other participant is taken exactly when it cannot escape its parentheses. Secrets: the write door and the scan find exactly the
  credentials they name, a plan that creates or removes a manifest does not depend on them, an export
  empties them and nothing else, and a masked answer is the answer with exactly them masked. Patches: a model's answer writes only files its run may write. Here, at the root, what spans permissions and changes.

  \<^bold>\<open>Bounds and fuel\<close>

  Following continue tokens (\<open>drain\<close>) and cursors (\<open>drain_listing\<close>) takes one unit of fuel per page;
  the theorems give more fuel than there are rows, which is enough since each page has a row. Splitting
  text takes its length as fuel. The search of a schema for a field (\<open>has_path\<close>) stops after 64 hops, as the
  code does.
  The cache's theorems assume a budget under \<open>2 ^ 63\<close> bytes and fewer than \<open>2 ^ 64\<close> operations, those of quotas fewer than \<open>2 ^ 32 - 1\<close>
  manifests of a kind, those of clocks periods under \<open>2 ^ 62\<close> ms and dates within half of chrono's range.

  \<^bold>\<open>Code outside the repository\<close>

  It is an argument: jc-core (\<open>jc_names\<close>, \<open>jc_core\<close>, \<open>quota_ops\<close>), serde's readers and writers,
  regular expressions, base64 and keyed hashes, SHA-256, floating point (\<open>float_ops\<close>) and chrono
  (\<open>chrono\<close>). What is relied on is a named hypothesis, such as \<open>chrono_laws\<close>, and a concrete instance
  (\<open>gregorian\<close> and the \<open>demo_\<close> definitions) shows that it can hold.

  \<^bold>\<open>Not modelled\<close>

  HTTP handlers other than the list handler, clients of Gitea, Keycloak, the runner, the brokers and
  Kubernetes, OIDC and cookies, SQL, the assistants' conversations, process start and metrics: their
  work is I/O with services outside. YAML reading and the ETag digest of a manifest are serde's and
  SHA-256's. Next in line are the change handlers of \<open>api/changes.rs\<close> and the stream renderer of
  \<open>reconciler/streams/render.rs\<close>, which compose the parts modelled here.
\<close>

subsection \<open>Changes and permissions agree on egress\<close>

lemma declared_egress_is_red:
  assumes "declares_egress (Some doc)" "jget ''spec'' doc = Some spec"
  shows "classify ''App'' op spec = Red"
proof -
  obtain m sp where "doc = JObject m" "bt_get m ''spec'' = Some (JObject sp)"
    using declares_egress_objects [OF assms(1)] by auto
  moreover have "array_index ''egress'' = None" "array_index ''spec'' = None" by code_simp+
  ultimately have "is_some_and (\<lambda>egress. egress \<noteq> []) (get_array ''egress'' spec)"
    using assms by (auto simp: declares_egress_def get_array_def split: option.splits)
  then show ?thesis by (simp add: classify_def)
qed

text \<open>
  Property C23. The two parts that look at an App's destinations on the internet agree: the change
  that declares them is on the red lane whatever its operation, and its approval is refused, with
  the role it needs, to whoever's grants approve Apps only under a visibility that is not public.
\<close>

theorem egress_app_is_red_and_needs_a_publisher:
  assumes "declares_egress (Some doc)" "jget ''spec'' doc = Some spec" "\<not> e_bootstrap e"
    and "\<forall>g \<in> set (e_grants e). rule_grants jc (g_rule g) ''App'' Approve \<longrightarrow>
      (\<exists>c \<in> set (r_constraints (g_rule g)).
         c_field c = ''spec.visibility'' \<and> \<not> constraint_holds jc c (Some ''public''))"
  shows "classify ''App'' op spec = Red \<and> check jc e ''App'' Approve (Some doc) = Inl (Denied EGRESS_APP)"
  using declared_egress_is_red [OF assms(1,2)] egress_needs_a_publisher [OF assms(1,3,4)] by simp

definition egress_app :: json where
  "egress_app = demo_manifest ''a'' [(''egress'', demo_strings [''example.com'']), (''visibility'', JString ''project'')]"

definition steward_effective :: effective where
  "steward_effective = \<lparr>e_project = ''bikes'', e_bootstrap = False, e_grants =
      [\<lparr>g_role = ''steward'', g_binding = ''b'', g_scope = ''project:bikes'', g_space = None,
        g_organization = None, g_rule = \<lparr>r_kinds = [''App''], r_verbs = [Approve],
          r_constraints = [none_of ''spec.visibility'' [''public'']]\<rparr>\<rparr>]\<rparr>"

theorem egress_app_is_red_and_needs_a_publisher_witness:
  "\<exists>spec. jget ''spec'' egress_app = Some spec \<and> classify ''App'' OpUpdate spec = Red \<and>
     check demo_core steward_effective ''App'' Approve (Some egress_app) = Inl (Denied EGRESS_APP)"
proof -
  obtain spec where spec: "jget ''spec'' egress_app = Some spec"
    by (simp add: egress_app_def demo_manifest_def bt_collect_get)
  have "declares_egress (Some egress_app)" "\<not> e_bootstrap steward_effective"
    "\<forall>g \<in> set (e_grants steward_effective). rule_grants demo_core (g_rule g) ''App'' Approve \<longrightarrow>
      (\<exists>c \<in> set (r_constraints (g_rule g)).
         c_field c = ''spec.visibility'' \<and> \<not> constraint_holds demo_core c (Some ''public''))"
    by code_simp+
  then show ?thesis
    using egress_app_is_red_and_needs_a_publisher [OF _ spec, of steward_effective demo_core OpUpdate] spec by blast
qed

end
